(* ===== verification/Fsm_Prelude.thy ===== *)
theory Fsm_Prelude
  imports Main "HOL-Library.Finite_Map" "HOL-Library.FSet" "HOL-Library.Word"
begin

section \<open>Prelude: the vocabulary the components share\<close>

text \<open>
  Standard-library types and iterator operations of Rust that the crates use, with the lemmas
  about them, and the theorem collections of the development.

  \<^item> \<open>Vec<T>\<close> and \<open>VecDeque<T>\<close> are lists (front of the queue first), \<open>BTreeSet<T>\<close> is a
    finite set \<open>'a fset\<close> over a linear order whose iteration order is \<open>sorted_list_of_fset\<close>,
    \<open>BTreeMap<K, V>\<close> is a finite map \<open>('k, 'v) fmap\<close>, \<open>String\<close> is a list of characters and
    \<open>usize\<close> counters that the code increments are 64-bit words.
  \<^item> \<open>Result<T, E>\<close> is \<open>E + T\<close> with \<open>Inl\<close> for the error, \<open>Option<T>\<close> is \<open>'a option\<close>.
\<close>

named_theorems graph_simps "characteristic equations of the transition graph"
named_theorems engine_simps "characteristic equations of the transition engine"
named_theorems actor_simps "characteristic equations of the FSM actor"

type_synonym usize = "64 word"

subsection \<open>Iterator::find_map\<close>

fun find_map :: "('a \<Rightarrow> 'b option) \<Rightarrow> 'a list \<Rightarrow> 'b option" where
  "find_map f [] = None"
| "find_map f (x # xs) = (case f x of Some y \<Rightarrow> Some y | None \<Rightarrow> find_map f xs)"

lemma find_map_append:
  "find_map f (xs @ ys) = (case find_map f xs of Some y \<Rightarrow> Some y | None \<Rightarrow> find_map f ys)"
  by (induction xs) (auto split: option.splits)

lemma find_map_map [simp]: "find_map f (map g xs) = find_map (f \<circ> g) xs"
  by (induction xs) (auto split: option.splits)

lemma find_map_cong [fundef_cong]:
  "xs = ys \<Longrightarrow> (\<And>x. x \<in> set ys \<Longrightarrow> f x = g x) \<Longrightarrow> find_map f xs = find_map g ys"
  by (induction ys arbitrary: xs) (auto split: option.splits)

lemma find_map_if_find:
  "find_map (\<lambda>x. if P x then Some (f x) else None) xs = map_option f (find P xs)"
  by (induction xs) auto

lemma find_filter: "find P (filter Q xs) = find (\<lambda>x. Q x \<and> P x) xs"
  by (induction xs) auto

lemma find_SomeD: "find P xs = Some x \<Longrightarrow> x \<in> set xs \<and> P x"
  by (induction xs) (auto split: if_splits)

lemma find_None_iff_all: "find P xs = None \<longleftrightarrow> (\<forall>x\<in>set xs. \<not> P x)"
  by (induction xs) auto

subsection \<open>The last elements of a list\<close>

definition take_last :: "nat \<Rightarrow> 'a list \<Rightarrow> 'a list" where
  "take_last n xs = drop (length xs - n) xs"

lemma length_take_last [simp]: "length (take_last n xs) = min n (length xs)"
  by (simp add: take_last_def)

lemma take_last_all [simp]: "length xs \<le> n \<Longrightarrow> take_last n xs = xs"
  by (simp add: take_last_def)

lemma take_last_snoc: "0 < n \<Longrightarrow> take_last n (xs @ [x]) = take_last (n - 1) xs @ [x]"
  by (cases n) (simp_all add: take_last_def)

lemma take_last_tl: "length xs \<ge> n \<Longrightarrow> 0 < n \<Longrightarrow> take_last (n - 1) xs = tl (take_last n xs)"
  by (simp add: take_last_def tl_drop drop_Suc [symmetric] Suc_diff_le)

lemma last_take_last: "0 < n \<Longrightarrow> xs \<noteq> [] \<Longrightarrow> last (take_last n xs) = last xs"
  by (simp add: take_last_def)

lemma take_last_eq_Nil [simp]: "take_last n xs = [] \<longleftrightarrow> n = 0 \<or> xs = []"
  by (cases xs) (auto simp: take_last_def)

end
