(* ===== verification/Fsm_Errors.thy ===== *)
theory Fsm_Errors
  imports Fsm_Prelude
begin

section \<open>Errors (finitomata/src/error.rs)\<close>

text \<open>
  The error values of the library and their rendering. The constructors of
  \<open>FinitomataError\<close> take \<open>impl Display\<close> arguments and call \<open>to_string\<close> on them; the model
  passes the rendered strings.
\<close>

datatype ErrorStage =
    OnTransition | OnEnter | OnExit | Persistency | NotAllowed | NotResponds | Validation | Unknown

fun ErrorStage_display :: "ErrorStage \<Rightarrow> string" where
  "ErrorStage_display OnTransition = ''on_transition''"
| "ErrorStage_display OnEnter = ''on_enter''"
| "ErrorStage_display OnExit = ''on_exit''"
| "ErrorStage_display Persistency = ''persistency''"
| "ErrorStage_display NotAllowed = ''not_allowed''"
| "ErrorStage_display NotResponds = ''not_responds''"
| "ErrorStage_display Validation = ''validation''"
| "ErrorStage_display Unknown = ''unknown''"

record FinitomataError =
  stage :: ErrorStage
  reason :: string
  err_state :: "string option"
  err_event :: "string option"

definition FinitomataError_display :: "FinitomataError \<Rightarrow> string" where
  "FinitomataError_display e = ''['' @ ErrorStage_display (stage e) @ ''] '' @ reason e"

definition err_not_responds :: "string \<Rightarrow> string \<Rightarrow> FinitomataError" where
  "err_not_responds st ev =
     \<lparr>stage = NotResponds,
      reason = ''state `'' @ st @ ''` does not respond to event `'' @ ev @ ''`'',
      err_state = Some st, err_event = Some ev\<rparr>"

definition err_not_allowed :: "string \<Rightarrow> string \<Rightarrow> string \<Rightarrow> FinitomataError" where
  "err_not_allowed frm tgt ev =
     \<lparr>stage = NotAllowed,
      reason = ''transition from `'' @ frm @ ''` to `'' @ tgt @ ''` via `'' @ ev @ ''` is not allowed'',
      err_state = Some frm, err_event = Some ev\<rparr>"

definition err_on_transition :: "string \<Rightarrow> FinitomataError" where
  "err_on_transition r = \<lparr>stage = OnTransition, reason = r, err_state = None, err_event = None\<rparr>"

definition err_on_enter :: "string \<Rightarrow> FinitomataError" where
  "err_on_enter r = \<lparr>stage = OnEnter, reason = r, err_state = None, err_event = None\<rparr>"

definition err_on_exit :: "string \<Rightarrow> FinitomataError" where
  "err_on_exit r = \<lparr>stage = OnExit, reason = r, err_state = None, err_event = None\<rparr>"

definition err_persistency :: "string \<Rightarrow> FinitomataError" where
  "err_persistency r = \<lparr>stage = Persistency, reason = r, err_state = None, err_event = None\<rparr>"

definition err_validation :: "string \<Rightarrow> FinitomataError" where
  "err_validation r = \<lparr>stage = Validation, reason = r, err_state = None, err_event = None\<rparr>"

datatype ValidationError =
    NoInitialState
  | MultipleInitialStates "string list"
  | NoFinalState
  | UnreachableState string
  | OrphanState string

datatype PersistencyError =
    LoadFailed string
  | StoreFailed string
  | NotFound string

fun PersistencyError_display :: "PersistencyError \<Rightarrow> string" where
  "PersistencyError_display (LoadFailed m) = ''load failed: '' @ m"
| "PersistencyError_display (StoreFailed m) = ''store failed: '' @ m"
| "PersistencyError_display (NotFound m) = ''not found: '' @ m"

lemma err_stage [simp]:
  "stage (err_not_responds a b) = NotResponds"
  "stage (err_not_allowed a b c) = NotAllowed"
  "stage (err_on_transition a) = OnTransition"
  "stage (err_on_enter a) = OnEnter"
  "stage (err_on_exit a) = OnExit"
  "stage (err_persistency a) = Persistency"
  "stage (err_validation a) = Validation"
  by (simp_all add: err_not_responds_def err_not_allowed_def err_on_transition_def
      err_on_enter_def err_on_exit_def err_persistency_def err_validation_def)

lemma ErrorStage_display_inj: "ErrorStage_display a = ErrorStage_display b \<longleftrightarrow> a = b"
  by (cases a; cases b) simp_all

lemma ErrorStage_display_no_bracket: "CHR '']'' \<notin> set (ErrorStage_display s)"
  by (cases s) simp_all

text \<open>
  No stage has a closing bracket in its name, so the stage of a rendered error ends at the first
  one, and the rendering determines the stage and the reason.
\<close>

lemma FinitomataError_display_determines:
  assumes "FinitomataError_display e = FinitomataError_display e'"
  shows "stage e = stage e' \<and> reason e = reason e'"
proof -
  let ?p = "\<lambda>c. c \<noteq> CHR '']''"
  have tw: "takeWhile ?p (ErrorStage_display s @ CHR '']'' # r) = ErrorStage_display s" for s r
    using ErrorStage_display_no_bracket [of s]
    by (subst takeWhile_append2) auto
  from assms have eq: "ErrorStage_display (stage e) @ CHR '']'' # CHR '' '' # reason e
      = ErrorStage_display (stage e') @ CHR '']'' # CHR '' '' # reason e'"
    by (simp add: FinitomataError_display_def)
  then have d: "ErrorStage_display (stage e) = ErrorStage_display (stage e')"
    using tw by metis
  with eq show ?thesis by (simp add: ErrorStage_display_inj)
qed

end
