(* ===== verification/Fsm_Graph.thy ===== *)
theory Fsm_Graph
  imports Fsm_Errors
begin

section \<open>The transition graph (finitomata/src/transition.rs)\<close>

text \<open>
  The data of a finite state machine: its transitions in declaration order, its initial and
  final states, and an index from a source state to the positions of its transitions.
  The operations read the graph through the index, as the code does; the lemmas relate each
  of them to a scan of the transition list.
\<close>

datatype EventKind = Normal | Hard | Soft

record ('s, 'e) Transition =
  t_from :: 's
  t_to :: "'s list"
  t_event :: 'e
  t_kind :: EventKind

record ('s, 'e) TransitionGraph =
  initial :: 's
  finals :: "'s fset"
  transitions :: "('s, 'e) Transition list"
  index :: "('s, nat list) fmap"

subsection \<open>TransitionGraph::new\<close>

text \<open>One turn of the loop: \<open>index.entry(t.from.clone()).or_default().push(i)\<close>.\<close>

definition index_push :: "'s \<Rightarrow> nat \<Rightarrow> ('s, nat list) fmap \<Rightarrow> ('s, nat list) fmap" where
  "index_push s i ix =
     fmupd s ((case fmlookup ix s of None \<Rightarrow> [] | Some is \<Rightarrow> is) @ [i]) ix"

fun index_loop :: "('s, 'e) Transition list \<Rightarrow> nat \<Rightarrow> ('s, nat list) fmap \<Rightarrow> ('s, nat list) fmap" where
  "index_loop [] i ix = ix"
| "index_loop (t # ts) i ix = index_loop ts (Suc i) (index_push (t_from t) i ix)"

definition TransitionGraph_new ::
    "'s \<Rightarrow> 's fset \<Rightarrow> ('s, 'e) Transition list \<Rightarrow> ('s, 'e) TransitionGraph" where
  "TransitionGraph_new ini fins ts =
     \<lparr>initial = ini, finals = fins, transitions = ts, index = index_loop ts 0 fmempty\<rparr>"

subsection \<open>Queries\<close>

definition initial_state :: "('s, 'e) TransitionGraph \<Rightarrow> 's" where
  "initial_state g = initial g"

definition final_states :: "('s, 'e) TransitionGraph \<Rightarrow> 's fset" where
  "final_states g = finals g"

definition graph_transitions :: "('s, 'e) TransitionGraph \<Rightarrow> ('s, 'e) Transition list" where
  "graph_transitions g = transitions g"

definition is_final :: "('s, 'e) TransitionGraph \<Rightarrow> 's \<Rightarrow> bool" where
  "is_final g s = (s |\<in>| finals g)"

definition allowed :: "('s, 'e) TransitionGraph \<Rightarrow> 's \<Rightarrow> 'e \<Rightarrow> ('s list \<times> EventKind) option" where
  "allowed g s e =
     Option.bind (fmlookup (index g) s)
       (find_map (\<lambda>i. let t = transitions g ! i
                       in if t_event t = e then Some (t_to t, t_kind t) else None))"

definition responds :: "('s, 'e) TransitionGraph \<Rightarrow> 's \<Rightarrow> 'e \<Rightarrow> bool" where
  "responds g s e = (allowed g s e \<noteq> None)"

definition events_for :: "('s, 'e) TransitionGraph \<Rightarrow> 's \<Rightarrow> ('e \<times> EventKind) list" where
  "events_for g s =
     (case map_option (map (\<lambda>i. (t_event (transitions g ! i), t_kind (transitions g ! i))))
             (fmlookup (index g) s)
      of None \<Rightarrow> [] | Some evs \<Rightarrow> evs)"

text \<open>The loops of \<open>all_states\<close>: the targets of one transition, then the transitions.\<close>

fun add_targets :: "'s list \<Rightarrow> 's fset \<Rightarrow> 's fset" where
  "add_targets [] acc = acc"
| "add_targets (x # xs) acc = add_targets xs (finsert x acc)"

fun add_transitions :: "('s, 'e) Transition list \<Rightarrow> 's fset \<Rightarrow> 's fset" where
  "add_transitions [] acc = acc"
| "add_transitions (t # ts) acc = add_transitions ts (add_targets (t_to t) (finsert (t_from t) acc))"

definition all_states :: "('s, 'e) TransitionGraph \<Rightarrow> 's fset" where
  "all_states g = add_transitions (transitions g) (finals g |\<union>| {|initial g|})"

definition all_events :: "('s, 'e) TransitionGraph \<Rightarrow> 'e fset" where
  "all_events g = fset_of_list (map t_event (transitions g))"

subsection \<open>The index is the positions of the transitions, by source state\<close>

definition positions :: "('s, 'e) Transition list \<Rightarrow> 's \<Rightarrow> nat list" where
  "positions ts s = filter (\<lambda>i. t_from (ts ! i) = s) [0..<length ts]"

definition graph_inv :: "('s, 'e) TransitionGraph \<Rightarrow> bool" where
  "graph_inv g \<longleftrightarrow>
     (\<forall>s. fmlookup (index g) s =
        (if positions (transitions g) s = [] then None else Some (positions (transitions g) s)))"

lemma positions_Nil [simp]: "positions [] s = []"
  by (simp add: positions_def)

lemma positions_Cons:
  "positions (t # ts) s = (if t_from t = s then [0] else []) @ map Suc (positions ts s)"
proof -
  have "[0..<length (t # ts)] = 0 # map Suc [0..<length ts]"
    by (simp add: upt_conv_Cons map_Suc_upt del: upt_Suc)
  then show ?thesis
    by (simp add: positions_def filter_map o_def del: upt_Suc)
qed

lemma positions_bound: "i \<in> set (positions ts s) \<Longrightarrow> i < length ts \<and> t_from (ts ! i) = s"
  by (auto simp: positions_def)

lemma positions_mem: "i \<in> set (positions ts s) \<longleftrightarrow> i < length ts \<and> t_from (ts ! i) = s"
  by (auto simp: positions_def)

lemma map_nth_positions: "map ((!) ts) (positions ts s) = filter (\<lambda>t. t_from t = s) ts"
proof (induction ts)
  case (Cons t ts)
  have "map ((!) (t # ts)) (map Suc (positions ts s)) = map ((!) ts) (positions ts s)"
    by simp
  with Cons.IH show ?case
    by (simp add: positions_Cons del: map_map)
qed simp

text \<open>The value of the index at a key, with the empty vector where \<open>or_default\<close> gives one.\<close>

definition index_list :: "('s, nat list) fmap \<Rightarrow> 's \<Rightarrow> nat list" where
  "index_list ix s = (case fmlookup ix s of None \<Rightarrow> [] | Some is \<Rightarrow> is)"

lemma index_list_push:
  "index_list (index_push k i ix) s = index_list ix s @ (if s = k then [i] else [])"
  by (auto simp: index_list_def index_push_def)

lemma index_list_loop:
  "index_list (index_loop ts k ix) s = index_list ix s @ map ((+) k) (positions ts s)"
proof (induction ts arbitrary: k ix)
  case (Cons t ts)
  have "map ((+) (Suc k)) (positions ts s) = map ((+) k) (map Suc (positions ts s))"
    by simp
  with Cons.IH show ?case
    by (simp add: index_list_push positions_Cons)
qed simp

lemma index_loop_None:
  "fmlookup (index_loop ts k ix) s = None \<longleftrightarrow> fmlookup ix s = None \<and> positions ts s = []"
  by (induction ts arbitrary: k ix) (auto simp: positions_Cons index_push_def)

lemma graph_inv_new: "graph_inv (TransitionGraph_new ini fins ts)"
proof -
  have "fmlookup (index_loop ts 0 fmempty) s =
      (if positions ts s = [] then None else Some (positions ts s))" for s
    using index_list_loop [of ts 0 fmempty s] index_loop_None [of ts 0 fmempty s]
    by (auto simp: index_list_def map_idI split: option.splits)
  then show ?thesis
    by (simp add: graph_inv_def TransitionGraph_new_def)
qed

lemma TransitionGraph_new_fields [simp]:
  "initial (TransitionGraph_new ini fins ts) = ini"
  "finals (TransitionGraph_new ini fins ts) = fins"
  "transitions (TransitionGraph_new ini fins ts) = ts"
  by (simp_all add: TransitionGraph_new_def)

lemma index_lookup:
  "graph_inv g \<Longrightarrow> fmlookup (index g) s =
     (if positions (transitions g) s = [] then None else Some (positions (transitions g) s))"
  by (simp add: graph_inv_def)

lemma index_in_range:
  "graph_inv g \<Longrightarrow> fmlookup (index g) s = Some is \<Longrightarrow> i \<in> set is \<Longrightarrow>
     i < length (transitions g) \<and> t_from (transitions g ! i) = s"
  by (auto simp: index_lookup positions_mem split: if_splits)

subsection \<open>Queries through the index are scans of the transitions\<close>

lemma allowed_scan [graph_simps]:
  assumes "graph_inv g"
  shows "allowed g s e =
    map_option (\<lambda>t. (t_to t, t_kind t)) (find (\<lambda>t. t_from t = s \<and> t_event t = e) (transitions g))"
proof -
  let ?ts = "transitions g" and ?f = "\<lambda>t. if t_event t = e then Some (t_to t, t_kind t) else None"
  have "allowed g s e = find_map (\<lambda>i. ?f (?ts ! i)) (positions ?ts s)"
    using assms by (simp add: allowed_def index_lookup Let_def)
  also have "\<dots> = find_map ?f (map ((!) ?ts) (positions ?ts s))"
    by (simp add: o_def)
  also have "\<dots> = map_option (\<lambda>t. (t_to t, t_kind t))
      (find (\<lambda>t. t_from t = s \<and> t_event t = e) ?ts)"
    by (simp only: map_nth_positions find_map_if_find find_filter)
  finally show ?thesis .
qed

lemma events_for_scan [graph_simps]:
  assumes "graph_inv g"
  shows "events_for g s =
    map (\<lambda>t. (t_event t, t_kind t)) (filter (\<lambda>t. t_from t = s) (transitions g))"
proof -
  have "events_for g s =
      map (\<lambda>t. (t_event t, t_kind t)) (map ((!) (transitions g)) (positions (transitions g) s))"
    using assms by (simp add: events_for_def index_lookup)
  then show ?thesis by (simp only: map_nth_positions)
qed

lemma responds_iff:
  "graph_inv g \<Longrightarrow> responds g s e \<longleftrightarrow> (\<exists>t\<in>set (transitions g). t_from t = s \<and> t_event t = e)"
  by (auto simp: responds_def allowed_scan find_None_iff_all)

lemma responds_events_for:
  "graph_inv g \<Longrightarrow> responds g s e \<longleftrightarrow> e \<in> fst ` set (events_for g s)"
  by (auto simp: responds_iff events_for_scan image_iff)

lemma allowed_SomeD:
  assumes "graph_inv g" "allowed g s e = Some (tos, k)"
  obtains t where "t \<in> set (transitions g)" "t_from t = s" "t_event t = e" "t_to t = tos" "t_kind t = k"
  using assms by (auto simp: allowed_scan dest!: find_SomeD)

subsection \<open>States and events of the graph\<close>

lemma fset_add_targets [simp]: "fset (add_targets xs acc) = set xs \<union> fset acc"
  by (induction xs arbitrary: acc) auto

lemma fset_add_transitions [simp]:
  "fset (add_transitions ts acc) = (\<Union>t\<in>set ts. insert (t_from t) (set (t_to t))) \<union> fset acc"
  by (induction ts arbitrary: acc) auto

lemma fset_all_states:
  "fset (all_states g) = insert (initial g) (fset (finals g)) \<union>
     (\<Union>t\<in>set (transitions g). insert (t_from t) (set (t_to t)))"
  by (auto simp: all_states_def)

lemma initial_in_all_states [simp]: "initial g |\<in>| all_states g"
  by (simp add: fset_all_states)

lemma allowed_target_in_all_states:
  "graph_inv g \<Longrightarrow> allowed g s e = Some (tos, k) \<Longrightarrow> x \<in> set tos \<Longrightarrow>
     s |\<in>| all_states g \<and> x |\<in>| all_states g"
  by (erule (1) allowed_SomeD) (auto simp: fset_all_states)

end
