(* ===== verification/Fsm_Search.thy ===== *)
theory Fsm_Search
  imports Fsm_Graph
begin

section \<open>Searching and validating the graph (finitomata/src/transition.rs)\<close>

text \<open>
  The two breadth-first searches of the graph, \<open>reachable_from\<close> and \<open>shortest_path\<close>, with
  their queues and visited sets as the code keeps them, and \<open>validate\<close>, which reports the
  states the first of them does not reach. Each loop over a vector is a recursion over a list;
  the outer \<open>while let\<close> loops are recursions whose termination is proved by a measure on the
  states not yet visited. The specification side is a path of the graph: a list of
  (event, state) pairs, the type \<open>shortest_path\<close> returns.
\<close>

subsection \<open>Paths and reachability\<close>

definition graph_edge :: "('s, 'e) TransitionGraph \<Rightarrow> 's \<Rightarrow> 'e \<Rightarrow> 's \<Rightarrow> bool" where
  "graph_edge g s e x \<longleftrightarrow>
     (\<exists>t\<in>set (transitions g). t_from t = s \<and> t_event t = e \<and> x \<in> set (t_to t))"

fun graph_path :: "('s, 'e) TransitionGraph \<Rightarrow> 's \<Rightarrow> ('e \<times> 's) list \<Rightarrow> 's \<Rightarrow> bool" where
  "graph_path g s [] x \<longleftrightarrow> s = x"
| "graph_path g s ((e, y) # p) x \<longleftrightarrow> graph_edge g s e y \<and> graph_path g y p x"

inductive reachable :: "('s, 'e) TransitionGraph \<Rightarrow> 's \<Rightarrow> 's \<Rightarrow> bool" for g s where
  start: "reachable g s s"
| step: "reachable g s x \<Longrightarrow> graph_edge g x e y \<Longrightarrow> reachable g s y"

lemma graph_path_snoc:
  "graph_path g s (p @ [(e, y)]) x \<longleftrightarrow> (\<exists>z. graph_path g s p z \<and> graph_edge g z e y \<and> y = x)"
  by (induction g s p x rule: graph_path.induct) auto

lemma graph_path_append:
  "graph_path g s (p @ q) x \<longleftrightarrow> (\<exists>z. graph_path g s p z \<and> graph_path g z q x)"
  by (induction g s p x rule: graph_path.induct) auto

lemma graph_path_snocE:
  assumes "graph_path g s p x" "length p = Suc n"
  obtains p' e y where "p = p' @ [(e, x)]" "length p' = n" "graph_path g s p' y" "graph_edge g y e x"
proof -
  obtain p' ey where p: "p = p' @ [ey]" "length p' = n"
    using assms(2) by (metis append_butlast_last_id butlast.simps(1) diff_Suc_1 length_butlast
        list.size(3) nat.distinct(1))
  obtain e y where "ey = (e, y)" by fastforce
  with p assms(1) show thesis by (auto simp: graph_path_snoc intro: that)
qed

lemma reachable_iff_path: "reachable g s x \<longleftrightarrow> (\<exists>p. graph_path g s p x)"
proof
  assume "reachable g s x"
  then show "\<exists>p. graph_path g s p x"
  proof induction
    case start
    have "graph_path g s [] s" by simp
    then show ?case ..
  next
    case (step x e y)
    then obtain p where "graph_path g s p x" by blast
    with step.hyps have "graph_path g s (p @ [(e, y)]) y" by (auto simp: graph_path_snoc)
    then show ?case ..
  qed
next
  have "graph_path g y p x \<Longrightarrow> reachable g s y \<Longrightarrow> reachable g s x" for y p
    by (induction g y p x rule: graph_path.induct) (auto intro: reachable.step)
  then show "\<exists>p. graph_path g s p x \<Longrightarrow> reachable g s x"
    by (blast intro: reachable.start)
qed

lemma reachable_trans: "reachable g x y \<Longrightarrow> reachable g s x \<Longrightarrow> reachable g s y"
  by (induction rule: reachable.induct) (auto intro: reachable.step)

lemma reachable_closed:
  assumes "reachable g s x" "s \<in> A" "\<And>v e y. v \<in> A \<Longrightarrow> graph_edge g v e y \<Longrightarrow> y \<in> A"
  shows "x \<in> A"
  using assms(1) by induction (use assms(2,3) in blast)+

lemma reachable_in_all_states:
  assumes "reachable g (initial g) x" shows "x |\<in>| all_states g"
  using assms
  by (rule reachable_closed) (auto simp: graph_edge_def fset_all_states)

subsection \<open>The out-edges read through the index\<close>

definition out_edges :: "('s, 'e) TransitionGraph \<Rightarrow> nat list \<Rightarrow> ('e \<times> 's) list" where
  "out_edges g is =
     concat (map (\<lambda>i. map (Pair (t_event (transitions g ! i))) (t_to (transitions g ! i))) is)"

lemma out_edges_simps [simp]:
  "out_edges g [] = []"
  "out_edges g (i # is) =
     map (Pair (t_event (transitions g ! i))) (t_to (transitions g ! i)) @ out_edges g is"
  by (simp_all add: out_edges_def)

lemma set_out_edges:
  assumes "graph_inv g"
  shows "set (out_edges g (index_list (index g) s)) = {(e, x). graph_edge g s e x}"
proof -
  have "index_list (index g) s = positions (transitions g) s"
    using assms by (simp add: index_list_def index_lookup)
  moreover have "t \<in> set (transitions g) \<longleftrightarrow> (\<exists>i<length (transitions g). transitions g ! i = t)" for t
    by (auto simp: in_set_conv_nth)
  ultimately show ?thesis
    by (fastforce simp: out_edges_def graph_edge_def positions_mem)
qed

definition index_targets :: "('s, 'e) TransitionGraph \<Rightarrow> 's set" where
  "index_targets g =
     (\<Union>s\<in>fmdom' (index g). snd ` set (out_edges g (index_list (index g) s)))"

lemma finite_index_targets [simp]: "finite (index_targets g)"
  by (simp add: index_targets_def)

lemma out_edges_index_targets:
  "fmlookup (index g) s = Some is \<Longrightarrow> snd ` set (out_edges g is) \<subseteq> index_targets g"
  unfolding index_targets_def
  by (rule UN_upper [where a = s and B = "\<lambda>s. snd ` set (out_edges g (index_list (index g) s))", THEN subset_trans [rotated]])
     (auto simp: index_list_def intro: fmdom'I)

subsection \<open>reachable_from\<close>

text \<open>The inner loops: push the targets not yet visited.\<close>

fun rf_targets :: "'s fset \<Rightarrow> 's list \<Rightarrow> 's list \<Rightarrow> 's list" where
  "rf_targets vis [] q = q"
| "rf_targets vis (x # xs) q = rf_targets vis xs (if x |\<notin>| vis then q @ [x] else q)"

fun rf_indices :: "('s, 'e) TransitionGraph \<Rightarrow> 's fset \<Rightarrow> nat list \<Rightarrow> 's list \<Rightarrow> 's list" where
  "rf_indices g vis [] q = q"
| "rf_indices g vis (i # is) q = rf_indices g vis is (rf_targets vis (t_to (transitions g ! i)) q)"

lemma rf_targets_eq: "rf_targets vis xs q = q @ filter (\<lambda>x. x |\<notin>| vis) xs"
  by (induction xs arbitrary: q) auto

lemma rf_indices_eq:
  "rf_indices g vis is q = q @ filter (\<lambda>x. x |\<notin>| vis) (map snd (out_edges g is))"
  by (induction "is" arbitrary: q) (auto simp: rf_targets_eq o_def)

text \<open>
  The outer loop. A popped state that is new and has an index entry leaves fewer keys of the
  index unvisited; any other turn only shortens the queue.
\<close>

function rf_loop :: "('s, 'e) TransitionGraph \<Rightarrow> 's fset \<Rightarrow> 's list \<Rightarrow> 's fset" where
  "rf_loop g vis [] = vis"
| "rf_loop g vis (cur # q) =
     (if cur |\<in>| vis then rf_loop g vis q
      else (case fmlookup (index g) cur of
              None \<Rightarrow> rf_loop g (finsert cur vis) q
            | Some is \<Rightarrow> rf_loop g (finsert cur vis) (rf_indices g (finsert cur vis) is q)))"
  by pat_completeness auto

lemma unvisited_keys_decrease:
  assumes "x |\<notin>| vis" "fmlookup m x = Some y"
  shows "fcard (fmdom m |-| finsert x vis) < fcard (fmdom m |-| vis)"
  using assms by (intro pfsubset_fcard_mono) (auto dest: fmdomI)

lemma unvisited_keys_keep:
  assumes "fmlookup m x = None"
  shows "fmdom m |-| finsert x vis = fmdom m |-| vis"
  using assms by (auto dest: fmdom_notI)

termination rf_loop
  by (relation "measures [\<lambda>(g, vis, q). fcard (fmdom (index g) |-| vis), \<lambda>(g, vis, q). length q]")
     (auto simp: unvisited_keys_decrease unvisited_keys_keep)

definition reachable_from :: "('s, 'e) TransitionGraph \<Rightarrow> 's \<Rightarrow> 's fset" where
  "reachable_from g s = rf_loop g {||} [s]"

lemma rf_loop_visit:
  assumes "cur |\<notin>| vis"
  shows "rf_loop g vis (cur # q) = rf_loop g (finsert cur vis)
    (q @ filter (\<lambda>x. x |\<notin>| finsert cur vis) (map snd (out_edges g (index_list (index g) cur))))"
  using assms by (simp add: rf_indices_eq index_list_def split: option.split)

text \<open>An induction rule for the loop that reads the edges and not the index entries.\<close>

lemma rf_loop_induct [case_names Done Skip Visit]:
  assumes "\<And>vis. P vis []"
    and "\<And>vis cur q. cur |\<in>| vis \<Longrightarrow> P vis q \<Longrightarrow> P vis (cur # q)"
    and "\<And>vis cur q. cur |\<notin>| vis \<Longrightarrow>
      P (finsert cur vis) (q @ filter (\<lambda>x. x |\<notin>| finsert cur vis)
        (map snd (out_edges g (index_list (index g) cur)))) \<Longrightarrow> P vis (cur # q)"
  shows "P vis q"
  using assms
proof (induction g vis q rule: rf_loop.induct)
  case (2 g vis cur q)
  show ?case
  proof (cases "cur |\<in>| vis")
    case True
    with 2 show ?thesis by blast
  next
    case False
    have "P (finsert cur vis) (q @ filter (\<lambda>x. x |\<notin>| finsert cur vis)
        (map snd (out_edges g (index_list (index g) cur))))"
    proof (cases "fmlookup (index g) cur")
      case None
      then have "P (finsert cur vis) q" using "2.IH"(2) [OF False None] "2.prems" by blast
      with None show ?thesis by (simp add: index_list_def)
    next
      case (Some ixs)
      then have "P (finsert cur vis) (rf_indices g (finsert cur vis) ixs q)"
        using "2.IH"(3) [OF False Some] "2.prems" by blast
      with Some show ?thesis by (simp add: index_list_def rf_indices_eq)
    qed
    with False "2.prems" show ?thesis by blast
  qed
qed blast

lemma rf_loop_extends: "fset vis \<union> set q \<subseteq> fset (rf_loop g vis q)"
proof (induction vis q rule: rf_loop_induct [where g = g])
  case (Visit vis cur q)
  then show ?case by (simp add: rf_loop_visit del: rf_loop.simps(2))
qed auto

lemma rf_loop_sound:
  assumes "graph_inv g"
  shows "x |\<in>| rf_loop g vis q \<Longrightarrow> x |\<in>| vis \<or> (\<exists>y\<in>set q. reachable g y x)"
proof (induction vis q rule: rf_loop_induct [where g = g])
  case (Visit vis cur q)
  have "reachable g cur x" if "(e, y) \<in> set (out_edges g (index_list (index g) cur))" "reachable g y x" for e y
  proof -
    have "graph_edge g cur e y" using that(1) assms by (simp add: set_out_edges)
    then have "reachable g cur y" by (auto intro: reachable.intros)
    with that(2) show ?thesis by (rule reachable_trans)
  qed
  with Visit show ?case
    by (fastforce simp: rf_loop_visit simp del: rf_loop.simps(2) intro: reachable.start)
qed auto

lemma rf_loop_closed:
  assumes "graph_inv g"
    and "\<And>v e y. v |\<in>| vis \<Longrightarrow> graph_edge g v e y \<Longrightarrow> y |\<in>| vis \<or> y \<in> set q"
    and "v |\<in>| rf_loop g vis q" "graph_edge g v e y"
  shows "y |\<in>| rf_loop g vis q"
  using assms(2-4)
proof (induction vis q rule: rf_loop_induct [where g = g])
  case (Skip vis cur q)
  then show ?case by (auto simp del: rf_loop.simps(2) simp: rf_loop.simps(2) [of g vis cur q])
next
  case (Visit vis cur q)
  have edges: "y \<in> snd ` set (out_edges g (index_list (index g) cur))"
    if "graph_edge g cur e y" for e y
    using that assms(1) by (force simp: set_out_edges)
  show ?case
    unfolding rf_loop_visit [OF Visit.hyps]
  proof (rule Visit.IH)
    show "v |\<in>| rf_loop g (finsert cur vis) (q @ filter (\<lambda>x. x |\<notin>| finsert cur vis)
        (map snd (out_edges g (index_list (index g) cur))))"
      using Visit.prems(2) by (simp only: rf_loop_visit [OF Visit.hyps])
  next
    fix v e y
    assume "v |\<in>| finsert cur vis" "graph_edge g v e y"
    then show "y |\<in>| finsert cur vis \<or> y \<in> set (q @ filter (\<lambda>x. x |\<notin>| finsert cur vis)
        (map snd (out_edges g (index_list (index g) cur))))"
      using Visit.prems(1) [of v e y] edges [of e y] by auto
  qed (rule Visit.prems(3))
qed auto

lemma reachable_from_iff:
  assumes "graph_inv g"
  shows "x |\<in>| reachable_from g s \<longleftrightarrow> reachable g s x"
proof
  assume "x |\<in>| reachable_from g s"
  then show "reachable g s x"
    using rf_loop_sound [OF assms, of x "{||}" "[s]"] by (simp add: reachable_from_def)
next
  assume "reachable g s x"
  then show "x |\<in>| reachable_from g s"
  proof (rule reachable_closed)
    show "s \<in> fset (reachable_from g s)"
      using rf_loop_extends [of "{||}" "[s]" g] by (simp add: reachable_from_def)
  next
    fix v e y
    assume v: "v \<in> fset (reachable_from g s)" "graph_edge g v e y"
    have "v' |\<in>| {||} \<Longrightarrow> graph_edge g v' e' y' \<Longrightarrow> y' |\<in>| {||} \<or> y' \<in> set [s]" for v' e' y'
      by simp
    from rf_loop_closed [OF assms this] v show "y \<in> fset (reachable_from g s)"
      unfolding reachable_from_def by blast
  qed
qed

subsection \<open>validate\<close>

text \<open>The loop over the states of the graph, in the order of the \<open>BTreeSet\<close>.\<close>

fun unreachable_errors ::
    "('s \<Rightarrow> string) \<Rightarrow> 's \<Rightarrow> 's fset \<Rightarrow> 's list \<Rightarrow> ValidationError list \<Rightarrow> ValidationError list" where
  "unreachable_errors dbg ini reached [] errs = errs"
| "unreachable_errors dbg ini reached (s # ss) errs =
     unreachable_errors dbg ini reached ss
       (if s \<noteq> ini \<and> s |\<notin>| reached then errs @ [UnreachableState (dbg s)] else errs)"

definition validate ::
    "('s::linorder \<Rightarrow> string) \<Rightarrow> ('s, 'e) TransitionGraph \<Rightarrow> ValidationError list + unit" where
  "validate dbg g =
     (let errors = (if finals g = {||} then [NoFinalState] else []);
          reached = reachable_from g (initial g);
          errors = unreachable_errors dbg (initial g) reached
                     (sorted_list_of_fset (all_states g)) errors
      in if errors = [] then Inr () else Inl errors)"

lemma unreachable_errors_eq:
  "unreachable_errors dbg ini reached ss errs =
     errs @ map (\<lambda>s. UnreachableState (dbg s)) (filter (\<lambda>s. s \<noteq> ini \<and> s |\<notin>| reached) ss)"
  by (induction ss arbitrary: errs) auto

lemma validate_report:
  assumes "graph_inv g"
  shows "validate dbg g =
    (let errors = (if finals g = {||} then [NoFinalState] else []) @
       map (\<lambda>s. UnreachableState (dbg s))
         (filter (\<lambda>s. \<not> reachable g (initial g) s) (sorted_list_of_fset (all_states g)))
     in if errors = [] then Inr () else Inl errors)"
proof -
  have "filter (\<lambda>s. s \<noteq> initial g \<and> s |\<notin>| reachable_from g (initial g)) ss
      = filter (\<lambda>s. \<not> reachable g (initial g) s) ss" for ss
    by (rule filter_cong) (auto simp: reachable_from_iff [OF assms] intro: reachable.start)
  then show ?thesis
    by (simp add: validate_def unreachable_errors_eq Let_def)
qed

lemma validate_ok_iff:
  assumes "graph_inv g"
  shows "validate dbg g = Inr () \<longleftrightarrow>
    finals g \<noteq> {||} \<and> (\<forall>s. s |\<in>| all_states g \<longrightarrow> reachable g (initial g) s)"
  by (auto simp: validate_report [OF assms] Let_def filter_empty_conv)

subsection \<open>shortest_path\<close>

text \<open>
  The loop over the targets of one transition, then over the transitions of one state. A loop
  that meets the searched state returns from the function (\<open>Inl\<close>), else it hands on the visited
  set and the queue (\<open>Inr\<close>).
\<close>

type_synonym ('s, 'e) sp_queue = "('s \<times> ('e \<times> 's) list) list"

fun sp_targets :: "'s \<Rightarrow> ('e \<times> 's) list \<Rightarrow> 'e \<Rightarrow> 's list \<Rightarrow> 's fset \<Rightarrow> ('s, 'e) sp_queue \<Rightarrow>
    ('e \<times> 's) list + 's fset \<times> ('s, 'e) sp_queue" where
  "sp_targets tgt path ev [] vis q = Inr (vis, q)"
| "sp_targets tgt path ev (x # xs) vis q =
     (if x = tgt then Inl (path @ [(ev, x)])
      else if x |\<notin>| vis then sp_targets tgt path ev xs (finsert x vis) (q @ [(x, path @ [(ev, x)])])
      else sp_targets tgt path ev xs vis q)"

fun sp_indices :: "('s, 'e) TransitionGraph \<Rightarrow> 's \<Rightarrow> ('e \<times> 's) list \<Rightarrow> nat list \<Rightarrow> 's fset \<Rightarrow>
    ('s, 'e) sp_queue \<Rightarrow> ('e \<times> 's) list + 's fset \<times> ('s, 'e) sp_queue" where
  "sp_indices g tgt path [] vis q = Inr (vis, q)"
| "sp_indices g tgt path (i # is) vis q =
     (let t = transitions g ! i in
      case sp_targets tgt path (t_event t) (t_to t) vis q of
        Inl r \<Rightarrow> Inl r
      | Inr (vis', q') \<Rightarrow> sp_indices g tgt path is vis' q')"

text \<open>The two loops as one loop over the out-edges, for the proofs.\<close>

fun sp_edges :: "'s \<Rightarrow> ('e \<times> 's) list \<Rightarrow> ('e \<times> 's) list \<Rightarrow> 's fset \<Rightarrow> ('s, 'e) sp_queue \<Rightarrow>
    ('e \<times> 's) list + 's fset \<times> ('s, 'e) sp_queue" where
  "sp_edges tgt path [] vis q = Inr (vis, q)"
| "sp_edges tgt path ((ev, x) # es) vis q =
     (if x = tgt then Inl (path @ [(ev, x)])
      else if x |\<notin>| vis then sp_edges tgt path es (finsert x vis) (q @ [(x, path @ [(ev, x)])])
      else sp_edges tgt path es vis q)"

lemma sp_edges_append:
  "sp_edges tgt path (es @ es') vis q =
     (case sp_edges tgt path es vis q of Inl r \<Rightarrow> Inl r | Inr (v, q') \<Rightarrow> sp_edges tgt path es' v q')"
  by (induction tgt path es vis q rule: sp_edges.induct) auto

lemma sp_targets_edges: "sp_targets tgt path ev xs vis q = sp_edges tgt path (map (Pair ev) xs) vis q"
  by (induction xs arbitrary: vis q) auto

lemma sp_indices_edges: "sp_indices g tgt path is vis q = sp_edges tgt path (out_edges g is) vis q"
  by (induction "is" arbitrary: vis q)
     (auto simp: Let_def sp_targets_edges sp_edges_append split: sum.splits)

text \<open>What one pass over the edges does: it meets the searched state, or it extends the queue
  by exactly the targets that were not visited.\<close>

lemma sp_edges_Inl:
  "sp_edges tgt path es vis q = Inl r \<Longrightarrow> \<exists>e. (e, tgt) \<in> set es \<and> r = path @ [(e, tgt)]"
  by (induction tgt path es vis q rule: sp_edges.induct) (auto split: if_splits)

lemma sp_edges_Inr:
  "sp_edges tgt path es vis q = Inr (vis', q') \<Longrightarrow>
     tgt \<notin> snd ` set es \<and> fset vis' = fset vis \<union> snd ` set es \<and>
     (\<exists>new. q' = q @ new \<and> fst ` set new = snd ` set es - fset vis \<and>
        (\<forall>(v, p)\<in>set new. \<exists>e. (e, v) \<in> set es \<and> p = path @ [(e, v)]))"
proof (induction es arbitrary: vis q)
  case (Cons ex es)
  obtain ev x where ex: "ex = (ev, x)" by fastforce
  with Cons.prems have "x \<noteq> tgt" by auto
  show ?case
  proof (cases "x |\<in>| vis")
    case True
    with Cons.prems ex \<open>x \<noteq> tgt\<close> have "sp_edges tgt path es vis q = Inr (vis', q')" by simp
    from Cons.IH [OF this] True ex \<open>x \<noteq> tgt\<close> show ?thesis by (auto; fastforce)
  next
    case False
    with Cons.prems ex \<open>x \<noteq> tgt\<close>
    have "sp_edges tgt path es (finsert x vis) (q @ [(x, path @ [(ev, x)])]) = Inr (vis', q')" by simp
    from Cons.IH [OF this] obtain new where
      IH: "tgt \<notin> snd ` set es" "fset vis' = insert x (fset vis) \<union> snd ` set es"
        "q' = (q @ [(x, path @ [(ev, x)])]) @ new" "fst ` set new = snd ` set es - insert x (fset vis)"
        "\<forall>(v, p)\<in>set new. \<exists>e. (e, v) \<in> set es \<and> p = path @ [(e, v)]"
      by auto
    let ?new = "(x, path @ [(ev, x)]) # new"
    have "q' = q @ ?new \<and> fst ` set ?new = snd ` set (ex # es) - fset vis \<and>
        (\<forall>(v, p)\<in>set ?new. \<exists>e. (e, v) \<in> set (ex # es) \<and> p = path @ [(e, v)])"
      using IH ex False by auto
    with IH ex \<open>x \<noteq> tgt\<close> show ?thesis by (auto intro!: exI [of _ ?new])
  qed
qed simp

text \<open>Every target that enters the queue leaves the unvisited ones, so their sum does not grow.\<close>

lemma sp_edges_measure:
  assumes "finite U"
  shows "sp_edges tgt path es vis q = Inr (vis', q') \<Longrightarrow> snd ` set es \<subseteq> U \<Longrightarrow>
    card (U - fset vis') + length q' \<le> card (U - fset vis) + length q"
proof (induction tgt path es vis q rule: sp_edges.induct)
  case (2 tgt path ev x es vis q)
  show ?case
  proof (cases "x \<noteq> tgt \<and> x |\<notin>| vis")
    case True
    then have "x \<in> U - fset vis" using "2.prems" by auto
    moreover have "U - fset (finsert x vis) = (U - fset vis) - {x}" by auto
    ultimately have "card (U - fset vis) = Suc (card (U - fset (finsert x vis)))"
      using assms by (simp only: card.remove [of "U - fset vis" x] finite_Diff)
    with True 2 show ?thesis by simp
  next
    case False
    with 2 show ?thesis by (auto split: if_splits)
  qed
qed simp

lemma sp_indices_measure:
  assumes "fmlookup (index g) cur = Some is" "sp_indices g tgt path is vis q = Inr (vis', q')"
  shows "card (index_targets g - fset vis') + length q' \<le> card (index_targets g - fset vis) + length q"
  using sp_edges_measure [OF finite_index_targets, of tgt path "out_edges g is" vis q vis' q' g]
    out_edges_index_targets [OF assms(1)] assms(2)
  by (simp add: sp_indices_edges)

function sp_loop :: "('s, 'e) TransitionGraph \<Rightarrow> 's \<Rightarrow> 's fset \<Rightarrow> ('s, 'e) sp_queue \<Rightarrow>
    ('e \<times> 's) list option" where
  "sp_loop g tgt vis [] = None"
| "sp_loop g tgt vis ((cur, path) # q) =
     (case fmlookup (index g) cur of
        None \<Rightarrow> sp_loop g tgt vis q
      | Some is \<Rightarrow>
          (case sp_indices g tgt path is vis q of
             Inl r \<Rightarrow> Some r
           | Inr (vis', q') \<Rightarrow> sp_loop g tgt vis' q'))"
  by pat_completeness auto

termination sp_loop
  by (relation "measure (\<lambda>(g, tgt, vis, q). card (index_targets g - fset vis) + length q)")
     (auto simp: less_Suc_eq_le intro: sp_indices_measure)

definition shortest_path ::
    "('s, 'e) TransitionGraph \<Rightarrow> 's \<Rightarrow> 's \<Rightarrow> ('e \<times> 's) list option" where
  "shortest_path g frm tgt =
     (if frm = tgt then Some [] else sp_loop g tgt {|frm|} [(frm, [])])"

lemma sp_loop_step:
  "sp_loop g tgt vis ((cur, path) # q) =
     (case sp_edges tgt path (out_edges g (index_list (index g) cur)) vis q of
        Inl r \<Rightarrow> Some r | Inr (vis', q') \<Rightarrow> sp_loop g tgt vis' q')"
  by (simp add: sp_indices_edges index_list_def split: option.split)

subsection \<open>The breadth-first invariant\<close>

text \<open>
  The queue holds shortest paths in non-decreasing length, over at most two lengths; a visited
  state is still queued or all its successors are visited; and every state at most as far away
  as the head of the queue is visited.
\<close>

definition shortest_to :: "('s, 'e) TransitionGraph \<Rightarrow> 's \<Rightarrow> ('e \<times> 's) list \<Rightarrow> 's \<Rightarrow> bool" where
  "shortest_to g s p x \<longleftrightarrow> graph_path g s p x \<and> (\<forall>p'. graph_path g s p' x \<longrightarrow> length p \<le> length p')"

definition sp_inv :: "('s, 'e) TransitionGraph \<Rightarrow> 's \<Rightarrow> 's \<Rightarrow> 's fset \<Rightarrow> ('s, 'e) sp_queue \<Rightarrow> bool" where
  "sp_inv g s tgt vis q \<longleftrightarrow>
     tgt |\<notin>| vis \<and> s |\<in>| vis \<and>
     (\<forall>(v, p)\<in>set q. v |\<in>| vis \<and> shortest_to g s p v \<and> length p \<le> Suc (length (snd (hd q)))) \<and>
     sorted (map (length \<circ> snd) q) \<and>
     (\<forall>v. v |\<in>| vis \<longrightarrow> v \<in> fst ` set q \<or> (\<forall>e x. graph_edge g v e x \<longrightarrow> x |\<in>| vis)) \<and>
     (q \<noteq> [] \<longrightarrow> (\<forall>x p. graph_path g s p x \<longrightarrow> length p \<le> length (snd (hd q)) \<longrightarrow> x |\<in>| vis))"

lemma sp_inv_init: "s \<noteq> tgt \<Longrightarrow> sp_inv g s tgt {|s|} [(s, [])]"
  by (auto simp: sp_inv_def shortest_to_def)

lemma sp_inv_step:
  assumes inv: "sp_inv g s tgt vis ((cur, path) # q)"
    and edges: "set es = {(e, x). graph_edge g cur e x}"
    and run: "sp_edges tgt path es vis q = Inr (vis', q')"
  shows "sp_inv g s tgt vis' q'"
proof -
  let ?n = "length path"
  from sp_edges_Inr [OF run] obtain new where
    tgt: "tgt \<notin> snd ` set es" and vis': "fset vis' = fset vis \<union> snd ` set es" and
    q': "q' = q @ new" and newv: "fst ` set new = snd ` set es - fset vis" and
    newp: "\<forall>(v, p)\<in>set new. \<exists>e. (e, v) \<in> set es \<and> p = path @ [(e, v)]"
    by (elim conjE exE)
  note inv' = inv [unfolded sp_inv_def]
  have tv: "tgt |\<notin>| vis" "s |\<in>| vis" and cur: "graph_path g s path cur"
    using inv' by (auto simp: shortest_to_def)
  have srt: "sorted (map (length \<circ> snd) q)" and le: "\<forall>y\<in>set q. ?n \<le> length (snd y)"
    using inv' by auto
  have qq: "v |\<in>| vis \<and> shortest_to g s p v \<and> ?n \<le> length p \<and> length p \<le> Suc ?n"
    if "(v, p) \<in> set q" for v p
    using inv' le that by auto
  have cl: "v = cur \<or> v \<in> fst ` set q \<or> (\<forall>e x. graph_edge g v e x \<longrightarrow> x |\<in>| vis)" if "v |\<in>| vis" for v
    using inv' that by auto
  have near: "x |\<in>| vis" if "graph_path g s p x" "length p \<le> ?n" for x p
    using inv' that by auto
  have new: "v |\<in>| vis' \<and> shortest_to g s p v \<and> length p = Suc ?n" if "(v, p) \<in> set new" for v p
  proof -
    from bspec [OF newp that] obtain e where e: "(e, v) \<in> set es" "p = path @ [(e, v)]" by auto
    have "v |\<notin>| vis" using that newv by force
    then have "Suc ?n \<le> length p'" if "graph_path g s p' v" for p'
      using near [OF that] by (meson not_less_eq_eq)
    moreover have "graph_path g s p v" using e cur edges by (auto simp: graph_path_snoc)
    ultimately show ?thesis using e vis' by (force simp: shortest_to_def)
  qed
  have hd': "?n \<le> length (snd (hd q')) \<and> length (snd (hd q')) \<le> Suc ?n" if "q' \<noteq> []"
  proof -
    have "hd q' \<in> set q \<union> set new" using that q' by (metis hd_in_set set_append)
    then show ?thesis using qq [of "fst (hd q')" "snd (hd q')"] new [of "fst (hd q')" "snd (hd q')"]
      by auto
  qed
  have A: "v |\<in>| vis' \<and> shortest_to g s p v \<and> length p \<le> Suc (length (snd (hd q')))"
    if "(v, p) \<in> set q'" for v p
    using that qq [of v p] new [of v p] hd' vis' unfolding q' by fastforce
  have B: "sorted (map (length \<circ> snd) q')"
  proof -
    have "length (snd x) = Suc ?n" if "x \<in> set new" for x
      using new [of "fst x" "snd x"] that by simp
    then have "map (length \<circ> snd) new = replicate (length new) (Suc ?n)"
      by (simp add: map_eq_conv [THEN iffD2] map_replicate_const [symmetric])
    moreover have "length (snd x) \<le> Suc ?n" if "x \<in> set q" for x
      using qq [of "fst x" "snd x"] that by simp
    ultimately show ?thesis
      using srt by (simp add: q' sorted_append)
  qed
  have C: "v \<in> fst ` set q' \<or> (\<forall>e x. graph_edge g v e x \<longrightarrow> x |\<in>| vis')" if "v |\<in>| vis'" for v
  proof (cases "v |\<in>| vis")
    case True
    from cl [OF this] show ?thesis using edges vis' q' by force
  next
    case False
    then have "v \<in> fst ` set new" using that vis' newv by auto
    then show ?thesis using q' by auto
  qed
  have D: "x |\<in>| vis'" if ne: "q' \<noteq> []" and p: "graph_path g s p x" "length p \<le> length (snd (hd q'))" for x p
  proof (cases "length p \<le> ?n")
    case True
    with near p vis' show ?thesis by blast
  next
    case False
    with p hd' [OF ne] have len: "length p = Suc ?n" "length (snd (hd q')) = Suc ?n" by auto
    obtain p' e y where p': "p = p' @ [(e, x)]" "length p' = ?n" "graph_path g s p' y" "graph_edge g y e x"
      using graph_path_snocE [OF p(1) len(1)] .
    have y: "y |\<in>| vis" using near [OF p'(3)] p'(2) by simp
    have "y \<notin> fst ` set q"
    proof
      assume "y \<in> fst ` set q"
      then obtain py where py: "(y, py) \<in> set q" by force
      then have "length (snd (hd q')) \<le> length py"
        using srt q' by (cases q) auto
      moreover have "length py \<le> ?n" using qq [OF py] p' by (auto simp: shortest_to_def)
      ultimately show False using len by simp
    qed
    with cl [OF y] p'(4) edges vis' show ?thesis by force
  qed
  show ?thesis
    unfolding sp_inv_def using tv tgt vis' A B C D by auto
qed

lemma sp_loop_correct:
  assumes "graph_inv g" "sp_inv g s tgt vis q"
  shows "case sp_loop g tgt vis q of
      None \<Rightarrow> \<not> reachable g s tgt | Some p \<Rightarrow> shortest_to g s p tgt"
  using assms
proof (induction g tgt vis q rule: sp_loop.induct)
  case (1 g tgt vis)
  have "tgt |\<in>| vis" if "reachable g s tgt"
    using that
  proof (rule reachable_closed)
    show "s \<in> fset vis" using 1 by (simp add: sp_inv_def)
    show "y \<in> fset vis" if "v \<in> fset vis" "graph_edge g v e y" for v e y
      using that 1 by (simp add: sp_inv_def)
  qed
  with 1 show ?case by (auto simp: sp_inv_def)
next
  case (2 g tgt vis cur path q)
  let ?es = "out_edges g (index_list (index g) cur)"
  have es: "set ?es = {(e, x). graph_edge g cur e x}"
    by (rule set_out_edges [OF "2.prems"(1)])
  show ?case
  proof (cases "sp_edges tgt path ?es vis q")
    case (Inl r)
    from sp_edges_Inl [OF this] obtain e where e: "(e, tgt) \<in> set ?es" "r = path @ [(e, tgt)]"
      by (elim exE conjE)
    have "graph_path g s path cur" and "tgt |\<notin>| vis"
      and near: "\<And>p. graph_path g s p tgt \<Longrightarrow> length p \<le> length path \<Longrightarrow> tgt |\<in>| vis"
      using "2.prems"(2) by (auto simp: sp_inv_def shortest_to_def)
    then have "shortest_to g s r tgt"
      using e es by (force simp: shortest_to_def graph_path_snoc not_less_eq_eq [symmetric])
    with Inl show ?thesis by (simp add: sp_loop_step del: sp_loop.simps(2))
  next
    case (Inr vq)
    then obtain vis' q' where run: "sp_edges tgt path ?es vis q = Inr (vis', q')" by (cases vq) auto
    have inv: "sp_inv g s tgt vis' q'"
      by (rule sp_inv_step [OF "2.prems"(2) es run])
    have "case sp_loop g tgt vis' q' of None \<Rightarrow> \<not> reachable g s tgt | Some p \<Rightarrow> shortest_to g s p tgt"
    proof (cases "fmlookup (index g) cur")
      case None
      with run have "vis' = vis" "q' = q" by (auto simp: index_list_def)
      with "2.IH"(1) [OF None "2.prems"(1)] inv show ?thesis by simp
    next
      case (Some ixs)
      with run have "sp_indices g tgt path ixs vis q = Inr (vis', q')"
        by (simp add: sp_indices_edges index_list_def)
      from "2.IH"(2) [OF Some this refl "2.prems"(1) inv] show ?thesis .
    qed
    with run show ?thesis by (simp add: sp_loop_step del: sp_loop.simps(2))
  qed
qed

lemma shortest_path_correct:
  assumes "graph_inv g"
  shows "case shortest_path g s tgt of
      None \<Rightarrow> \<not> reachable g s tgt | Some p \<Rightarrow> shortest_to g s p tgt"
proof (cases "s = tgt")
  case True
  then show ?thesis by (simp add: shortest_path_def shortest_to_def)
next
  case False
  with sp_loop_correct [OF assms sp_inv_init [OF False]] show ?thesis
    by (simp add: shortest_path_def)
qed

end
