(* ===== verification/Fsm_State.thy ===== *)
theory Fsm_State
  imports Fsm_Errors
begin

section \<open>The runtime state of an FSM (finitomata/src/state.rs)\<close>

text \<open>
  The lifecycle, the bounded history that collapses consecutive repeats, and the state record
  the engine updates. The history is compared with the run-length encoding of all the states
  ever pushed: it holds the last runs of it.
\<close>

datatype Lifecycle = Created | Loaded | Running | Terminating | Terminated

subsection \<open>BoundedHistory\<close>

text \<open>\<open>count\<close> is a \<open>usize\<close>, incremented without a check: a 64-bit word (release arithmetic).\<close>

record 's HistoryEntry =
  he_state :: 's
  he_count :: usize

record 's BoundedHistory =
  entries :: "'s HistoryEntry list"
  max_size :: nat

definition BoundedHistory_new :: "nat \<Rightarrow> 's BoundedHistory" where
  "BoundedHistory_new n = \<lparr>entries = [], max_size = n\<rparr>"

definition BoundedHistory_push :: "'s BoundedHistory \<Rightarrow> 's \<Rightarrow> 's BoundedHistory" where
  "BoundedHistory_push h s =
     (if entries h \<noteq> [] \<and> he_state (last (entries h)) = s
      then let e = last (entries h)
           in h\<lparr>entries := butlast (entries h) @ [e\<lparr>he_count := he_count e + 1\<rparr>]\<rparr>
      else let es = (if max_size h \<le> length (entries h) then tl (entries h) else entries h)
           in h\<lparr>entries := es @ [\<lparr>he_state = s, he_count = 1\<rparr>]\<rparr>)"

definition BoundedHistory_entries :: "'s BoundedHistory \<Rightarrow> 's HistoryEntry list" where
  "BoundedHistory_entries h = entries h"

definition BoundedHistory_last :: "'s BoundedHistory \<Rightarrow> 's HistoryEntry option" where
  "BoundedHistory_last h = (if entries h = [] then None else Some (last (entries h)))"

definition BoundedHistory_len :: "'s BoundedHistory \<Rightarrow> nat" where
  "BoundedHistory_len h = length (entries h)"

definition BoundedHistory_is_empty :: "'s BoundedHistory \<Rightarrow> bool" where
  "BoundedHistory_is_empty h = (entries h = [])"

subsection \<open>FsmState\<close>

record ('s, 'p) FsmState =
  name :: string
  current :: 's
  payload :: 'p
  history :: "'s BoundedHistory"
  lifecycle :: Lifecycle
  last_error :: "FinitomataError option"

definition FsmState_new :: "string \<Rightarrow> 's \<Rightarrow> 'p \<Rightarrow> ('s, 'p) FsmState" where
  "FsmState_new nm ini p =
     \<lparr>name = nm, current = ini, payload = p,
      history = BoundedHistory_push (BoundedHistory_new 32) ini,
      lifecycle = Created, last_error = None\<rparr>"

definition transition_to :: "('s, 'p) FsmState \<Rightarrow> 's \<Rightarrow> ('s, 'p) FsmState" where
  "transition_to st s = st\<lparr>current := s, history := BoundedHistory_push (history st) s\<rparr>"

definition set_payload :: "('s, 'p) FsmState \<Rightarrow> 'p \<Rightarrow> ('s, 'p) FsmState" where
  "set_payload st p = st\<lparr>payload := p\<rparr>"

definition set_error :: "('s, 'p) FsmState \<Rightarrow> FinitomataError \<Rightarrow> ('s, 'p) FsmState" where
  "set_error st e = st\<lparr>last_error := Some e\<rparr>"

definition clear_error :: "('s, 'p) FsmState \<Rightarrow> ('s, 'p) FsmState" where
  "clear_error st = st\<lparr>last_error := None\<rparr>"

lemma FsmState_eqI:
  assumes "name a = name b" "current a = current b" "payload a = payload b" "history a = history b"
    "lifecycle a = lifecycle b" "last_error a = last_error b"
  shows "(a :: ('s, 'p) FsmState) = b"
  using assms by (intro FsmState.equality) simp_all

subsection \<open>Runs: the run-length encoding of a sequence of states\<close>

fun runs :: "'a list \<Rightarrow> ('a \<times> nat) list" where
  "runs [] = []"
| "runs (x # xs) =
     (case runs xs of
        [] \<Rightarrow> [(x, 1)]
      | (y, n) # r \<Rightarrow> if x = y then (y, Suc n) # r else (x, 1) # (y, n) # r)"

lemma runs_eq_Nil [simp]: "runs xs = [] \<longleftrightarrow> xs = []"
  by (cases xs) (auto split: list.splits)

text \<open>The encoding loses nothing, and no two neighbouring runs are of the same state.\<close>

lemma runs_decode: "concat (map (\<lambda>(x, n). replicate n x) (runs xs)) = xs"
  by (induction xs) (auto split: list.splits)

lemma runs_distinct_adj: "distinct_adj (map fst (runs xs))"
  by (induction xs) (auto split: list.splits)

lemma runs_snoc:
  "runs (xs @ [x]) =
     (if xs \<noteq> [] \<and> fst (last (runs xs)) = x
      then butlast (runs xs) @ [(x, Suc (snd (last (runs xs))))] else runs xs @ [(x, 1)])"
  by (induction xs) (auto split: list.splits)

lemma fst_last_runs: "xs \<noteq> [] \<Longrightarrow> fst (last (runs xs)) = last xs"
  by (induction xs rule: rev_induct) (auto simp: runs_snoc)

subsection \<open>The history holds the last runs\<close>

definition run_entry :: "'s \<times> nat \<Rightarrow> 's HistoryEntry" where
  "run_entry r = \<lparr>he_state = fst r, he_count = of_nat (snd r)\<rparr>"

lemma run_entry_simps [simp]:
  "he_state (run_entry r) = fst r" "he_count (run_entry r) = of_nat (snd r)"
  by (simp_all add: run_entry_def)

lemma max_size_push [simp]: "max_size (BoundedHistory_push h s) = max_size h"
  by (simp add: BoundedHistory_push_def Let_def)

lemma max_size_pushes [simp]: "max_size (foldl BoundedHistory_push h xs) = max_size h"
  by (induction xs arbitrary: h) simp_all

lemma push_run_entries:
  assumes "entries h = map run_entry (take_last (max 1 (max_size h)) (runs xs))"
  shows "entries (BoundedHistory_push h x) =
    map run_entry (take_last (max 1 (max_size h)) (runs (xs @ [x])))"
proof (cases "xs \<noteq> [] \<and> fst (last (runs xs)) = x")
  case True
  let ?k = "max 1 (max_size h)"
  obtain r y n where r: "runs xs = r @ [(y, n)]"
    using True by (metis append_butlast_last_id runs_eq_Nil surj_pair)
  have "take_last ?k (runs xs) = take_last (?k - 1) r @ [(y, n)]"
    "take_last ?k (r @ [(y, Suc n)]) = take_last (?k - 1) r @ [(y, Suc n)]"
    using r by (simp_all add: take_last_snoc)
  with True r assms show ?thesis
    by (simp add: BoundedHistory_push_def runs_snoc run_entry_def)
next
  case False
  let ?k = "max 1 (max_size h)"
  have new: "runs (xs @ [x]) = runs xs @ [(x, 1)]"
    using False by (auto simp: runs_snoc)
  have last: "he_state (last (entries h)) \<noteq> x" if "entries h \<noteq> []"
    using False that assms by (auto simp: last_map last_take_last)
  have "map run_entry (take_last (?k - 1) (runs xs)) =
      (if max_size h \<le> length (entries h) then tl (entries h) else entries h)"
  proof (cases "?k \<le> length (runs xs)")
    case True
    have "take_last (?k - 1) (runs xs) = tl (take_last ?k (runs xs))"
      by (rule take_last_tl [OF True]) simp
    with True assms show ?thesis by (simp add: map_tl)
  next
    case less: False
    with assms show ?thesis by (cases "runs xs") auto
  qed
  with last show ?thesis
    by (auto simp: BoundedHistory_push_def Let_def new take_last_snoc run_entry_def)
qed

lemma pushes_run_entries:
  "entries (foldl BoundedHistory_push (BoundedHistory_new n) xs) =
     map run_entry (take_last (max 1 n) (runs xs))"
proof (induction xs rule: rev_induct)
  case Nil
  then show ?case by (simp add: BoundedHistory_new_def)
next
  case (snoc x xs)
  then show ?case
    using push_run_entries [of "foldl BoundedHistory_push (BoundedHistory_new n) xs" xs x]
    by (simp add: BoundedHistory_new_def)
qed

lemma length_push: "length (entries (BoundedHistory_push h s)) \<le> max 1 (max (max_size h) (length (entries h)))"
  by (auto simp: BoundedHistory_push_def Let_def)

subsection \<open>The state invariant\<close>

text \<open>
  What every operation keeps: the history is not empty, its last entry is the current state,
  it has at most 32 entries and no two neighbouring entries are of the same state.
\<close>

definition state_inv :: "('s, 'p) FsmState \<Rightarrow> bool" where
  "state_inv st \<longleftrightarrow>
     entries (history st) \<noteq> [] \<and> he_state (last (entries (history st))) = current st \<and>
     max_size (history st) = 32 \<and> length (entries (history st)) \<le> 32 \<and>
     distinct_adj (map he_state (entries (history st)))"

lemma push_last:
  "entries (BoundedHistory_push h s) \<noteq> [] \<and> he_state (last (entries (BoundedHistory_push h s))) = s"
  by (auto simp: BoundedHistory_push_def Let_def)

lemma distinct_adj_snoc:
  "distinct_adj (xs @ [x]) \<longleftrightarrow> distinct_adj xs \<and> (xs \<noteq> [] \<longrightarrow> last xs \<noteq> x)"
  by (induction xs rule: induct_list012) auto

lemma distinct_adj_tl: "distinct_adj xs \<Longrightarrow> distinct_adj (tl xs)"
  by (cases xs) (auto dest: distinct_adj_ConsD)

lemma push_distinct_adj:
  assumes "distinct_adj (map he_state (entries h))"
  shows "distinct_adj (map he_state (entries (BoundedHistory_push h s)))"
proof (cases "entries h \<noteq> [] \<and> he_state (last (entries h)) = s")
  case True
  then have "map he_state (entries (BoundedHistory_push h s)) = map he_state (entries h)"
    by (simp add: BoundedHistory_push_def Let_def)
       (metis append_butlast_last_id list.simps(8,9) map_append)
  with assms show ?thesis by simp
next
  case False
  let ?es = "if max_size h \<le> length (entries h) then tl (entries h) else entries h"
  have "distinct_adj (map he_state ?es)"
    using assms by (auto simp: map_tl intro: distinct_adj_tl)
  moreover have "?es \<noteq> [] \<Longrightarrow> he_state (last ?es) \<noteq> s"
    using False by (auto simp: last_tl)
  ultimately show ?thesis
    using False by (auto simp: BoundedHistory_push_def Let_def distinct_adj_snoc last_map)
qed

lemma state_inv_new: "state_inv (FsmState_new nm ini p)"
  using push_last [of "BoundedHistory_new 32" ini]
  by (auto simp: state_inv_def FsmState_new_def BoundedHistory_new_def BoundedHistory_push_def)

lemma state_inv_transition_to: "state_inv st \<Longrightarrow> state_inv (transition_to st s)"
  using push_last [of "history st" s] length_push [of "history st" s]
  by (auto simp: state_inv_def transition_to_def push_distinct_adj)

lemma state_inv_frame [simp]:
  "state_inv (st\<lparr>payload := p\<rparr>) = state_inv st"
  "state_inv (st\<lparr>lifecycle := l\<rparr>) = state_inv st"
  "state_inv (st\<lparr>last_error := e\<rparr>) = state_inv st"
  "state_inv (set_error st er) = state_inv st"
  "state_inv (clear_error st) = state_inv st"
  "state_inv (set_payload st p) = state_inv st"
  by (simp_all add: state_inv_def set_error_def clear_error_def set_payload_def)

end
