(* ===== verification/Fsm_Callbacks.thy ===== *)
theory Fsm_Callbacks
  imports Fsm_State
begin

section \<open>The user's callbacks and the listeners (callbacks.rs, listener.rs)\<close>

text \<open>
  The traits the user of the library implements are records of functions: the development is
  about every implementation of them. A method takes \<open>&mut self\<close> and \<open>&mut Payload\<close>, and may
  act on anything outside the FSM (a database, a shared counter, the terminal), so it maps the
  triple of the user's struct \<open>'f\<close>, the payload \<open>'p\<close> and the outside world \<open>'w\<close> to a new
  triple. \<open>'w\<close> also carries the interior state of the persistence backend and of the listener,
  which may share data with the callbacks. The \<open>Debug\<close> bounds of \<open>State\<close> and \<open>Event\<close> are the
  two rendering functions of the record.
\<close>

datatype ('s, 'p) TransitionResult =
    Ok 's
  | OkWithPayload 's 'p
  | Error FinitomataError

type_synonym ('f, 'p, 'w) hook = "'f \<times> 'p \<times> 'w \<Rightarrow> 'f \<times> 'p \<times> 'w"

record ('f, 'w, 's, 'e, 'p) Finitomata =
  on_transition :: "'s \<Rightarrow> 'e \<Rightarrow> 'p \<Rightarrow> 'f \<times> 'p \<times> 'w \<Rightarrow> ('s, 'p) TransitionResult \<times> 'f \<times> 'p \<times> 'w"
  on_start :: "('f, 'p, 'w) hook"
  on_enter :: "'s \<Rightarrow> ('f, 'p, 'w) hook"
  on_exit :: "'s \<Rightarrow> ('f, 'p, 'w) hook"
  on_failure :: "'e \<Rightarrow> FinitomataError \<Rightarrow> ('f, 'p, 'w) hook"
  on_timer :: "'s \<Rightarrow> 'f \<times> 'p \<times> 'w \<Rightarrow> ('e \<times> 'p) option \<times> 'f \<times> 'p \<times> 'w"
  on_terminate :: "('f, 'p, 'w) hook"
  fmt_state :: "'s \<Rightarrow> string"
  fmt_event :: "'e \<Rightarrow> string"

text \<open>The default bodies of the optional methods, with the required parts of an implementation.\<close>

definition default_callbacks ::
    "('s \<Rightarrow> 'e \<Rightarrow> 'p \<Rightarrow> 'f \<times> 'p \<times> 'w \<Rightarrow> ('s, 'p) TransitionResult \<times> 'f \<times> 'p \<times> 'w) \<Rightarrow>
     ('s \<Rightarrow> string) \<Rightarrow> ('e \<Rightarrow> string) \<Rightarrow> ('f, 'w, 's, 'e, 'p) Finitomata" where
  "default_callbacks tr fs fe =
     \<lparr>on_transition = tr, on_start = (\<lambda>x. x), on_enter = (\<lambda>s x. x), on_exit = (\<lambda>s x. x),
      on_failure = (\<lambda>e er x. x), on_timer = (\<lambda>s x. (None, x)), on_terminate = (\<lambda>x. x),
      fmt_state = fs, fmt_event = fe\<rparr>"

text \<open>
  A callback invoked on the engine's state: \<open>fsm.hook(.., &mut state.payload)\<close> writes the
  payload field and no other field of the state.
\<close>

definition run_hook :: "('f, 'p, 'w) hook \<Rightarrow> 'f \<Rightarrow> ('s, 'p) FsmState \<Rightarrow> 'w \<Rightarrow>
    'f \<times> ('s, 'p) FsmState \<times> 'w" where
  "run_hook h fsm st w = (case h (fsm, payload st, w) of (fsm', p', w') \<Rightarrow> (fsm', st\<lparr>payload := p'\<rparr>, w'))"

lemma run_hook_frame:
  assumes "run_hook h fsm st w = (fsm', st', w')"
  shows "st' = st\<lparr>payload := payload st'\<rparr>" "h (fsm, payload st, w) = (fsm', payload st', w')"
  using assms by (auto simp: run_hook_def split: prod.splits)

lemma run_hookE:
  assumes "run_hook h fsm st w = (fsm', st', w')"
  obtains p' where "h (fsm, payload st, w) = (fsm', p', w')" "st' = st\<lparr>payload := p'\<rparr>"
  using assms by (auto simp: run_hook_def split: prod.splits)

lemma run_hook_fields:
  assumes "run_hook h fsm st w = (fsm', st', w')"
  shows "name st' = name st" "current st' = current st" "history st' = history st"
    "lifecycle st' = lifecycle st" "last_error st' = last_error st"
  using assms by (auto simp: run_hook_def split: prod.splits)

subsection \<open>Listeners\<close>

text \<open>
  \<open>on_transition(&self, name, from, to, event)\<close>: a listener sees the transition and returns
  nothing, so it acts on the outside world only. \<open>TracingListener\<close> hands the four rendered
  fields to the \<open>tracing\<close> crate, which is the parameter \<open>info\<close>.
\<close>

type_synonym ('w, 's, 'e) Listener = "string \<Rightarrow> 's \<Rightarrow> 's \<Rightarrow> 'e \<Rightarrow> 'w \<Rightarrow> 'w"

definition NoopListener :: "('w, 's, 'e) Listener" where
  "NoopListener nm frm tgt ev w = w"

definition TracingListener :: "(string \<Rightarrow> string \<Rightarrow> string \<Rightarrow> string \<Rightarrow> 'w \<Rightarrow> 'w) \<Rightarrow>
    ('s \<Rightarrow> string) \<Rightarrow> ('e \<Rightarrow> string) \<Rightarrow> ('w, 's, 'e) Listener" where
  "TracingListener info fs fe nm frm tgt ev w = info nm (fs frm) (fs tgt) (fe ev) w"

end
