(* ===== verification/Fsm_Persistency.thy ===== *)
theory Fsm_Persistency
  imports Fsm_Callbacks "HOL-Library.List_Lexorder" "HOL-Library.Char_ord"
begin

section \<open>Persistence and the concurrent map (persistency/mod.rs, persistency/memory.rs)\<close>

text \<open>
  The \<open>Persistency\<close> trait as a record of functions on the outside world, the contract its
  documentation states as a locale, and the in-memory backend. The backend and the state cache
  rest on \<open>dashmap::DashMap\<close>, which is not part of the repository: its operations are a
  parameter of the definitions, and the laws of a map that its documentation gives are the
  locale \<open>dash_map\<close>.
\<close>

subsection \<open>The interface of DashMap\<close>

record ('m, 'k, 'v) DashMap =
  dm_new :: 'm
  dm_get :: "'m \<Rightarrow> 'k \<Rightarrow> 'v option"
  dm_insert :: "'k \<Rightarrow> 'v \<Rightarrow> 'm \<Rightarrow> 'm"
  dm_remove :: "'k \<Rightarrow> 'm \<Rightarrow> ('k \<times> 'v) option \<times> 'm"
  dm_contains_key :: "'m \<Rightarrow> 'k \<Rightarrow> bool"
  dm_iter :: "'m \<Rightarrow> ('k \<times> 'v) list"
  dm_len :: "'m \<Rightarrow> nat"
  dm_is_empty :: "'m \<Rightarrow> bool"

locale dash_map =
  fixes D :: "('m, 'k, 'v) DashMap"
  assumes get_new: "dm_get D (dm_new D) k = None"
    and get_insert: "dm_get D (dm_insert D k v m) k' = (if k' = k then Some v else dm_get D m k')"
    and remove_result: "fst (dm_remove D k m) = map_option (Pair k) (dm_get D m k)"
    and get_remove: "dm_get D (snd (dm_remove D k m)) k' = (if k' = k then None else dm_get D m k')"
    and contains_key: "dm_contains_key D m k \<longleftrightarrow> dm_get D m k \<noteq> None"
    and iter_keys: "distinct (map fst (dm_iter D m))"
    and iter_entries: "(k, v) \<in> set (dm_iter D m) \<longleftrightarrow> dm_get D m k = Some v"
    and len_iter: "dm_len D m = length (dm_iter D m)"
    and is_empty_len: "dm_is_empty D m \<longleftrightarrow> dm_len D m = 0"
begin

lemma len_dom: "dm_len D m = card (dom (dm_get D m))"
proof -
  have "dom (dm_get D m) = fst ` set (dm_iter D m)"
    by (force simp: iter_entries [symmetric])
  with iter_keys [of m] show ?thesis
    by (metis distinct_card length_map len_iter list.set_map)
qed

lemma is_empty_iff: "dm_is_empty D m \<longleftrightarrow> (\<forall>k. dm_get D m k = None)"
proof -
  have "dm_is_empty D m \<longleftrightarrow> dm_iter D m = []"
    by (simp add: is_empty_len len_iter)
  also have "\<dots> \<longleftrightarrow> (\<forall>k. dm_get D m k = None)"
    using iter_entries [of _ _ m] by (cases "dm_iter D m") (auto, force)
  finally show ?thesis .
qed

end

text \<open>A map with these laws: a finite map iterated in key order. It shows that they can hold.\<close>

definition fmap_dash_map :: "(('k::linorder, 'v) fmap, 'k, 'v) DashMap" where
  "fmap_dash_map =
     \<lparr>dm_new = fmempty,
      dm_get = fmlookup,
      dm_insert = fmupd,
      dm_remove = (\<lambda>k m. (map_option (Pair k) (fmlookup m k), fmdrop k m)),
      dm_contains_key = (\<lambda>m k. fmlookup m k \<noteq> None),
      dm_iter = sorted_list_of_fmap,
      dm_len = (\<lambda>m. length (sorted_list_of_fmap m)),
      dm_is_empty = (\<lambda>m. sorted_list_of_fmap m = [])\<rparr>"

lemma sorted_list_of_fmap_mem: "(k, v) \<in> set (sorted_list_of_fmap m) \<longleftrightarrow> fmlookup m k = Some v"
  by (auto simp: sorted_list_of_fmap_def fmlookup_dom_iff intro!: image_eqI [where x = k])

lemma sorted_list_of_fmap_keys: "distinct (map fst (sorted_list_of_fmap m))"
  by (simp add: sorted_list_of_fmap_def o_def sorted_list_of_fset.rep_eq)

interpretation fmap_dm: dash_map fmap_dash_map
  by unfold_locales
     (auto simp: fmap_dash_map_def sorted_list_of_fmap_mem sorted_list_of_fmap_keys)

subsection \<open>The Persistency trait\<close>

record ('w, 's, 'p) Persistency =
  load :: "string \<Rightarrow> 'w \<Rightarrow> (PersistencyError + (Lifecycle \<times> 's \<times> 'p) option) \<times> 'w"
  store :: "string \<Rightarrow> 's \<Rightarrow> 'p \<Rightarrow> 'w \<Rightarrow> (PersistencyError + unit) \<times> 'w"
  store_error :: "string \<Rightarrow> FinitomataError \<Rightarrow> 'w \<Rightarrow> (PersistencyError + unit) \<times> 'w"

text \<open>
  The contract of a backend, over what it holds for an instance name: \<open>load\<close> answers with the
  stored entry (or fails) and stores nothing, a \<open>store\<close> that succeeds is seen by the next
  \<open>load\<close> of that name and of no other name, and \<open>store_error\<close> leaves the entries alone.
\<close>

locale persistency =
  fixes P :: "('w, 's, 'p) Persistency"
    and stored :: "'w \<Rightarrow> string \<Rightarrow> (Lifecycle \<times> 's \<times> 'p) option"
  assumes load_result: "fst (load P i w) = Inr r \<Longrightarrow> r = stored w i"
    and load_keeps: "stored (snd (load P i w)) = stored w"
    and store_result: "store P i s p w = (Inr (), w') \<Longrightarrow> \<exists>lc. stored w' = (stored w)(i \<mapsto> (lc, s, p))"
    and store_error_keeps: "stored (snd (store_error P i e w)) = stored w"
begin

lemma load_after_store:
  assumes "store P i s p w = (Inr (), w')" "fst (load P i w') = Inr r"
  shows "\<exists>lc. r = Some (lc, s, p)"
  using store_result [OF assms(1)] load_result [OF assms(2)] by auto

lemma load_other_after_store:
  assumes "store P i s p w = (Inr (), w')" "j \<noteq> i"
    and "fst (load P j w) = Inr r" "fst (load P j w') = Inr r'"
  shows "r' = r"
  using store_result [OF assms(1)] load_result [OF assms(3)] load_result [OF assms(4)] assms(2) by auto

end

subsection \<open>InMemoryPersistency\<close>

type_synonym ('s, 'p) persisted = "Lifecycle \<times> 's \<times> 'p"

definition InMemoryPersistency_new :: "('m, string, ('s, 'p) persisted) DashMap \<Rightarrow> 'm" where
  "InMemoryPersistency_new D = dm_new D"

definition InMemoryPersistency_default :: "('m, string, ('s, 'p) persisted) DashMap \<Rightarrow> 'm" where
  "InMemoryPersistency_default D = InMemoryPersistency_new D"

definition InMemoryPersistency_len :: "('m, string, ('s, 'p) persisted) DashMap \<Rightarrow> 'm \<Rightarrow> nat" where
  "InMemoryPersistency_len D m = dm_len D m"

definition InMemoryPersistency_is_empty :: "('m, string, ('s, 'p) persisted) DashMap \<Rightarrow> 'm \<Rightarrow> bool" where
  "InMemoryPersistency_is_empty D m = dm_is_empty D m"

definition InMemoryPersistency_contains ::
    "('m, string, ('s, 'p) persisted) DashMap \<Rightarrow> 'm \<Rightarrow> string \<Rightarrow> bool" where
  "InMemoryPersistency_contains D m i = dm_contains_key D m i"

definition InMemoryPersistency_remove ::
    "('m, string, ('s, 'p) persisted) DashMap \<Rightarrow> string \<Rightarrow> 'm \<Rightarrow> ('s, 'p) persisted option \<times> 'm" where
  "InMemoryPersistency_remove D i m = (case dm_remove D i m of (r, m') \<Rightarrow> (map_option snd r, m'))"

text \<open>The trait implementation: \<open>store\<close> records the lifecycle \<open>Running\<close> whatever it was.\<close>

definition InMemoryPersistency ::
    "('m, string, ('s, 'p) persisted) DashMap \<Rightarrow> ('m, 's, 'p) Persistency" where
  "InMemoryPersistency D =
     \<lparr>load = (\<lambda>i m. (Inr (dm_get D m i), m)),
      store = (\<lambda>i s p m. (Inr (), dm_insert D i (Running, s, p) m)),
      store_error = (\<lambda>i e m. (Inr (), m))\<rparr>"

locale memory_store = dash_map D for D :: "('m, string, Lifecycle \<times> 's \<times> 'p) DashMap"
begin

lemma memory_len: "InMemoryPersistency_len D m = card (dom (dm_get D m))"
  by (simp add: InMemoryPersistency_len_def len_dom)

lemma memory_is_empty: "InMemoryPersistency_is_empty D m \<longleftrightarrow> InMemoryPersistency_len D m = 0"
  by (simp add: InMemoryPersistency_len_def InMemoryPersistency_is_empty_def is_empty_len)

lemma memory_new: "\<not> InMemoryPersistency_contains D (InMemoryPersistency_new D) i"
  by (simp add: InMemoryPersistency_contains_def InMemoryPersistency_new_def contains_key get_new)

lemma memory_remove:
  assumes "InMemoryPersistency_remove D i m = (r, m')"
  shows "r = dm_get D m i" "\<not> InMemoryPersistency_contains D m' i"
    "j \<noteq> i \<Longrightarrow> dm_get D m' j = dm_get D m j"
proof -
  have "r = map_option snd (fst (dm_remove D i m))" "m' = snd (dm_remove D i m)"
    using assms by (auto simp: InMemoryPersistency_remove_def split: prod.splits)
  then show "r = dm_get D m i" "\<not> InMemoryPersistency_contains D m' i"
    "j \<noteq> i \<Longrightarrow> dm_get D m' j = dm_get D m j"
    by (simp_all add: remove_result get_remove contains_key InMemoryPersistency_contains_def
        option.map_comp o_def option.map_ident)
qed

end

sublocale memory_store \<subseteq> mem: persistency "InMemoryPersistency D" "dm_get D"
  by unfold_locales (auto simp: InMemoryPersistency_def fun_eq_iff get_insert)

interpretation fmap_store: memory_store fmap_dash_map ..

subsection \<open>A backend inside a larger world\<close>

text \<open>
  The entries of the backend are the first part of the world, other things the callbacks act on
  (a terminal, a global counter) the second.
\<close>

definition in_fst :: "('m, 's, 'p) Persistency \<Rightarrow> ('m \<times> 'v, 's, 'p) Persistency" where
  "in_fst P =
     \<lparr>load = (\<lambda>i (m, v). case load P i m of (r, m') \<Rightarrow> (r, m', v)),
      store = (\<lambda>i s p (m, v). case store P i s p m of (r, m') \<Rightarrow> (r, m', v)),
      store_error = (\<lambda>i e (m, v). case store_error P i e m of (r, m') \<Rightarrow> (r, m', v))\<rparr>"

lemma persistency_in_fst:
  assumes "persistency P stored"
  shows "persistency (in_fst P) (stored \<circ> fst)"
proof
  fix i e and s and p and w w' :: "'a \<times> 'd" and r
  show "fst (load (in_fst P) i w) = Inr r \<Longrightarrow> r = (stored \<circ> fst) w i"
    using persistency.load_result [OF assms, of i "fst w" r] by (auto simp: in_fst_def split: prod.splits)
  show "(stored \<circ> fst) (snd (load (in_fst P) i w)) = (stored \<circ> fst) w"
    using persistency.load_keeps [OF assms, of i "fst w"] by (auto simp: in_fst_def split: prod.splits)
  show "store (in_fst P) i s p w = (Inr (), w') \<Longrightarrow> \<exists>lc. (stored \<circ> fst) w' = ((stored \<circ> fst) w)(i \<mapsto> (lc, s, p))"
    using persistency.store_result [OF assms, of i s p "fst w" "fst w'"] by (auto simp: in_fst_def split: prod.splits)
  show "(stored \<circ> fst) (snd (store_error (in_fst P) i e w)) = (stored \<circ> fst) w"
    using persistency.store_error_keeps [OF assms, of i e "fst w"] by (auto simp: in_fst_def split: prod.splits)
qed

lemma in_fst_memory [simp]:
  "load (in_fst (InMemoryPersistency D)) i (m, v) = (Inr (dm_get D m i), m, v)"
  "store (in_fst (InMemoryPersistency D)) i s p (m, v) = (Inr (), dm_insert D i (Running, s, p) m, v)"
  by (simp_all add: in_fst_def InMemoryPersistency_def)

end
