(* ===== verification/Fsm_Engine.thy ===== *)
theory Fsm_Engine
  imports Fsm_Search Fsm_Persistency
begin

section \<open>The transition engine (finitomata/src/engine.rs)\<close>

text \<open>
  \<open>transit\<close> runs one transition with all the callbacks of the user, the persistence backend and
  the listener. It is split where the code has its numbered steps: \<open>transit\<close> looks the event up
  and calls \<open>on_exit\<close> and \<open>on_transition\<close>, \<open>transit_target\<close> validates the target and persists,
  \<open>transit_commit\<close> updates the state and runs the steps after it, and \<open>transit_failed\<close> is the
  failure exit the first two share. Each takes and returns the user's struct, the FSM state and
  the outside world.
\<close>

record ('w, 's, 'e, 'p) TransitContext =
  tc_persistency :: "('w, 's, 'p) Persistency option"
  tc_listener :: "('w, 's, 'e) Listener option"
  tc_auto_terminate :: bool

datatype TransitOutcome = Transitioned | SoftSkipped | AutoTerminate | HardContinue

type_synonym ('f, 'w, 's, 'p) transit_result =
  "(FinitomataError + TransitOutcome) \<times> 'f \<times> ('s, 'p) FsmState \<times> 'w"

text \<open>\<open>on_failure\<close>, \<open>set_error\<close>, \<open>on_enter(from)\<close>, \<open>return Err(err)\<close>.\<close>

definition transit_failed ::
    "('f, 'w, 's, 'e, 'p) Finitomata \<Rightarrow> 'f \<Rightarrow> ('s, 'p) FsmState \<Rightarrow> 's \<Rightarrow> 'e \<Rightarrow> FinitomataError \<Rightarrow> 'w \<Rightarrow>
     ('f, 'w, 's, 'p) transit_result" where
  "transit_failed F fsm st frm ev err w =
     (let (fsm, st, w) = run_hook (on_failure F ev err) fsm st w;
          st = set_error st err;
          (fsm, st, w) = run_hook (on_enter F frm) fsm st w
      in (Inl err, fsm, st, w))"

text \<open>Steps 5 to 9: update the state, notify, enter, auto-terminate, classify the outcome.\<close>

definition transit_commit ::
    "('f, 'w, 's, 'e, 'p) Finitomata \<Rightarrow> ('s, 'e) TransitionGraph \<Rightarrow> ('w, 's, 'e, 'p) TransitContext \<Rightarrow>
     EventKind \<Rightarrow> 'f \<Rightarrow> ('s, 'p) FsmState \<Rightarrow> 's \<Rightarrow> 's \<Rightarrow> 'e \<Rightarrow> 'w \<Rightarrow> ('f, 'w, 's, 'p) transit_result" where
  "transit_commit F g ctx kind fsm st frm target ev w =
     (let st = clear_error st;
          st = transition_to st target;
          st = st\<lparr>lifecycle := Running\<rparr>;
          w = (case tc_listener ctx of None \<Rightarrow> w | Some listener \<Rightarrow> listener (name st) frm target ev w);
          (fsm, st, w) = run_hook (on_enter F target) fsm st w
      in if tc_auto_terminate ctx \<and> is_final g target then
           (let st = st\<lparr>lifecycle := Terminating\<rparr>;
                (fsm, st, w) = run_hook (on_terminate F) fsm st w;
                st = st\<lparr>lifecycle := Terminated\<rparr>
            in (Inr AutoTerminate, fsm, st, w))
         else if kind = Hard then (Inr HardContinue, fsm, st, w)
         else (Inr Transitioned, fsm, st, w))"

text \<open>Steps 3 and 4: the target must be one the graph allows, and it is persisted.\<close>

definition transit_target ::
    "('f, 'w, 's, 'e, 'p) Finitomata \<Rightarrow> ('s, 'e) TransitionGraph \<Rightarrow> ('w, 's, 'e, 'p) TransitContext \<Rightarrow>
     's list \<Rightarrow> EventKind \<Rightarrow> 'f \<Rightarrow> ('s, 'p) FsmState \<Rightarrow> 's \<Rightarrow> 's \<Rightarrow> 'e \<Rightarrow> 'w \<Rightarrow>
     ('f, 'w, 's, 'p) transit_result" where
  "transit_target F g ctx allowed_targets kind fsm st frm target ev w =
     (if target \<notin> set allowed_targets then
        transit_failed F fsm st frm ev
          (err_not_allowed (fmt_state F frm) (fmt_state F target) (fmt_event F ev)) w
      else
        (case tc_persistency ctx of
           None \<Rightarrow> transit_commit F g ctx kind fsm st frm target ev w
         | Some persist \<Rightarrow>
             (case store persist (name st) target (payload st) w of
                (Inr _, w) \<Rightarrow> transit_commit F g ctx kind fsm st frm target ev w
              | (Inl e, w) \<Rightarrow>
                  (let err = err_persistency (PersistencyError_display e);
                       st = set_error st err;
                       (fsm, st, w) = run_hook (on_enter F frm) fsm st w
                   in (Inl err, fsm, st, w)))))"

definition transit ::
    "('f, 'w, 's, 'e, 'p) Finitomata \<Rightarrow> 'f \<Rightarrow> ('s, 'e) TransitionGraph \<Rightarrow> ('s, 'p) FsmState \<Rightarrow> 'e \<Rightarrow> 'p \<Rightarrow>
     ('w, 's, 'e, 'p) TransitContext \<Rightarrow> 'w \<Rightarrow> ('f, 'w, 's, 'p) transit_result" where
  "transit F fsm g st ev event_payload ctx w =
     (case allowed g (current st) ev of
        None \<Rightarrow>
          if list_ex (\<lambda>t. t_event t = ev \<and> t_kind t = Soft) (transitions g)
          then (Inr SoftSkipped, fsm, st, w)
          else (Inl (err_not_responds (fmt_state F (current st)) (fmt_event F ev)), fsm, st, w)
      | Some (allowed_targets, kind) \<Rightarrow>
          (let (fsm, st, w) = run_hook (on_exit F (current st)) fsm st w;
               frm = current st;
               (result, fsm, p, w) = on_transition F frm ev event_payload (fsm, payload st, w);
               st = st\<lparr>payload := p\<rparr>
           in case result of
                Ok target \<Rightarrow> transit_target F g ctx allowed_targets kind fsm st frm target ev w
              | OkWithPayload target new_payload \<Rightarrow>
                  transit_target F g ctx allowed_targets kind fsm (st\<lparr>payload := new_payload\<rparr>)
                    frm target ev w
              | Error err \<Rightarrow> transit_failed F fsm st frm ev err w))"

subsection \<open>What a transition may do: an abstract step relation\<close>

text \<open>
  The contract of \<open>transit\<close>, whatever the callbacks, the backend and the listener do: an event
  the state does not answer changes nothing, an aborted transition changes the payload and the
  recorded error only, and a completed one moves to a target the graph allows.
\<close>

definition soft_event :: "('s, 'e) TransitionGraph \<Rightarrow> 'e \<Rightarrow> bool" where
  "soft_event g ev \<longleftrightarrow> (\<exists>t\<in>set (transitions g). t_event t = ev \<and> t_kind t = Soft)"

definition outcome :: "('s, 'e) TransitionGraph \<Rightarrow> bool \<Rightarrow> EventKind \<Rightarrow> 's \<Rightarrow> TransitOutcome" where
  "outcome g auto kind target =
     (if auto \<and> is_final g target then AutoTerminate
      else if kind = Hard then HardContinue else Transitioned)"

definition moved :: "TransitOutcome \<Rightarrow> 's \<Rightarrow> 'p \<Rightarrow> ('s, 'p) FsmState \<Rightarrow> ('s, 'p) FsmState" where
  "moved oc target p st =
     st\<lparr>current := target, payload := p, history := BoundedHistory_push (history st) target,
        lifecycle := (if oc = AutoTerminate then Terminated else Running), last_error := None\<rparr>"

inductive fsm_step :: "('s, 'e) TransitionGraph \<Rightarrow> bool \<Rightarrow> ('s, 'p) FsmState \<Rightarrow> 'e \<Rightarrow>
    FinitomataError + TransitOutcome \<Rightarrow> ('s, 'p) FsmState \<Rightarrow> bool" for g auto where
  ignored: "allowed g (current st) ev = None \<Longrightarrow> soft_event g ev \<Longrightarrow>
     fsm_step g auto st ev (Inr SoftSkipped) st"
| refused: "allowed g (current st) ev = None \<Longrightarrow> \<not> soft_event g ev \<Longrightarrow> stage err = NotResponds \<Longrightarrow>
     fsm_step g auto st ev (Inl err) st"
| aborted: "allowed g (current st) ev = Some (tos, kind) \<Longrightarrow>
     fsm_step g auto st ev (Inl err) (st\<lparr>payload := p, last_error := Some err\<rparr>)"
| completed: "allowed g (current st) ev = Some (tos, kind) \<Longrightarrow> target \<in> set tos \<Longrightarrow>
     fsm_step g auto st ev (Inr (outcome g auto kind target))
       (moved (outcome g auto kind target) target p st)"

inductive_cases fsm_step_InrE: "fsm_step g auto st ev (Inr oc) st'"
inductive_cases fsm_step_InlE: "fsm_step g auto st ev (Inl err) st'"

lemma outcome_not_skipped [simp]:
  "outcome g auto kind target \<noteq> SoftSkipped" "SoftSkipped \<noteq> outcome g auto kind target"
  by (simp_all add: outcome_def)

lemma moved_simps [simp]:
  "current (moved oc target p st) = target" "payload (moved oc target p st) = p"
  "name (moved oc target p st) = name st" "last_error (moved oc target p st) = None"
  "history (moved oc target p st) = BoundedHistory_push (history st) target"
  "lifecycle (moved oc target p st) = (if oc = AutoTerminate then Terminated else Running)"
  by (simp_all add: moved_def)

subsection \<open>The engine refines the step relation\<close>

lemma transit_failed_result:
  assumes "transit_failed F fsm st frm ev err w = (r, fsm', st', w')"
  shows "r = Inl err \<and> st' = st\<lparr>payload := payload st', last_error := Some err\<rparr>"
  using assms
  by (auto simp: transit_failed_def run_hook_def set_error_def split: prod.splits
      intro!: FsmState_eqI)

lemma transit_commit_result:
  assumes "transit_commit F g ctx kind fsm st frm target ev w = (r, fsm', st', w')"
  shows "r = Inr (outcome g (tc_auto_terminate ctx) kind target) \<and>
    st' = moved (outcome g (tc_auto_terminate ctx) kind target) target (payload st') st"
  using assms
  by (auto simp: transit_commit_def run_hook_def clear_error_def transition_to_def outcome_def
      Let_def split: prod.splits if_splits intro!: FsmState_eqI)

lemma moved_payload: "moved oc target p (st\<lparr>payload := q\<rparr>) = moved oc target p st"
  by (simp add: moved_def)

lemma transit_target_result:
  assumes run: "transit_target F g ctx tos kind fsm st frm target ev w = (r, fsm', st', w')"
  shows "(\<exists>err. r = Inl err \<and> st' = st\<lparr>payload := payload st', last_error := Some err\<rparr>) \<or>
    (target \<in> set tos \<and> r = Inr (outcome g (tc_auto_terminate ctx) kind target) \<and>
     st' = moved (outcome g (tc_auto_terminate ctx) kind target) target (payload st') st)"
proof (cases "target \<in> set tos")
  case False
  with run have "transit_failed F fsm st frm ev
      (err_not_allowed (fmt_state F frm) (fmt_state F target) (fmt_event F ev)) w = (r, fsm', st', w')"
    by (simp add: transit_target_def)
  from transit_failed_result [OF this] show ?thesis by blast
next
  case True
  show ?thesis
  proof (cases "tc_persistency ctx")
    case None
    with True run have "transit_commit F g ctx kind fsm st frm target ev w = (r, fsm', st', w')"
      by (simp add: transit_target_def)
    from transit_commit_result [OF this] True show ?thesis by blast
  next
    case (Some P)
    obtain res w1 where st: "store P (name st) target (payload st) w = (res, w1)" by fastforce
    show ?thesis
    proof (cases res)
      case (Inl e)
      let ?err = "err_persistency (PersistencyError_display e)"
      obtain f2 p2 w2 where "on_enter F frm (fsm, payload st, w1) = (f2, p2, w2)"
        using prod_cases3 by blast
      with True Some run st Inl have "r = Inl ?err" "st' = st\<lparr>last_error := Some ?err, payload := p2\<rparr>"
        by (simp_all add: transit_target_def run_hook_def set_error_def Let_def)
      then have "r = Inl ?err \<and> st' = st\<lparr>payload := payload st', last_error := Some ?err\<rparr>"
        by (auto intro!: FsmState_eqI)
      then show ?thesis by blast
    next
      case (Inr u)
      with True Some run st
      have "transit_commit F g ctx kind fsm st frm target ev w1 = (r, fsm', st', w')"
        by (simp add: transit_target_def)
      from transit_commit_result [OF this] True show ?thesis by blast
    qed
  qed
qed

lemma transit_refines_step:
  assumes run: "transit F fsm g st ev ep ctx w = (r, fsm', st', w')"
  shows "fsm_step g (tc_auto_terminate ctx) st ev r st'"
proof (cases "allowed g (current st) ev")
  case None
  with run show ?thesis
    by (auto simp: transit_def soft_event_def list_ex_iff err_stage split: if_splits
        intro!: fsm_step.ignored fsm_step.refused)
next
  case (Some tk)
  obtain tos kind where al: "allowed g (current st) ev = Some (tos, kind)"
    using Some by (cases tk) auto
  obtain f1 p1 w1 where ex: "on_exit F (current st) (fsm, payload st, w) = (f1, p1, w1)"
    using prod_cases3 by blast
  obtain res f2 p2 w2 where tr: "on_transition F (current st) ev ep (f1, p1, w1) = (res, f2, p2, w2)"
    using prod_cases4 by blast
  have ab: "fsm_step g (tc_auto_terminate ctx) st ev (Inl err) (st\<lparr>payload := p, last_error := Some err\<rparr>)"
    for err p
    by (rule fsm_step.aborted [OF al])
  have tgt: "fsm_step g (tc_auto_terminate ctx) st ev r st'"
    if run': "transit_target F g ctx tos kind f2 (st\<lparr>payload := q\<rparr>) (current st) target ev w2 = (r, fsm', st', w')"
    for q target
  proof -
    let ?oc = "outcome g (tc_auto_terminate ctx) kind target"
    consider (err) err where "r = Inl err" "st' = st\<lparr>payload := payload st', last_error := Some err\<rparr>"
      | (ok) "target \<in> set tos" "r = Inr ?oc" "st' = moved ?oc target (payload st') st"
      using transit_target_result [OF run'] by (auto simp: moved_payload)
    then show ?thesis
    proof cases
      case err
      then show ?thesis using ab by metis
    next
      case ok
      then show ?thesis using fsm_step.completed [OF al ok(1)] by metis
    qed
  qed
  show ?thesis
  proof (cases res)
    case (Ok target)
    with run al ex tr show ?thesis
      by (intro tgt [of p2 target]) (simp add: transit_def run_hook_def)
  next
    case (OkWithPayload target q)
    with run al ex tr show ?thesis
      by (intro tgt [of q target]) (simp add: transit_def run_hook_def)
  next
    case (Error err)
    with run al ex tr
    have "transit_failed F f2 (st\<lparr>payload := p2\<rparr>) (current st) ev err w2 = (r, fsm', st', w')"
      by (simp add: transit_def run_hook_def)
    from transit_failed_result [OF this]
    have "r = Inl err" "st' = st\<lparr>payload := payload st', last_error := Some err\<rparr>" by simp_all
    with ab show ?thesis by metis
  qed
qed

subsection \<open>Consequences of one step\<close>

lemma fsm_step_frame:
  assumes "fsm_step g auto st ev r st'"
  shows "name st' = name st" "max_size (history st') = max_size (history st)"
  using assms by (auto elim!: fsm_step.cases)

lemma fsm_step_state_inv:
  assumes "fsm_step g auto st ev r st'" "state_inv st"
  shows "state_inv st'"
  using assms(1)
proof (cases rule: fsm_step.cases)
  case (completed tos kind target p)
  have "state_inv (transition_to st target)"
    by (rule state_inv_transition_to [OF assms(2)])
  with completed show ?thesis
    by (simp add: state_inv_def transition_to_def)
qed (use assms(2) in simp_all)

lemma fsm_step_error:
  assumes "fsm_step g auto st ev (Inl err) st'"
  shows "current st' = current st" "history st' = history st" "lifecycle st' = lifecycle st"
    "responds g (current st) ev \<Longrightarrow> last_error st' = Some err"
    "\<not> responds g (current st) ev \<Longrightarrow> st' = st \<and> stage err = NotResponds"
  using assms by (auto elim!: fsm_step_InlE simp: responds_def)

lemma fsm_step_moved:
  assumes "graph_inv g" "fsm_step g auto st ev (Inr oc) st'" "oc \<noteq> SoftSkipped"
  shows "graph_edge g (current st) ev (current st')"
    "\<exists>tos kind. allowed g (current st) ev = Some (tos, kind) \<and> current st' \<in> set tos \<and>
       oc = outcome g auto kind (current st')"
    "st' = moved oc (current st') (payload st') st"
proof -
  obtain tos kind target p where al: "allowed g (current st) ev = Some (tos, kind)"
    and tgt: "target \<in> set tos" and oc: "oc = outcome g auto kind target"
    and st': "st' = moved oc target p st"
    using assms(2,3) by (auto elim: fsm_step_InrE)
  from al obtain t where "t \<in> set (transitions g)" "t_from t = current st" "t_event t = ev" "t_to t = tos"
    by (rule allowed_SomeD [OF assms(1)])
  with tgt st' show "graph_edge g (current st) ev (current st')"
    by (auto simp: graph_edge_def)
  show "\<exists>tos kind. allowed g (current st) ev = Some (tos, kind) \<and> current st' \<in> set tos \<and>
      oc = outcome g auto kind (current st')"
    using al tgt oc st' by auto
  show "st' = moved oc (current st') (payload st') st"
    using st' by simp
qed

subsection \<open>Runs of the machine\<close>

text \<open>
  A run from one state to another, with the path of completed transitions. Between transitions
  the actor's callbacks may write the payload and its handlers the lifecycle.
\<close>

inductive fsm_run :: "('s, 'e) TransitionGraph \<Rightarrow> bool \<Rightarrow> ('s, 'p) FsmState \<Rightarrow> ('e \<times> 's) list \<Rightarrow>
    ('s, 'p) FsmState \<Rightarrow> bool" for g auto st where
  run_refl: "fsm_run g auto st [] st"
| run_stay: "fsm_run g auto st p st' \<Longrightarrow> fsm_step g auto st' ev r st'' \<Longrightarrow>
     r = Inr SoftSkipped \<or> isl r \<Longrightarrow> fsm_run g auto st p st''"
| run_move: "fsm_run g auto st p st' \<Longrightarrow> fsm_step g auto st' ev (Inr oc) st'' \<Longrightarrow> oc \<noteq> SoftSkipped \<Longrightarrow>
     fsm_run g auto st (p @ [(ev, current st'')]) st''"
| run_payload: "fsm_run g auto st p st' \<Longrightarrow> fsm_run g auto st p (st'\<lparr>payload := q\<rparr>)"
| run_lifecycle: "fsm_run g auto st p st' \<Longrightarrow> fsm_run g auto st p (st'\<lparr>lifecycle := l\<rparr>)"

lemma fsm_step_stays:
  "fsm_step g auto st ev r st' \<Longrightarrow> r = Inr SoftSkipped \<or> isl r \<Longrightarrow>
     current st' = current st \<and> history st' = history st"
  by (auto elim!: fsm_step.cases)

lemma fsm_run_path:
  assumes "graph_inv g" "fsm_run g auto st p st'"
  shows "graph_path g (current st) p (current st')"
  using assms(2)
proof induction
  case (run_stay p st' ev r st'')
  from fsm_step_stays [OF run_stay.hyps(2,3)] run_stay.IH show ?case by simp
next
  case (run_move p st' ev oc st'')
  with fsm_step_moved(1) [OF assms(1) run_move.hyps(2,3)] show ?case
    by (auto simp: graph_path_snoc)
qed simp_all

lemma fsm_run_history:
  assumes "graph_inv g" "fsm_run g auto st p st'"
  shows "history st' = foldl BoundedHistory_push (history st) (map snd p)"
  using assms(2)
proof induction
  case (run_stay p st' ev r st'')
  from fsm_step_stays [OF run_stay.hyps(2,3)] run_stay.IH show ?case by simp
next
  case (run_move p st' ev oc st'')
  have "history st'' = BoundedHistory_push (history st') (current st'')"
    using arg_cong [OF fsm_step_moved(3) [OF assms(1) run_move.hyps(2,3)], of history] by simp
  with run_move.IH show ?case by simp
qed simp_all

lemma fsm_run_frame:
  assumes "fsm_run g auto st p st'" shows "name st' = name st"
  using assms by induction (simp_all add: fsm_step_frame)

lemma fsm_run_state_inv:
  assumes "fsm_run g auto st p st'" "state_inv st" shows "state_inv st'"
  using assms by induction (auto intro: fsm_step_state_inv)

lemma fsm_run_trans:
  assumes "fsm_run g auto st' q st''" "fsm_run g auto st p st'"
  shows "fsm_run g auto st (p @ q) st''"
  using assms
proof induction
  case (run_move q st1 ev oc st2)
  from fsm_run.run_move [OF run_move.IH [OF run_move.prems] run_move.hyps(2,3)] show ?case by simp
qed (auto intro: fsm_run.intros)

lemma fsm_run_step:
  assumes "fsm_step g auto st ev r st'"
  shows "\<exists>p. fsm_run g auto st p st'"
proof (cases "r = Inr SoftSkipped \<or> isl r")
  case True
  with fsm_run.run_stay [OF fsm_run.run_refl assms] show ?thesis by blast
next
  case False
  then obtain oc where "r = Inr oc" "oc \<noteq> SoftSkipped" by (cases r) auto
  with fsm_run.run_move [OF fsm_run.run_refl, of g auto st ev oc st'] assms show ?thesis by blast
qed

end
