(* ===== verification/Fsm_Trace.thy ===== *)
theory Fsm_Trace
  imports Fsm_Engine
begin

section \<open>Observing the engine: the sequence of calls it makes\<close>

text \<open>
  The order of the calls to the callbacks, the backend and the listener is what the engine
  promises to its user, and the model shows it without any trace of its own: give it callbacks
  that write a log. \<open>logged\<close> turns any implementation over a world \<open>'w\<close> into one over
  \<open>'w \<times> call list\<close> that does the same and appends each call it receives. The lemmas say, for
  every implementation, that the logging run does what the plain run does and what its log is.
\<close>

datatype ('s, 'e, 'p) call =
    CStart
  | CEnter 's
  | CExit 's
  | CTransition 's 'e
  | CFailure 'e FinitomataError
  | CTimer 's
  | CTerminate
  | CLoad string
  | CStore string 's 'p
  | CStoreError string FinitomataError
  | CNotify string 's 's 'e

definition log_hook :: "'c \<Rightarrow> ('f, 'p, 'w) hook \<Rightarrow> ('f, 'p, 'w \<times> 'c list) hook" where
  "log_hook c h = (\<lambda>(f, p, w, l). case h (f, p, w) of (f', p', w') \<Rightarrow> (f', p', w', l @ [c]))"

definition log_call :: "'c \<Rightarrow> ('w \<Rightarrow> 'r \<times> 'w) \<Rightarrow> 'w \<times> 'c list \<Rightarrow> 'r \<times> ('w \<times> 'c list)" where
  "log_call c h = (\<lambda>(w, l). case h w of (r, w') \<Rightarrow> (r, w', l @ [c]))"

definition logged :: "('f, 'w, 's, 'e, 'p) Finitomata \<Rightarrow>
    ('f, 'w \<times> ('s, 'e, 'p) call list, 's, 'e, 'p) Finitomata" where
  "logged F =
     \<lparr>on_transition = (\<lambda>s e ep (f, p, w, l).
        case on_transition F s e ep (f, p, w) of (r, f', p', w') \<Rightarrow> (r, f', p', w', l @ [CTransition s e])),
      on_start = log_hook CStart (on_start F),
      on_enter = (\<lambda>s. log_hook (CEnter s) (on_enter F s)),
      on_exit = (\<lambda>s. log_hook (CExit s) (on_exit F s)),
      on_failure = (\<lambda>e er. log_hook (CFailure e er) (on_failure F e er)),
      on_timer = (\<lambda>s (f, p, w, l).
        case on_timer F s (f, p, w) of (r, f', p', w') \<Rightarrow> (r, f', p', w', l @ [CTimer s])),
      on_terminate = log_hook CTerminate (on_terminate F),
      fmt_state = fmt_state F, fmt_event = fmt_event F\<rparr>"

definition logged_persistency :: "('w, 's, 'p) Persistency \<Rightarrow>
    ('w \<times> ('s, 'e, 'p) call list, 's, 'p) Persistency" where
  "logged_persistency P =
     \<lparr>load = (\<lambda>i. log_call (CLoad i) (load P i)),
      store = (\<lambda>i s p. log_call (CStore i s p) (store P i s p)),
      store_error = (\<lambda>i e. log_call (CStoreError i e) (store_error P i e))\<rparr>"

definition logged_listener :: "('w, 's, 'e) Listener \<Rightarrow> ('w \<times> ('s, 'e, 'p) call list, 's, 'e) Listener" where
  "logged_listener L nm frm tgt ev = (\<lambda>(w, l). (L nm frm tgt ev w, l @ [CNotify nm frm tgt ev]))"

definition logged_ctx :: "('w, 's, 'e, 'p) TransitContext \<Rightarrow>
    ('w \<times> ('s, 'e, 'p) call list, 's, 'e, 'p) TransitContext" where
  "logged_ctx ctx =
     \<lparr>tc_persistency = map_option logged_persistency (tc_persistency ctx),
      tc_listener = map_option logged_listener (tc_listener ctx),
      tc_auto_terminate = tc_auto_terminate ctx\<rparr>"

subsection \<open>One logged call\<close>

lemma run_hook_logged [simp]:
  "run_hook (log_hook c h) fsm st (w, l) =
     (case run_hook h fsm st w of (fsm', st', w') \<Rightarrow> (fsm', st', w', l @ [c]))"
  by (auto simp: run_hook_def log_hook_def split: prod.splits)

lemma logged_simps [simp]:
  "on_start (logged F) = log_hook CStart (on_start F)"
  "on_enter (logged F) s = log_hook (CEnter s) (on_enter F s)"
  "on_exit (logged F) s = log_hook (CExit s) (on_exit F s)"
  "on_failure (logged F) e er = log_hook (CFailure e er) (on_failure F e er)"
  "on_terminate (logged F) = log_hook CTerminate (on_terminate F)"
  "fmt_state (logged F) = fmt_state F" "fmt_event (logged F) = fmt_event F"
  "on_transition (logged F) s e ep (f, p, w, l) =
     (case on_transition F s e ep (f, p, w) of (r, f', p', w') \<Rightarrow> (r, f', p', w', l @ [CTransition s e]))"
  "on_timer (logged F) s (f, p, w, l) =
     (case on_timer F s (f, p, w) of (r, f', p', w') \<Rightarrow> (r, f', p', w', l @ [CTimer s]))"
  by (simp_all add: logged_def)

lemma logged_ctx_simps [simp]:
  "tc_persistency (logged_ctx ctx) = map_option logged_persistency (tc_persistency ctx)"
  "tc_listener (logged_ctx ctx) = map_option logged_listener (tc_listener ctx)"
  "tc_auto_terminate (logged_ctx ctx) = tc_auto_terminate ctx"
  by (simp_all add: logged_ctx_def)

lemma logged_store [simp]:
  "store (logged_persistency P) i s p (w, l) =
     (case store P i s p w of (r, w') \<Rightarrow> (r, w', l @ [CStore i s p]))"
  "load (logged_persistency P) i (w, l) = (case load P i w of (r, w') \<Rightarrow> (r, w', l @ [CLoad i]))"
  by (simp_all add: logged_persistency_def log_call_def)

subsection \<open>The calls of each stage\<close>

definition notify_calls :: "('w, 's, 'e, 'p) TransitContext \<Rightarrow> string \<Rightarrow> 's \<Rightarrow> 's \<Rightarrow> 'e \<Rightarrow> ('s, 'e, 'p) call list" where
  "notify_calls ctx nm frm tgt ev = (if tc_listener ctx = None then [] else [CNotify nm frm tgt ev])"

definition store_calls :: "('w, 's, 'e, 'p) TransitContext \<Rightarrow> string \<Rightarrow> 's \<Rightarrow> 'p \<Rightarrow> ('s, 'e, 'p) call list" where
  "store_calls ctx nm tgt p = (if tc_persistency ctx = None then [] else [CStore nm tgt p])"

lemma transit_failed_logged:
  assumes "transit_failed F fsm st frm ev err w = (r, fsm', st', w')"
  shows "transit_failed (logged F) fsm st frm ev err (w, l) =
    (r, fsm', st', w', l @ [CFailure ev err, CEnter frm])"
  using assms by (auto simp: transit_failed_def split: prod.splits)

lemma transit_commit_logged:
  assumes "transit_commit F g ctx kind fsm st frm target ev w = (r, fsm', st', w')"
  shows "transit_commit (logged F) g (logged_ctx ctx) kind fsm st frm target ev (w, l) =
    (r, fsm', st', w', l @ notify_calls ctx (name st) frm target ev @ [CEnter target] @
       (if r = Inr AutoTerminate then [CTerminate] else []))"
  using assms
  by (cases "tc_listener ctx")
     (auto simp: transit_commit_def notify_calls_def logged_listener_def clear_error_def
       transition_to_def Let_def split: prod.splits if_splits)

text \<open>
  The calls from step 3 on: a refused target or a failed \<open>store\<close> ends in \<open>on_enter\<close> of the
  state the machine never left, a completed transition stores, notifies and enters the target.
\<close>

definition settle_calls :: "('w, 's, 'e, 'p) TransitContext \<Rightarrow> string \<Rightarrow> 's \<Rightarrow> 'e \<Rightarrow>
    FinitomataError + TransitOutcome \<Rightarrow> 's \<Rightarrow> ('s, 'e, 'p) call list \<Rightarrow> bool" where
  "settle_calls ctx nm frm ev r tgt calls \<longleftrightarrow>
     (case r of
        Inl err \<Rightarrow> calls = [CFailure ev err, CEnter frm] \<or>
          (\<exists>x p e. tc_persistency ctx \<noteq> None \<and> calls = [CStore nm x p, CEnter frm] \<and>
             err = err_persistency (PersistencyError_display e))
      | Inr oc \<Rightarrow> \<exists>p. calls = store_calls ctx nm tgt p @ notify_calls ctx nm frm tgt ev @ [CEnter tgt] @
          (if oc = AutoTerminate then [CTerminate] else []))"

lemma transit_target_logged:
  assumes run: "transit_target F g ctx tos kind fsm st frm target ev w = (r, fsm', st', w')"
  shows "\<exists>calls. settle_calls ctx (name st) frm ev r (current st') calls \<and>
    transit_target (logged F) g (logged_ctx ctx) tos kind fsm st frm target ev (w, l) =
      (r, fsm', st', w', l @ calls)"
proof (cases "target \<in> set tos")
  case False
  with run have failed: "transit_failed F fsm st frm ev
      (err_not_allowed (fmt_state F frm) (fmt_state F target) (fmt_event F ev)) w = (r, fsm', st', w')"
    by (simp add: transit_target_def)
  from transit_failed_result [OF failed] transit_failed_logged [OF failed, of l] False show ?thesis
    by (auto simp: transit_target_def settle_calls_def)
next
  case True
  have commit: ?thesis
    if "transit_commit F g ctx kind fsm st frm target ev w1 = (r, fsm', st', w')"
      and "transit_target (logged F) g (logged_ctx ctx) tos kind fsm st frm target ev (w, l) =
        transit_commit (logged F) g (logged_ctx ctx) kind fsm st frm target ev
          (w1, l @ store_calls ctx (name st) target (payload st))" for w1
  proof -
    note res = transit_commit_result [OF that(1)]
    then have "current st' = target" by (metis moved_simps(1))
    with res show ?thesis
      unfolding that(2) transit_commit_logged [OF that(1)] by (auto simp: settle_calls_def)
  qed
  show ?thesis
  proof (cases "tc_persistency ctx")
    case None
    with True run show ?thesis
      by (intro commit [of w]) (simp_all add: transit_target_def store_calls_def)
  next
    case (Some P)
    obtain res w1 where st: "store P (name st) target (payload st) w = (res, w1)" by fastforce
    show ?thesis
    proof (cases res)
      case (Inl e)
      with True Some run st show ?thesis
        by (auto simp: transit_target_def settle_calls_def Let_def split: prod.splits)
    next
      case (Inr u)
      with True Some run st show ?thesis
        by (intro commit [of w1]) (simp_all add: transit_target_def store_calls_def)
    qed
  qed
qed

definition engine_calls :: "('s, 'e) TransitionGraph \<Rightarrow> ('w, 's, 'e, 'p) TransitContext \<Rightarrow>
    ('s, 'p) FsmState \<Rightarrow> 'e \<Rightarrow> FinitomataError + TransitOutcome \<Rightarrow> 's \<Rightarrow> ('s, 'e, 'p) call list \<Rightarrow> bool" where
  "engine_calls g ctx st ev r tgt calls \<longleftrightarrow>
     (if responds g (current st) ev
      then (\<exists>rest. calls = [CExit (current st), CTransition (current st) ev] @ rest \<and>
              settle_calls ctx (name st) (current st) ev r tgt rest)
      else calls = [])"

lemma transit_logged:
  assumes run: "transit F fsm g st ev ep ctx w = (r, fsm', st', w')"
  shows "\<exists>calls. engine_calls g ctx st ev r (current st') calls \<and>
    transit (logged F) fsm g st ev ep (logged_ctx ctx) (w, l) = (r, fsm', st', w', l @ calls)"
proof (cases "allowed g (current st) ev")
  case None
  with run show ?thesis
    by (auto simp: transit_def engine_calls_def responds_def)
next
  case (Some tk)
  obtain tos kind where al: "allowed g (current st) ev = Some (tos, kind)"
    using Some by (cases tk) auto
  then have resp: "responds g (current st) ev" by (simp add: responds_def)
  obtain f1 p1 w1 where ex: "on_exit F (current st) (fsm, payload st, w) = (f1, p1, w1)"
    using prod_cases3 by blast
  obtain res f2 p2 w2 where tr: "on_transition F (current st) ev ep (f1, p1, w1) = (res, f2, p2, w2)"
    using prod_cases4 by blast
  let ?l = "l @ [CExit (current st), CTransition (current st) ev]"
  have tgt: ?thesis
    if plain: "transit_target F g ctx tos kind f2 (st\<lparr>payload := q\<rparr>) (current st) target ev w2 =
        (r, fsm', st', w')"
      and "transit (logged F) fsm g st ev ep (logged_ctx ctx) (w, l) =
        transit_target (logged F) g (logged_ctx ctx) tos kind f2 (st\<lparr>payload := q\<rparr>) (current st) target ev
          (w2, ?l)" for q target
    using transit_target_logged [OF plain, of ?l] resp
    unfolding that(2) by (auto simp: engine_calls_def)
  show ?thesis
  proof (cases res)
    case (Ok target)
    with run al ex tr show ?thesis
      by (intro tgt [of p2 target]) (simp_all add: transit_def run_hook_def log_hook_def Let_def)
  next
    case (OkWithPayload target q)
    with run al ex tr show ?thesis
      by (intro tgt [of q target]) (simp_all add: transit_def run_hook_def log_hook_def Let_def)
  next
    case (Error err)
    with run al ex tr
    have failed: "transit_failed F f2 (st\<lparr>payload := p2\<rparr>) (current st) ev err w2 = (r, fsm', st', w')"
      by (simp add: transit_def run_hook_def)
    from Error al ex tr transit_failed_logged [OF failed, of ?l] transit_failed_result [OF failed] resp
    show ?thesis
      by (auto simp: transit_def run_hook_def log_hook_def Let_def engine_calls_def settle_calls_def)
  qed
qed

text \<open>The calls of one stage, spelled out; \<open>store_error\<close> is not among them.\<close>

lemma settle_calls_shape:
  assumes "settle_calls ctx nm frm ev r tgt rest"
  shows "(\<forall>i e. CStoreError i e \<notin> set rest) \<and>
    (case r of
       Inl err \<Rightarrow> rest = [CFailure ev err, CEnter frm] \<or>
         (\<exists>x p. tc_persistency ctx \<noteq> None \<and> stage err = Persistency \<and> rest = [CStore nm x p, CEnter frm])
     | Inr oc \<Rightarrow> \<exists>p. rest =
         (if tc_persistency ctx = None then [] else [CStore nm tgt p]) @
         (if tc_listener ctx = None then [] else [CNotify nm frm tgt ev]) @
         [CEnter tgt] @ (if oc = AutoTerminate then [CTerminate] else []))"
proof (cases r)
  case (Inl err)
  with assms show ?thesis by (auto simp: settle_calls_def)
next
  case (Inr oc)
  with assms obtain p where
    rest: "rest = store_calls ctx nm tgt p @ notify_calls ctx nm frm tgt ev @ [CEnter tgt] @
      (if oc = AutoTerminate then [CTerminate] else [])"
    by (auto simp: settle_calls_def)
  have "\<forall>i e. CStoreError i e \<notin> set rest"
    unfolding rest by (simp add: store_calls_def notify_calls_def)
  with Inr rest show ?thesis by (simp add: store_calls_def notify_calls_def)
qed

end
