(* ===== verification/Fsm_Cache.thy ===== *)
theory Fsm_Cache
  imports Fsm_Persistency
begin

section \<open>The state cache (finitomata/src/cache.rs)\<close>

text \<open>
  \<open>StateCache\<close> is a \<open>DashMap\<close> from instance names to state snapshots. Its operations are over
  the interface \<open>DashMap\<close>, and its contract follows from the laws of \<open>dash_map\<close>: \<open>update\<close>
  files the snapshot under the name in it, and every reader is a view of \<open>get\<close>.
\<close>

type_synonym ('m, 's, 'p) cache_map = "('m, string, ('s, 'p) FsmState) DashMap"

definition StateCache_new :: "('m, 's, 'p) cache_map \<Rightarrow> 'm" where
  "StateCache_new D = dm_new D"

definition StateCache_default :: "('m, 's, 'p) cache_map \<Rightarrow> 'm" where
  "StateCache_default D = StateCache_new D"

definition StateCache_get :: "('m, 's, 'p) cache_map \<Rightarrow> 'm \<Rightarrow> string \<Rightarrow> ('s, 'p) FsmState option" where
  "StateCache_get D m nm = dm_get D m nm"

definition StateCache_get_state :: "('m, 's, 'p) cache_map \<Rightarrow> 'm \<Rightarrow> string \<Rightarrow> 's option" where
  "StateCache_get_state D m nm = map_option current (dm_get D m nm)"

definition StateCache_get_payload :: "('m, 's, 'p) cache_map \<Rightarrow> 'm \<Rightarrow> string \<Rightarrow> 'p option" where
  "StateCache_get_payload D m nm = map_option payload (dm_get D m nm)"

definition StateCache_update :: "('m, 's, 'p) cache_map \<Rightarrow> ('s, 'p) FsmState \<Rightarrow> 'm \<Rightarrow> 'm" where
  "StateCache_update D st m = dm_insert D (name st) st m"

definition StateCache_remove :: "('m, 's, 'p) cache_map \<Rightarrow> string \<Rightarrow> 'm \<Rightarrow> 'm" where
  "StateCache_remove D nm m = snd (dm_remove D nm m)"

definition StateCache_contains :: "('m, 's, 'p) cache_map \<Rightarrow> 'm \<Rightarrow> string \<Rightarrow> bool" where
  "StateCache_contains D m nm = dm_contains_key D m nm"

definition StateCache_all :: "('m, 's, 'p) cache_map \<Rightarrow> 'm \<Rightarrow> (string \<times> ('s, 'p) FsmState) list" where
  "StateCache_all D m = map (\<lambda>(k, v). (k, v)) (dm_iter D m)"

definition StateCache_len :: "('m, 's, 'p) cache_map \<Rightarrow> 'm \<Rightarrow> nat" where
  "StateCache_len D m = dm_len D m"

definition StateCache_is_empty :: "('m, 's, 'p) cache_map \<Rightarrow> 'm \<Rightarrow> bool" where
  "StateCache_is_empty D m = dm_is_empty D m"

text \<open>Every cached snapshot is filed under its own name.\<close>

definition cache_inv :: "('m, 's, 'p) cache_map \<Rightarrow> 'm \<Rightarrow> bool" where
  "cache_inv D m \<longleftrightarrow> (\<forall>nm st. StateCache_get D m nm = Some st \<longrightarrow> name st = nm)"

locale state_cache = dash_map D for D :: "('m, string, ('s, 'p) FsmState) DashMap"
begin

lemma get_update:
  "StateCache_get D (StateCache_update D st m) nm =
     (if nm = name st then Some st else StateCache_get D m nm)"
  by (simp add: StateCache_get_def StateCache_update_def get_insert)

lemma get_removed:
  "StateCache_get D (StateCache_remove D nm m) nm' = (if nm' = nm then None else StateCache_get D m nm')"
  by (simp add: StateCache_get_def StateCache_remove_def get_remove)

lemma readers:
  "StateCache_get_state D m nm = map_option current (StateCache_get D m nm)"
  "StateCache_get_payload D m nm = map_option payload (StateCache_get D m nm)"
  "StateCache_contains D m nm \<longleftrightarrow> StateCache_get D m nm \<noteq> None"
  by (simp_all add: StateCache_get_state_def StateCache_get_payload_def StateCache_get_def
      StateCache_contains_def contains_key)

lemma all_entries: "(nm, st) \<in> set (StateCache_all D m) \<longleftrightarrow> StateCache_get D m nm = Some st"
  by (simp add: StateCache_all_def StateCache_get_def iter_entries)

lemma all_distinct: "distinct (map fst (StateCache_all D m))"
  by (simp add: StateCache_all_def iter_keys)

lemma len_all: "StateCache_len D m = length (StateCache_all D m)"
  "StateCache_is_empty D m \<longleftrightarrow> StateCache_len D m = 0"
  by (simp_all add: StateCache_len_def StateCache_all_def StateCache_is_empty_def len_iter is_empty_len)

lemma inv_new: "cache_inv D (StateCache_new D)"
  by (simp add: cache_inv_def StateCache_get_def StateCache_new_def get_new)

lemma inv_update: "cache_inv D m \<Longrightarrow> cache_inv D (StateCache_update D st m)"
  by (auto simp: cache_inv_def get_update)

lemma inv_remove: "cache_inv D m \<Longrightarrow> cache_inv D (StateCache_remove D nm m)"
  by (auto simp: cache_inv_def get_removed split: if_splits)

end

interpretation fmap_cache: state_cache fmap_dash_map ..

end
