(* ===== verification/Fsm_Example.thy ===== *)
theory Fsm_Example
  imports Fsm_Trace Fsm_Cache
begin

section \<open>The FSM of the engine's own tests (finitomata/src/engine.rs, mod tests)\<close>

text \<open>
  \<open>Idle --Start--> Running --Finish--> Done\<close> with a counter as payload: the machine
  \<open>engine.rs\<close> tests itself with, its callbacks and its graph. It is the concrete input of the
  witnesses, over any outside world.
\<close>

datatype test_state = StIdle | StRunning | StDone
datatype test_event = EvStart | EvFinish

instantiation test_state :: linorder
begin

fun test_state_rank :: "test_state \<Rightarrow> nat" where
  "test_state_rank StIdle = 0"
| "test_state_rank StRunning = 1"
| "test_state_rank StDone = 2"

definition less_eq_test_state :: "test_state \<Rightarrow> test_state \<Rightarrow> bool" where
  "less_eq_test_state a b \<longleftrightarrow> test_state_rank a \<le> test_state_rank b"

definition less_test_state :: "test_state \<Rightarrow> test_state \<Rightarrow> bool" where
  "less_test_state a b \<longleftrightarrow> test_state_rank a < test_state_rank b"

instance
proof
  fix a b :: test_state
  show "a \<le> b \<Longrightarrow> b \<le> a \<Longrightarrow> a = b"
    by (cases a; cases b) (simp_all add: less_eq_test_state_def)
qed (auto simp: less_eq_test_state_def less_test_state_def)

end

fun test_state_debug :: "test_state \<Rightarrow> string" where
  "test_state_debug StIdle = ''Idle''"
| "test_state_debug StRunning = ''Running''"
| "test_state_debug StDone = ''Done''"

fun test_event_debug :: "test_event \<Rightarrow> string" where
  "test_event_debug EvStart = ''Start''"
| "test_event_debug EvFinish = ''Finish''"

text \<open>The payload is \<open>Payload { count: u32 }\<close> and the struct \<open>TestFsm\<close> has no field.\<close>

type_synonym test_payload = "32 word"

fun TestFsm_on_transition :: "test_state \<Rightarrow> test_event \<Rightarrow> test_payload \<Rightarrow> unit \<times> test_payload \<times> 'w \<Rightarrow>
    (test_state, test_payload) TransitionResult \<times> unit \<times> test_payload \<times> 'w" where
  "TestFsm_on_transition frm EvStart ep (f, p, w) = (Ok StRunning, f, p + 1, w)"
| "TestFsm_on_transition frm EvFinish ep (f, p, w) = (Ok StDone, f, p, w)"

definition TestFsm :: "(unit, 'w, test_state, test_event, test_payload) Finitomata" where
  "TestFsm = default_callbacks TestFsm_on_transition test_state_debug test_event_debug"

definition test_graph :: "(test_state, test_event) TransitionGraph" where
  "test_graph = TransitionGraph_new StIdle {|StDone|}
     [\<lparr>t_from = StIdle, t_to = [StRunning], t_event = EvStart, t_kind = Normal\<rparr>,
      \<lparr>t_from = StRunning, t_to = [StDone], t_event = EvFinish, t_kind = Normal\<rparr>]"

lemma TestFsm_simps [simp]:
  "on_transition TestFsm = TestFsm_on_transition"
  "on_start TestFsm = (\<lambda>x. x)" "on_enter TestFsm s = (\<lambda>x. x)" "on_exit TestFsm s = (\<lambda>x. x)"
  "on_failure TestFsm e er = (\<lambda>x. x)" "on_timer TestFsm s = (\<lambda>x. (None, x))"
  "on_terminate TestFsm = (\<lambda>x. x)"
  "fmt_state TestFsm = test_state_debug" "fmt_event TestFsm = test_event_debug"
  by (simp_all add: TestFsm_def default_callbacks_def)

lemma test_graph_inv [simp]: "graph_inv test_graph"
  by (simp add: test_graph_def graph_inv_new)

lemma test_graph_fields [simp]:
  "initial test_graph = StIdle" "finals test_graph = {|StDone|}"
  by (simp_all add: test_graph_def)

lemma test_graph_transitions:
  "transitions test_graph =
     [\<lparr>t_from = StIdle, t_to = [StRunning], t_event = EvStart, t_kind = Normal\<rparr>,
      \<lparr>t_from = StRunning, t_to = [StDone], t_event = EvFinish, t_kind = Normal\<rparr>]"
  by (simp add: test_graph_def)

lemma test_graph_allowed [simp]:
  "allowed test_graph StIdle EvStart = Some ([StRunning], Normal)"
  "allowed test_graph StIdle EvFinish = None"
  "allowed test_graph StRunning EvStart = None"
  "allowed test_graph StRunning EvFinish = Some ([StDone], Normal)"
  "allowed test_graph StDone ev = None"
  by (simp_all add: allowed_scan test_graph_transitions)

end
