(* ===== verification/Fsm_Durable.thy ===== *)
theory Fsm_Durable
  imports Fsm_Example
begin

section \<open>What a completed transition has stored\<close>

text \<open>
  The engine with a backend that keeps the \<open>persistency\<close> contract and with callbacks that do not
  touch the backend's entries themselves. A completed transition has stored the state it moved
  to, with the payload as it was before \<open>on_enter\<close>; an aborted one has stored nothing, unless it
  was the backend that failed.
\<close>

definition hook_keeps :: "('w \<Rightarrow> 'x) \<Rightarrow> ('f, 'p, 'w) hook \<Rightarrow> bool" where
  "hook_keeps view h \<longleftrightarrow> (\<forall>f p w. view (snd (snd (h (f, p, w)))) = view w)"

definition callbacks_keep :: "('w \<Rightarrow> 'x) \<Rightarrow> ('f, 'w, 's, 'e, 'p) Finitomata \<Rightarrow> bool" where
  "callbacks_keep view F \<longleftrightarrow>
     (\<forall>s e ep. hook_keeps view (\<lambda>x. snd (on_transition F s e ep x))) \<and> hook_keeps view (on_start F) \<and>
     (\<forall>s. hook_keeps view (on_enter F s)) \<and> (\<forall>s. hook_keeps view (on_exit F s)) \<and>
     (\<forall>e er. hook_keeps view (on_failure F e er)) \<and> (\<forall>s. hook_keeps view (\<lambda>x. snd (on_timer F s x))) \<and>
     hook_keeps view (on_terminate F)"

definition listener_keeps :: "('w \<Rightarrow> 'x) \<Rightarrow> ('w, 's, 'e) Listener option \<Rightarrow> bool" where
  "listener_keeps view L \<longleftrightarrow>
     (case L of None \<Rightarrow> True | Some l \<Rightarrow> (\<forall>nm frm tgt ev w. view (l nm frm tgt ev w) = view w))"

text \<open>\<open>on_enter\<close> and \<open>on_terminate\<close> leave the payload as \<open>on_transition\<close> made it.\<close>

definition entry_keeps_payload :: "('f, 'w, 's, 'e, 'p) Finitomata \<Rightarrow> bool" where
  "entry_keeps_payload F \<longleftrightarrow>
     (\<forall>s f p w. fst (snd (on_enter F s (f, p, w))) = p) \<and> (\<forall>f p w. fst (snd (on_terminate F (f, p, w))) = p)"

lemma hook_keepsD: "hook_keeps view h \<Longrightarrow> h (f, p, w) = (f', p', w') \<Longrightarrow> view w' = view w"
  by (metis hook_keeps_def snd_conv)

lemma run_hook_keeps: "hook_keeps view h \<Longrightarrow> run_hook h fsm st w = (fsm', st', w') \<Longrightarrow> view w' = view w"
  by (auto simp: run_hook_def split: prod.splits dest: hook_keepsD)

lemma callbacks_keepD:
  assumes "callbacks_keep view F"
  shows "hook_keeps view (on_start F)" "hook_keeps view (on_enter F s)" "hook_keeps view (on_exit F s)"
    "hook_keeps view (on_failure F e er)" "hook_keeps view (on_terminate F)"
    "on_transition F s e ep (f, p, w) = (res, f', p', w') \<Longrightarrow> view w' = view w"
    "on_timer F s (f, p, w) = (res', f', p', w') \<Longrightarrow> view w' = view w"
proof -
  have tr: "hook_keeps view (\<lambda>x. snd (on_transition F s e ep x))"
    and ti: "hook_keeps view (\<lambda>x. snd (on_timer F s x))"
    using assms by (simp_all add: callbacks_keep_def)
  show "on_transition F s e ep (f, p, w) = (res, f', p', w') \<Longrightarrow> view w' = view w"
    by (rule hook_keepsD [OF tr, of f p w f' p' w']) simp
  show "on_timer F s (f, p, w) = (res', f', p', w') \<Longrightarrow> view w' = view w"
    by (rule hook_keepsD [OF ti, of f p w f' p' w']) simp
qed (use assms in \<open>simp_all add: callbacks_keep_def\<close>)

lemma transit_failed_keeps:
  assumes "callbacks_keep view F" "transit_failed F fsm st frm ev err w = (r, fsm', st', w')"
  shows "view w' = view w"
  using assms(2)
  by (auto simp: transit_failed_def Let_def split: prod.splits
      dest!: run_hook_keeps [OF callbacks_keepD(2) [OF assms(1)]]
        run_hook_keeps [OF callbacks_keepD(4) [OF assms(1)]])

lemma transit_commit_keeps:
  assumes "callbacks_keep view F" "listener_keeps view (tc_listener ctx)"
    and "transit_commit F g ctx kind fsm st frm target ev w = (r, fsm', st', w')"
  shows "view w' = view w"
  using assms(2,3)
  by (cases "tc_listener ctx")
     (auto simp: transit_commit_def Let_def listener_keeps_def split: prod.splits if_splits
       dest!: run_hook_keeps [OF callbacks_keepD(2) [OF assms(1)]]
         run_hook_keeps [OF callbacks_keepD(5) [OF assms(1)]])

lemma transit_commit_payload:
  assumes "entry_keeps_payload F" "transit_commit F g ctx kind fsm st frm target ev w = (r, fsm', st', w')"
  shows "payload st' = payload st"
  using assms
  by (auto simp: transit_commit_def Let_def entry_keeps_payload_def run_hook_def clear_error_def
      transition_to_def split: prod.splits if_splits) (metis fst_conv snd_conv)+

locale persistent_engine = persistency P stored
  for P :: "('w, 's, 'p) Persistency" and stored +
  fixes F :: "('f, 'w, 's, 'e, 'p) Finitomata" and ctx :: "('w, 's, 'e, 'p) TransitContext"
  assumes backend: "tc_persistency ctx = Some P"
    and callbacks: "callbacks_keep stored F"
    and listener: "listener_keeps stored (tc_listener ctx)"
begin

lemma target_stores:
  assumes run: "transit_target F g ctx tos kind fsm st frm target ev w = (r, fsm', st', w')"
  shows "case r of
      Inl err \<Rightarrow> stored w' = stored w \<or> (\<exists>e s p w1 w2. err = err_persistency (PersistencyError_display e) \<and>
        store P (name st) s p w1 = (Inl e, w2) \<and> stored w1 = stored w \<and> stored w' = stored w2)
    | Inr oc \<Rightarrow> \<exists>lc p. stored w' = (stored w)(name st \<mapsto> (lc, current st', p)) \<and>
        (entry_keeps_payload F \<longrightarrow> p = payload st')"
proof (cases "target \<in> set tos")
  case False
  with run have failed: "transit_failed F fsm st frm ev
      (err_not_allowed (fmt_state F frm) (fmt_state F target) (fmt_event F ev)) w = (r, fsm', st', w')"
    by (simp add: transit_target_def)
  from transit_failed_result [OF failed] transit_failed_keeps [OF callbacks failed] show ?thesis by auto
next
  case True
  obtain res w1 where st: "store P (name st) target (payload st) w = (res, w1)" by fastforce
  show ?thesis
  proof (cases res)
    case (Inl e)
    with True run st backend have r: "r = Inl (err_persistency (PersistencyError_display e))"
      by (auto simp: transit_target_def Let_def split: prod.splits)
    from Inl True run st backend have "stored w' = stored w1"
      by (auto simp: transit_target_def Let_def split: prod.splits
          dest!: run_hook_keeps [OF callbacks_keepD(2) [OF callbacks]])
    with r st Inl show ?thesis by simp blast
  next
    case (Inr u)
    with True run st backend
    have commit: "transit_commit F g ctx kind fsm st frm target ev w1 = (r, fsm', st', w')"
      by (simp add: transit_target_def)
    obtain lc where "stored w1 = (stored w)(name st \<mapsto> (lc, target, payload st))"
      using store_result [of "name st" target "payload st" w w1] st Inr by auto
    moreover have "current st' = target"
      using transit_commit_result [OF commit] by (metis moved_simps(1))
    ultimately show ?thesis
      using transit_commit_result [OF commit] transit_commit_keeps [OF callbacks listener commit]
        transit_commit_payload [OF _ commit] by auto
  qed
qed

lemma engine_stores:
  assumes run: "transit F fsm g st ev ep ctx w = (r, fsm', st', w')"
  shows "case r of
      Inl err \<Rightarrow> stored w' = stored w \<or> (\<exists>e s p w1 w2. err = err_persistency (PersistencyError_display e) \<and>
        store P (name st) s p w1 = (Inl e, w2) \<and> stored w1 = stored w \<and> stored w' = stored w2)
    | Inr oc \<Rightarrow> if oc = SoftSkipped then stored w' = stored w
        else \<exists>lc p. stored w' = (stored w)(name st \<mapsto> (lc, current st', p)) \<and>
          (entry_keeps_payload F \<longrightarrow> p = payload st')"
proof (cases "allowed g (current st) ev")
  case None
  with run show ?thesis by (auto simp: transit_def split: if_splits)
next
  case (Some tk)
  obtain tos kind where al: "allowed g (current st) ev = Some (tos, kind)"
    using Some by (cases tk) auto
  obtain f1 p1 w1 where ex: "on_exit F (current st) (fsm, payload st, w) = (f1, p1, w1)"
    using prod_cases3 by blast
  obtain res f2 p2 w2 where tr: "on_transition F (current st) ev ep (f1, p1, w1) = (res, f2, p2, w2)"
    using prod_cases4 by blast
  have w2: "stored w2 = stored w"
    using hook_keepsD [OF callbacks_keepD(3) [OF callbacks] ex] callbacks_keepD(6) [OF callbacks tr] by simp
  have tgt: ?thesis
    if plain: "transit_target F g ctx tos kind f2 (st\<lparr>payload := q\<rparr>) (current st) target ev w2 =
        (r, fsm', st', w')" for q target
    using target_stores [OF plain] transit_target_result [OF plain] w2
    by (auto split: sum.splits)
  show ?thesis
  proof (cases res)
    case (Ok target)
    with run al ex tr show ?thesis
      by (intro tgt [of p2 target]) (simp add: transit_def run_hook_def)
  next
    case (OkWithPayload target q)
    with run al ex tr show ?thesis
      by (intro tgt [of q target]) (simp add: transit_def run_hook_def)
  next
    case (Error err)
    with run al ex tr
    have failed: "transit_failed F f2 (st\<lparr>payload := p2\<rparr>) (current st) ev err w2 = (r, fsm', st', w')"
      by (simp add: transit_def run_hook_def)
    from transit_failed_result [OF failed] transit_failed_keeps [OF callbacks failed] w2
    show ?thesis by auto
  qed
qed

end

text \<open>The contract holds for the test machine on the in-memory backend.\<close>

definition test_ctx :: "((string, (test_state, test_payload) persisted) fmap, test_state, test_event, test_payload)
    TransitContext" where
  "test_ctx = \<lparr>tc_persistency = Some (InMemoryPersistency fmap_dash_map), tc_listener = Some NoopListener,
     tc_auto_terminate = True\<rparr>"

lemma TestFsm_on_transition_keeps: "snd (snd (snd (TestFsm_on_transition s e ep (f, p, w)))) = w"
  by (cases e) simp_all

lemma TestFsm_keeps: "callbacks_keep view TestFsm"
  by (simp add: callbacks_keep_def hook_keeps_def TestFsm_on_transition_keeps)

lemma TestFsm_entry: "entry_keeps_payload TestFsm"
  by (simp add: entry_keeps_payload_def)

interpretation test_engine: persistent_engine "InMemoryPersistency fmap_dash_map" "dm_get fmap_dash_map"
    TestFsm test_ctx
  by unfold_locales
     (simp_all add: test_ctx_def TestFsm_keeps listener_keeps_def NoopListener_def)

end
