(* ===== verification/Props_Engine.thy ===== *)
theory Props_Engine
  imports Fsm_Durable
begin

section \<open>Properties of one transition\<close>

text \<open>
  What \<open>engine.rs\<close> promises of a single call of \<open>transit\<close>, for every implementation of the
  callbacks, the backend and the listener. The witnesses run the test machine of \<open>engine.rs\<close> on
  the in-memory backend.
\<close>

subsection \<open>Runs of the test machine\<close>

definition test_entry :: "(test_state, test_payload) FsmState" where
  "test_entry = FsmState_new ''fsm'' StIdle 0"

lemma test_entry_fields [simp]:
  "current test_entry = StIdle" "payload test_entry = 0" "name test_entry = ''fsm''"
  by (simp_all add: test_entry_def FsmState_new_def)

lemma test_memory_store [simp]:
  "store (InMemoryPersistency fmap_dash_map) i s p m = (Inr (), fmupd i (Running, s, p) m)"
  by (simp add: InMemoryPersistency_def fmap_dash_map_def)

lemma test_start:
  "transit TestFsm () test_graph test_entry EvStart 0 test_ctx fmempty =
     (Inr Transitioned, (), moved Transitioned StRunning 1 test_entry,
      fmupd ''fsm'' (Running, StRunning, 1) fmempty)"
  by (simp add: transit_def transit_target_def transit_commit_def run_hook_def test_ctx_def
      NoopListener_def Let_def clear_error_def transition_to_def is_final_def moved_def)

lemma test_finish_refused:
  "transit TestFsm () test_graph test_entry EvFinish 0 test_ctx fmempty =
     (Inl (err_not_responds ''Idle'' ''Finish''), (), test_entry, fmempty)"
  by (simp add: transit_def test_graph_transitions)

subsection \<open>A completed transition\<close>

text \<open>
  C1: a call of \<open>transit\<close> that succeeds either skipped a soft event its state does not answer,
  with no effect at all, or moved along the first declared transition of its state for the event:
  the new state is one of that transition's targets, the outcome is the one its kind, the final
  states and the auto-terminate flag give, the history has grown by the new state, the lifecycle
  is \<open>Running\<close> (\<open>Terminated\<close> after auto-termination) and the recorded error is cleared.
\<close>

theorem transit_success:
  assumes "graph_inv g" "transit F fsm g st ev ep ctx w = (Inr oc, fsm', st', w')"
  shows "(if oc = SoftSkipped
     then \<not> responds g (current st) ev \<and> soft_event g ev \<and> (fsm', st', w') = (fsm, st, w)
     else (\<exists>t. find (\<lambda>t. t_from t = current st \<and> t_event t = ev) (transitions g) = Some t \<and>
       current st' \<in> set (t_to t) \<and> oc = outcome g (tc_auto_terminate ctx) (t_kind t) (current st') \<and>
       st' = moved oc (current st') (payload st') st))"
proof (cases "oc = SoftSkipped")
  case True
  note step = transit_refines_step [OF assms(2)]
  from step True have al: "allowed g (current st) ev = None" "soft_event g ev" "st' = st"
    by (auto elim: fsm_step_InrE)
  with assms(2) True show ?thesis
    by (auto simp: responds_def transit_def split: if_splits)
next
  case False
  from fsm_step_moved(2,3) [OF assms(1) transit_refines_step [OF assms(2)] False]
  show ?thesis using False by (auto simp: allowed_scan [OF assms(1)])
qed

theorem transit_success_witness:
  "(\<exists>t. find (\<lambda>t. t_from t = StIdle \<and> t_event t = EvStart) (transitions test_graph) = Some t \<and>
     StRunning \<in> set (t_to t))"
  using transit_success [OF test_graph_inv test_start] by auto

text \<open>
  C2: a call of \<open>transit\<close> that fails leaves the state, the history, the lifecycle and the name
  where they were. If the state does not answer the event nothing at all has changed, neither the
  user's struct nor the payload nor the world, and the error names the state and the event;
  otherwise the error is the one recorded in \<open>last_error\<close>.
\<close>

theorem transit_error:
  assumes "transit F fsm g st ev ep ctx w = (Inl err, fsm', st', w')"
  shows "current st' = current st \<and> history st' = history st \<and> lifecycle st' = lifecycle st \<and>
    name st' = name st \<and>
    (if responds g (current st) ev then last_error st' = Some err
     else (fsm', st', w') = (fsm, st, w) \<and> \<not> soft_event g ev \<and>
       err = err_not_responds (fmt_state F (current st)) (fmt_event F ev))"
proof (cases "responds g (current st) ev")
  case True
  note step = transit_refines_step [OF assms]
  from True fsm_step_error [OF step] fsm_step_frame(1) [OF step] show ?thesis by simp
next
  case False
  then have "allowed g (current st) ev = None" unfolding responds_def by blast
  with assms False show ?thesis
    by (auto simp: transit_def soft_event_def list_ex_iff split: if_splits)
qed

theorem transit_error_witness:
  "\<not> responds test_graph StIdle EvFinish \<and> \<not> soft_event test_graph EvFinish"
  using transit_error [OF test_finish_refused] by (simp add: responds_def)

text \<open>What \<open>transit\<close> answers once \<open>on_transition\<close> has named a target and a payload.\<close>

definition settled ::
    "('f, 'w, 's, 'e, 'p) Finitomata \<Rightarrow> ('s, 'e) TransitionGraph \<Rightarrow> ('w, 's, 'e, 'p) TransitContext \<Rightarrow>
     ('s, 'p) FsmState \<Rightarrow> 's list \<Rightarrow> EventKind \<Rightarrow> 'e \<Rightarrow> 'w \<Rightarrow> 's \<Rightarrow> 'p \<Rightarrow> FinitomataError + TransitOutcome" where
  "settled F g ctx st tos kind ev w target q =
     (if target \<notin> set tos then
        Inl (err_not_allowed (fmt_state F (current st)) (fmt_state F target) (fmt_event F ev))
      else (case tc_persistency ctx of
          None \<Rightarrow> Inr (outcome g (tc_auto_terminate ctx) kind target)
        | Some P \<Rightarrow> (case fst (store P (name st) target q w) of
            Inl e \<Rightarrow> Inl (err_persistency (PersistencyError_display e))
          | Inr u \<Rightarrow> Inr (outcome g (tc_auto_terminate ctx) kind target))))"

lemma transit_failed_fst: "fst (transit_failed F f s frm e err v) = Inl err"
  by (simp add: transit_failed_def run_hook_def Let_def split: prod.split)

lemma transit_commit_fst:
  "fst (transit_commit F g ctx kind f s frm target e v) = Inr (outcome g (tc_auto_terminate ctx) kind target)"
  by (simp add: transit_commit_def run_hook_def outcome_def Let_def split: prod.split)

lemma transit_target_fst:
  "fst (transit_target F g ctx tos kind f2 (st\<lparr>payload := q\<rparr>) (current st) target ev w) =
     settled F g ctx st tos kind ev w target q"
  by (auto simp: settled_def transit_target_def transit_failed_fst transit_commit_fst run_hook_def Let_def
      split: option.split prod.split sum.split)

text \<open>
  C3: the result of \<open>transit\<close> on an event its state answers, given what \<open>on_exit\<close> and
  \<open>on_transition\<close> did: an error of the callback is returned as it is; a target the graph does not
  allow is refused with \<open>NotAllowed\<close> whatever the backend would have said; a failure of \<open>store\<close>
  is returned as a persistency error; and otherwise the transition completes, with the payload
  that \<open>on_transition\<close> left or returned handed to \<open>store\<close>.
\<close>

theorem transit_result:
  assumes al: "allowed g (current st) ev = Some (tos, kind)"
    and ex: "on_exit F (current st) (fsm, payload st, w) = (f1, p1, w1)"
    and tr: "on_transition F (current st) ev ep (f1, p1, w1) = (res, f2, p2, w2)"
  shows "fst (transit F fsm g st ev ep ctx w) =
    (case res of
       Error err \<Rightarrow> Inl err
     | Ok target \<Rightarrow> settled F g ctx st tos kind ev w2 target p2
     | OkWithPayload target q \<Rightarrow> settled F g ctx st tos kind ev w2 target q)"
  using al ex tr transit_target_fst [where g = g and ctx = ctx and tos = tos and kind = kind and st = st and w = w2]
  by (auto simp: transit_def run_hook_def transit_failed_fst split: TransitionResult.split)

theorem transit_result_witness:
  "fst (transit TestFsm () test_graph test_entry EvStart 0 test_ctx fmempty) = Inr Transitioned"
  using transit_result [of test_graph test_entry EvStart "[StRunning]" Normal TestFsm "()" fmempty
      "()" 0 fmempty 0 "Ok StRunning" "()" 1 fmempty test_ctx]
  by (simp add: test_ctx_def outcome_def settled_def is_final_def)

subsection \<open>Callbacks and persistence\<close>

text \<open>
  C4: the calls \<open>transit\<close> makes, in order, seen by callbacks, backend and listener that log what
  they are asked and otherwise behave as before. On an event the state does not answer: none.
  Otherwise \<open>on_exit\<close> of the old state and \<open>on_transition\<close> come first; on success the backend
  stores the new state once, the listener is told, \<open>on_enter\<close> of the new state follows, and
  \<open>on_terminate\<close> exactly on auto-termination; on failure either \<open>on_failure\<close>, or a refused
  \<open>store\<close> without it, and then \<open>on_enter\<close> of the state that was not left. \<open>store_error\<close> is never
  called.
\<close>

theorem transit_calls:
  assumes "transit F fsm g st ev ep ctx w = (r, fsm', st', w')"
  shows "\<exists>calls. transit (logged F) fsm g st ev ep (logged_ctx ctx) (w, l) = (r, fsm', st', w', l @ calls) \<and>
    (\<forall>i e. CStoreError i e \<notin> set calls) \<and>
    (if \<not> responds g (current st) ev then calls = []
     else \<exists>rest. calls = [CExit (current st), CTransition (current st) ev] @ rest \<and>
       (case r of
          Inl err \<Rightarrow> rest = [CFailure ev err, CEnter (current st)] \<or>
            (\<exists>x p. tc_persistency ctx \<noteq> None \<and> stage err = Persistency \<and>
               rest = [CStore (name st) x p, CEnter (current st)])
        | Inr oc \<Rightarrow> \<exists>p. rest =
            (if tc_persistency ctx = None then [] else [CStore (name st) (current st') p]) @
            (if tc_listener ctx = None then [] else [CNotify (name st) (current st) (current st') ev]) @
            [CEnter (current st')] @ (if oc = AutoTerminate then [CTerminate] else [])))"
proof -
  from transit_logged [OF assms, of l] obtain calls where
    calls: "engine_calls g ctx st ev r (current st') calls" and
    run: "transit (logged F) fsm g st ev ep (logged_ctx ctx) (w, l) = (r, fsm', st', w', l @ calls)"
    by blast
  show ?thesis
  proof (cases "responds g (current st) ev")
    case False
    with calls run show ?thesis by (auto simp: engine_calls_def)
  next
    case True
    with calls obtain rest where
      c: "calls = [CExit (current st), CTransition (current st) ev] @ rest" and
      settle: "settle_calls ctx (name st) (current st) ev r (current st') rest"
      by (auto simp: engine_calls_def)
    from settle_calls_shape [OF settle] True c run show ?thesis by (intro exI [of _ calls]) simp
  qed
qed

theorem transit_calls_witness:
  "\<exists>calls p. snd (snd (snd (snd (transit (logged TestFsm) () test_graph test_entry EvStart 0
       (logged_ctx test_ctx) (fmempty, []))))) = calls \<and>
     calls = [CExit StIdle, CTransition StIdle EvStart, CStore ''fsm'' StRunning p,
       CNotify ''fsm'' StIdle StRunning EvStart, CEnter StRunning]"
  using transit_calls [OF test_start, of "[]"]
  by (auto simp: responds_def) (auto simp: test_ctx_def)

text \<open>
  C5: what the backend holds after \<open>transit\<close>, for a backend that keeps its contract and callbacks
  that leave its entries alone. A completed transition has stored, under the name of the machine,
  the state it moved to, and if \<open>on_enter\<close> and \<open>on_terminate\<close> leave the payload alone also the
  payload it ended with; no other entry changed. A skipped one has changed no entry. A failed one has
  changed no entry either, or its error is that of a call of \<open>store\<close> for the machine's name that found
  the entries as they were before, and the entries are as this failing call has left them.
\<close>

theorem transit_stores:
  assumes "persistent_engine P stored F ctx" "transit F fsm g st ev ep ctx w = (r, fsm', st', w')"
  shows "case r of
      Inl err \<Rightarrow> stored w' = stored w \<or> (\<exists>e s p w1 w2. err = err_persistency (PersistencyError_display e) \<and>
        store P (name st) s p w1 = (Inl e, w2) \<and> stored w1 = stored w \<and> stored w' = stored w2)
    | Inr oc \<Rightarrow> if oc = SoftSkipped then stored w' = stored w
        else \<exists>lc p. stored w' = (stored w)(name st' \<mapsto> (lc, current st', p)) \<and>
          (entry_keeps_payload F \<longrightarrow> p = payload st')"
proof -
  have "name st' = name st" using transit_refines_step [OF assms(2)] by (rule fsm_step_frame)
  with persistent_engine.engine_stores [OF assms] show ?thesis by (simp split: sum.splits)
qed

theorem transit_stores_witness:
  "\<exists>lc. dm_get fmap_dash_map (fmupd ''fsm'' (Running, StRunning, 1::test_payload) fmempty) =
     (dm_get fmap_dash_map fmempty)(''fsm'' \<mapsto> (lc, StRunning, 1))"
  using transit_stores [OF test_engine.persistent_engine_axioms test_start] TestFsm_entry by auto

end
