(* ===== verification/Fsm_Actor.thy ===== *)
theory Fsm_Actor
  imports Fsm_Durable
begin

section \<open>The FSM actor (finitomata/src/supervisor.rs, FsmActor)\<close>

text \<open>
  The actor that owns one FSM: its hooks \<open>started\<close>, \<open>handle_message\<close> and \<open>stopped\<close>, and
  \<open>do_transition\<close>, which follows a chain of hard events until it ends. The actor runs on
  \<open>joerl\<close>, which is not part of the repository. What the handlers ask of it (stop, send after a
  delay, register a name) returns nothing they use, so the model records these requests in order;
  the pid that \<open>ctx.pid()\<close> answers is an argument. The chain of hard events may be infinite:
  \<open>do_transition\<close> is a partial function and \<open>None\<close> is that it does not return.
\<close>

type_synonym ActorSystem = nat \<comment> \<open>an \<open>Arc<ActorSystem>\<close>, by identity\<close>
type_synonym Pid = nat
type_synonym Duration = nat

datatype request =
    ReqStopNormal
  | ReqSendTick Pid Duration
  | ReqUnregister ActorSystem string
  | ReqRegister ActorSystem string Pid

datatype ('e, 'p) Message =
    TransitionMsg 'e 'p
  | TimerTickMsg
  | ShutdownMsg
  | OtherMsg

record ('f, 'w, 's, 'e, 'p) FsmActor =
  fa_fsm :: 'f
  fa_state :: "('s, 'p) FsmState"
  fa_graph :: "('s, 'e) TransitionGraph"
  fa_persistency :: "('w, 's, 'p) Persistency option"
  fa_listener :: "('w, 's, 'e) Listener option"
  fa_auto_terminate :: bool
  fa_timer_interval :: "Duration option"
  fa_name :: string
  fa_recover_on_start :: bool
  fa_system :: "ActorSystem option"

text \<open>What the handlers act on outside the actor: the shared cache, the world, the requests.\<close>

record ('m, 'w) env =
  en_cache :: 'm
  en_world :: 'w
  en_requests :: "request list"

definition env_request :: "request \<Rightarrow> ('m, 'w) env \<Rightarrow> ('m, 'w) env" where
  "env_request q en = en\<lparr>en_requests := en_requests en @ [q]\<rparr>"

definition env_cache_update :: "('m, 's, 'p) cache_map \<Rightarrow> ('s, 'p) FsmState \<Rightarrow> ('m, 'w) env \<Rightarrow> ('m, 'w) env" where
  "env_cache_update D st en = en\<lparr>en_cache := StateCache_update D st (en_cache en)\<rparr>"

text \<open>A callback of the FSM on the actor's own state.\<close>

definition actor_hook :: "('f, 'p, 'w) hook \<Rightarrow> ('f, 'w, 's, 'e, 'p) FsmActor \<Rightarrow> ('m, 'w) env \<Rightarrow>
    ('f, 'w, 's, 'e, 'p) FsmActor \<times> ('m, 'w) env" where
  "actor_hook h a en =
     (case run_hook h (fa_fsm a) (fa_state a) (en_world en) of
        (fsm, st, w) \<Rightarrow> (a\<lparr>fa_fsm := fsm, fa_state := st\<rparr>, en\<lparr>en_world := w\<rparr>))"

definition set_lifecycle :: "Lifecycle \<Rightarrow> ('f, 'w, 's, 'e, 'p) FsmActor \<Rightarrow> ('f, 'w, 's, 'e, 'p) FsmActor" where
  "set_lifecycle l a = a\<lparr>fa_state := (fa_state a)\<lparr>lifecycle := l\<rparr>\<rparr>"

text \<open>The first hard event of a state: \<open>events_for(..).into_iter().find(|(_, kind)| *kind == Hard)\<close>.\<close>

definition hard_event :: "('s, 'e) TransitionGraph \<Rightarrow> 's \<Rightarrow> 'e option" where
  "hard_event g s = map_option fst (find (\<lambda>(e, kind). kind = Hard) (events_for g s))"

definition actor_ctx :: "('f, 'w, 's, 'e, 'p) FsmActor \<Rightarrow> ('w, 's, 'e, 'p) TransitContext" where
  "actor_ctx a = \<lparr>tc_persistency = fa_persistency a, tc_listener = fa_listener a,
     tc_auto_terminate = fa_auto_terminate a\<rparr>"

subsection \<open>do_transition\<close>

partial_function (option) do_transition ::
    "('f, 'w, 's, 'e, 'p) Finitomata \<Rightarrow> ('m, 's, 'p) cache_map \<Rightarrow> ('f, 'w, 's, 'e, 'p) FsmActor \<Rightarrow>
     'e \<Rightarrow> 'p \<Rightarrow> ('m, 'w) env \<Rightarrow> (('f, 'w, 's, 'e, 'p) FsmActor \<times> ('m, 'w) env) option" where
  "do_transition F D a ev ep en =
     (case transit F (fa_fsm a) (fa_graph a) (fa_state a) ev ep (actor_ctx a) (en_world en) of
        (r, fsm, st, w) \<Rightarrow>
          (let a = a\<lparr>fa_fsm := fsm, fa_state := st\<rparr>;
               en = en\<lparr>en_world := w\<rparr>
           in case r of
                Inl err \<Rightarrow> Some (a, env_cache_update D st en)
              | Inr oc \<Rightarrow>
                  if oc = AutoTerminate then
                    Some (a, env_request ReqStopNormal (env_cache_update D st en))
                  else if oc = HardContinue then
                    (case hard_event (fa_graph a) (current st) of
                       None \<Rightarrow> Some (a, env_cache_update D st en)
                     | Some evt \<Rightarrow> do_transition F D a evt (payload st) (env_cache_update D st en))
                  else Some (a, env_cache_update D st en)))"

subsection \<open>The hooks of the actor\<close>

definition handle_timer_tick ::
    "('f, 'w, 's, 'e, 'p) Finitomata \<Rightarrow> ('m, 's, 'p) cache_map \<Rightarrow> ('f, 'w, 's, 'e, 'p) FsmActor \<Rightarrow>
     ('m, 'w) env \<Rightarrow> (('f, 'w, 's, 'e, 'p) FsmActor \<times> ('m, 'w) env) option" where
  "handle_timer_tick F D a en =
     (case on_timer F (current (fa_state a)) (fa_fsm a, payload (fa_state a), en_world en) of
        (res, fsm, p, w) \<Rightarrow>
          (let a = a\<lparr>fa_fsm := fsm, fa_state := (fa_state a)\<lparr>payload := p\<rparr>\<rparr>;
               en = en\<lparr>en_world := w\<rparr>
           in case res of
                None \<Rightarrow> Some (a, en)
              | Some (ev, ep) \<Rightarrow> do_transition F D a ev ep en))"

definition recover ::
    "('f, 'w, 's, 'e, 'p) Finitomata \<Rightarrow> ('m, 's, 'p) cache_map \<Rightarrow> 's \<Rightarrow> 'p \<Rightarrow>
     ('f, 'w, 's, 'e, 'p) FsmActor \<Rightarrow> ('m, 'w) env \<Rightarrow> ('f, 'w, 's, 'e, 'p) FsmActor \<times> ('m, 'w) env" where
  "recover F D recovered_state recovered_payload a en =
     (let a = a\<lparr>fa_state := FsmState_new (fa_name a) recovered_state recovered_payload\<rparr>;
          a = set_lifecycle Loaded a;
          (a, en) = actor_hook (on_start F) a en;
          (a, en) = actor_hook (on_enter F (current (fa_state a))) a en;
          a = set_lifecycle Running a
      in (a, env_cache_update D (fa_state a) en))"

definition started_recover ::
    "('f, 'w, 's, 'e, 'p) Finitomata \<Rightarrow> ('m, 's, 'p) cache_map \<Rightarrow> Pid \<Rightarrow> ('f, 'w, 's, 'e, 'p) FsmActor \<Rightarrow>
     ('m, 'w) env \<Rightarrow> ('f, 'w, 's, 'e, 'p) FsmActor \<times> ('m, 'w) env" where
  "started_recover F D pid a en =
     (if \<not> fa_recover_on_start a then (a, en)
      else
        (let (a, en) =
               (case fa_persistency a of
                  None \<Rightarrow> (a, en)
                | Some persist \<Rightarrow>
                    (case load persist (fa_name a) (en_world en) of
                       (res, w) \<Rightarrow>
                         (let en = en\<lparr>en_world := w\<rparr>
                          in case res of
                               Inr (Some (lc, recovered_state, recovered_payload)) \<Rightarrow>
                                 recover F D recovered_state recovered_payload a en
                             | _ \<Rightarrow> (a, en))))
         in (a, (case fa_system a of
                   None \<Rightarrow> en
                 | Some sys \<Rightarrow> env_request (ReqRegister sys (fa_name a) pid)
                                (env_request (ReqUnregister sys (fa_name a)) en)))))"

definition started ::
    "('f, 'w, 's, 'e, 'p) Finitomata \<Rightarrow> ('m, 's, 'p) cache_map \<Rightarrow> Pid \<Rightarrow> ('f, 'w, 's, 'e, 'p) FsmActor \<Rightarrow>
     ('m, 'w) env \<Rightarrow> (('f, 'w, 's, 'e, 'p) FsmActor \<times> ('m, 'w) env) option" where
  "started F D pid a en =
     (let (a, en) = started_recover F D pid a en;
          en = (case fa_timer_interval a of
                  None \<Rightarrow> en | Some interval \<Rightarrow> env_request (ReqSendTick pid interval) en)
      in case hard_event (fa_graph a) (current (fa_state a)) of
           None \<Rightarrow> Some (a, en)
         | Some evt \<Rightarrow> do_transition F D a evt (payload (fa_state a)) en)"

definition handle_message ::
    "('f, 'w, 's, 'e, 'p) Finitomata \<Rightarrow> ('m, 's, 'p) cache_map \<Rightarrow> Pid \<Rightarrow> ('e, 'p) Message \<Rightarrow>
     ('f, 'w, 's, 'e, 'p) FsmActor \<Rightarrow> ('m, 'w) env \<Rightarrow>
     (('f, 'w, 's, 'e, 'p) FsmActor \<times> ('m, 'w) env) option" where
  "handle_message F D pid msg a en =
     (case msg of
        TimerTickMsg \<Rightarrow>
          map_option (\<lambda>(a, en).
            (a, (case fa_timer_interval a of
                   None \<Rightarrow> en
                 | Some interval \<Rightarrow>
                     if lifecycle (fa_state a) = Running then env_request (ReqSendTick pid interval) en
                     else en)))
            (handle_timer_tick F D a en)
      | ShutdownMsg \<Rightarrow>
          (let a = set_lifecycle Terminating a;
               (a, en) = actor_hook (on_terminate F) a en;
               a = set_lifecycle Terminated a
           in Some (a, env_request ReqStopNormal (env_cache_update D (fa_state a) en)))
      | TransitionMsg ev ep \<Rightarrow> do_transition F D a ev ep en
      | OtherMsg \<Rightarrow> Some (a, en))"

definition stopped ::
    "('f, 'w, 's, 'e, 'p) Finitomata \<Rightarrow> ('m, 's, 'p) cache_map \<Rightarrow> ('f, 'w, 's, 'e, 'p) FsmActor \<Rightarrow>
     ('m, 'w) env \<Rightarrow> ('f, 'w, 's, 'e, 'p) FsmActor \<times> ('m, 'w) env" where
  "stopped F D a en =
     (if lifecycle (fa_state a) = Running then
        (let a = set_lifecycle Terminated a;
             (a, en) = actor_hook (on_terminate F) a en
         in (a, env_cache_update D (fa_state a) en))
      else (a, en))"

subsection \<open>One turn of the chain\<close>

text \<open>All four arms of \<open>do_transition\<close> begin with the same step: the transition, then the cache.\<close>

definition turn ::
    "('f, 'w, 's, 'e, 'p) Finitomata \<Rightarrow> ('m, 's, 'p) cache_map \<Rightarrow> ('f, 'w, 's, 'e, 'p) FsmActor \<Rightarrow>
     'e \<Rightarrow> 'p \<Rightarrow> ('m, 'w) env \<Rightarrow>
     (FinitomataError + TransitOutcome) \<times> ('f, 'w, 's, 'e, 'p) FsmActor \<times> ('m, 'w) env" where
  "turn F D a ev ep en =
     (case transit F (fa_fsm a) (fa_graph a) (fa_state a) ev ep (actor_ctx a) (en_world en) of
        (r, fsm, st, w) \<Rightarrow>
          (r, a\<lparr>fa_fsm := fsm, fa_state := st\<rparr>, env_cache_update D st (en\<lparr>en_world := w\<rparr>)))"

definition chain_end :: "FinitomataError + TransitOutcome \<Rightarrow> ('m, 'w) env \<Rightarrow> ('m, 'w) env" where
  "chain_end r en = (if r = Inr AutoTerminate then env_request ReqStopNormal en else en)"

definition chain_next :: "FinitomataError + TransitOutcome \<Rightarrow> ('f, 'w, 's, 'e, 'p) FsmActor \<Rightarrow> 'e option" where
  "chain_next r a = (if r = Inr HardContinue then hard_event (fa_graph a) (current (fa_state a)) else None)"

lemma do_transition_turn:
  "do_transition F D a ev ep en =
     (case turn F D a ev ep en of
        (r, a', en') \<Rightarrow>
          (case chain_next r a' of
             None \<Rightarrow> Some (a', chain_end r en')
           | Some evt \<Rightarrow> do_transition F D a' evt (payload (fa_state a')) en'))"
  by (subst do_transition.simps)
     (auto simp: turn_def chain_end_def chain_next_def Let_def split: prod.splits sum.splits option.splits)

lemma do_transition_induct [consumes 1, case_names Last Chain]:
  assumes ret: "do_transition F D a ev ep en = Some (b, en2)"
    and last: "\<And>a ev ep en r a' en'. turn F D a ev ep en = (r, a', en') \<Longrightarrow> chain_next r a' = None \<Longrightarrow>
      P a ev ep en a' (chain_end r en')"
    and chain: "\<And>a ev ep en a' en' evt b en2. turn F D a ev ep en = (Inr HardContinue, a', en') \<Longrightarrow>
      hard_event (fa_graph a') (current (fa_state a')) = Some evt \<Longrightarrow>
      P a' evt (payload (fa_state a')) en' b en2 \<Longrightarrow> P a ev ep en b en2"
  shows "P a ev ep en b en2"
proof -
  have "F' = F \<longrightarrow> D' = D \<longrightarrow> P a ev ep en (fst y) (snd y)"
    if "do_transition F' D' a ev ep en = Some y" for F' D' a ev ep en y
    using that
  proof (rule do_transition.raw_induct [rotated])
    fix dt F' D' a ev ep en y
    assume IH: "\<And>F' D' a ev ep en y. dt F' D' a ev ep en = Some y \<Longrightarrow>
        F' = F \<longrightarrow> D' = D \<longrightarrow> P a ev ep en (fst y) (snd y)"
      and body: "(case transit F' (fa_fsm a) (fa_graph a) (fa_state a) ev ep (actor_ctx a) (en_world en) of
        (r, fsm, st, w) \<Rightarrow>
          (let a = a\<lparr>fa_fsm := fsm, fa_state := st\<rparr>;
               en = en\<lparr>en_world := w\<rparr>
           in case r of
                Inl err \<Rightarrow> Some (a, env_cache_update D' st en)
              | Inr oc \<Rightarrow>
                  if oc = AutoTerminate then
                    Some (a, env_request ReqStopNormal (env_cache_update D' st en))
                  else if oc = HardContinue then
                    (case hard_event (fa_graph a) (current st) of
                       None \<Rightarrow> Some (a, env_cache_update D' st en)
                     | Some evt \<Rightarrow> dt F' D' a evt (payload st) (env_cache_update D' st en))
                  else Some (a, env_cache_update D' st en))) = Some y"
    show "F' = F \<longrightarrow> D' = D \<longrightarrow> P a ev ep en (fst y) (snd y)"
    proof (intro impI)
      assume FD: "F' = F" "D' = D"
      obtain r a' en' where t: "turn F D a ev ep en = (r, a', en')" using prod_cases3 by blast
      show "P a ev ep en (fst y) (snd y)"
      proof (cases "chain_next r a'")
        case None
        with body t FD have "y = (a', chain_end r en')"
          by (auto simp: turn_def chain_end_def chain_next_def Let_def
              split: prod.splits sum.splits option.splits if_splits)
        with last [OF t None] show ?thesis by simp
      next
        case (Some evt)
        then have r: "r = Inr HardContinue" and he: "hard_event (fa_graph a') (current (fa_state a')) = Some evt"
          by (auto simp: chain_next_def split: if_splits)
        with body t FD have "dt F D a' evt (payload (fa_state a')) en' = Some y"
          by (auto simp: turn_def Let_def split: prod.splits)
        from IH [OF this] have "P a' evt (payload (fa_state a')) en' (fst y) (snd y)" by simp
        with chain [OF t [unfolded r] he] show ?thesis by blast
      qed
    qed
  qed
  from this [OF ret] show ?thesis by simp
qed

definition same_config :: "('f, 'w, 's, 'e, 'p) FsmActor \<Rightarrow> ('f, 'w, 's, 'e, 'p) FsmActor \<Rightarrow> bool" where
  "same_config a b \<longleftrightarrow>
     fa_graph b = fa_graph a \<and> fa_persistency b = fa_persistency a \<and> fa_listener b = fa_listener a \<and>
     fa_auto_terminate b = fa_auto_terminate a \<and> fa_timer_interval b = fa_timer_interval a \<and>
     fa_name b = fa_name a \<and> fa_recover_on_start b = fa_recover_on_start a \<and> fa_system b = fa_system a"

lemma same_config_refl [simp]: "same_config a a"
  by (simp add: same_config_def)

lemma same_config_trans: "same_config a b \<Longrightarrow> same_config b c \<Longrightarrow> same_config a c"
  by (simp add: same_config_def)

lemma env_simps [actor_simps, simp]:
  "en_cache (env_request q en) = en_cache en" "en_world (env_request q en) = en_world en"
  "en_requests (env_request q en) = en_requests en @ [q]"
  "en_cache (env_cache_update D st en) = StateCache_update D st (en_cache en)"
  "en_world (env_cache_update D st en) = en_world en"
  "en_requests (env_cache_update D st en) = en_requests en"
  by (simp_all add: env_request_def env_cache_update_def)

lemma turn_result:
  assumes "turn F D a ev ep en = (r, a', en')"
  shows "same_config a a'" "fsm_step (fa_graph a) (fa_auto_terminate a) (fa_state a) ev r (fa_state a')"
    "en_cache en' = StateCache_update D (fa_state a') (en_cache en)" "en_requests en' = en_requests en"
proof -
  obtain fsm st w where
    tr: "transit F (fa_fsm a) (fa_graph a) (fa_state a) ev ep (actor_ctx a) (en_world en) = (r, fsm, st, w)"
    and a': "a' = a\<lparr>fa_fsm := fsm, fa_state := st\<rparr>" and en': "en' = env_cache_update D st (en\<lparr>en_world := w\<rparr>)"
    using assms by (auto simp: turn_def split: prod.splits)
  show "same_config a a'" "en_cache en' = StateCache_update D (fa_state a') (en_cache en)"
    "en_requests en' = en_requests en"
    using a' en' by (simp_all add: same_config_def)
  show "fsm_step (fa_graph a) (fa_auto_terminate a) (fa_state a) ev r (fa_state a')"
    using transit_refines_step [OF tr] a' by (simp add: actor_ctx_def)
qed

lemma actor_hook_result:
  assumes "actor_hook h a en = (a', en')"
  shows "same_config a a'" "fa_state a' = (fa_state a)\<lparr>payload := payload (fa_state a')\<rparr>"
    "en_cache en' = en_cache en" "en_requests en' = en_requests en"
  using assms by (auto simp: actor_hook_def run_hook_def same_config_def split: prod.splits)

lemma actor_hook_fields:
  assumes "actor_hook h a en = (a', en')"
  shows "name (fa_state a') = name (fa_state a)" "current (fa_state a') = current (fa_state a)"
    "history (fa_state a') = history (fa_state a)" "lifecycle (fa_state a') = lifecycle (fa_state a)"
    "last_error (fa_state a') = last_error (fa_state a)"
  using assms by (auto simp: actor_hook_def run_hook_def split: prod.splits)

lemma set_lifecycle_simps [simp]:
  "fa_state (set_lifecycle l a) = (fa_state a)\<lparr>lifecycle := l\<rparr>" "fa_fsm (set_lifecycle l a) = fa_fsm a"
  "same_config a (set_lifecycle l a)" "fa_graph (set_lifecycle l a) = fa_graph a"
  "fa_name (set_lifecycle l a) = fa_name a"
  by (simp_all add: set_lifecycle_def same_config_def)

subsection \<open>What do_transition does when it returns\<close>

text \<open>
  It is a run of the machine; the configuration stays; the actor is asked to stop exactly when
  the last transition auto-terminated; and the cache holds the state the actor ends in.
\<close>

lemma do_transition_run:
  assumes "do_transition F D a ev ep en = Some (b, en2)"
  shows "same_config a b" (is ?C)
    "\<exists>p. fsm_run (fa_graph a) (fa_auto_terminate a) (fa_state a) p (fa_state b)" (is ?R)
proof -
  from assms have "same_config a b \<and>
      (\<exists>p. fsm_run (fa_graph a) (fa_auto_terminate a) (fa_state a) p (fa_state b))"
  proof (induction rule: do_transition_induct)
    case (Last a ev ep en r a' en')
    from turn_result(1) [OF Last(1)] fsm_run_step [OF turn_result(2) [OF Last(1)]] show ?case by simp
  next
    case (Chain a ev ep en a' en' evt b en2)
    note t = turn_result [OF Chain.hyps(1)]
    from fsm_run_step [OF t(2)] obtain p where
      p: "fsm_run (fa_graph a) (fa_auto_terminate a) (fa_state a) p (fa_state a')" by blast
    from Chain.IH t(1) obtain q where
      "fsm_run (fa_graph a) (fa_auto_terminate a) (fa_state a') q (fa_state b)"
      by (auto simp: same_config_def)
    from fsm_run_trans [OF this p] Chain.IH t(1) show ?case
      by (auto intro: same_config_trans)
  qed
  then show ?C ?R by simp_all
qed

lemma fsm_step_terminates:
  "fsm_step g auto st ev (Inr AutoTerminate) st' \<Longrightarrow>
     auto \<and> is_final g (current st') \<and> lifecycle st' = Terminated"
  by (auto elim!: fsm_step_InrE simp: outcome_def split: if_splits)

lemma do_transition_requests:
  assumes "do_transition F D a ev ep en = Some (b, en2)"
  shows "en_requests en2 = en_requests en \<or>
    (en_requests en2 = en_requests en @ [ReqStopNormal] \<and> fa_auto_terminate a \<and>
     is_final (fa_graph a) (current (fa_state b)) \<and> lifecycle (fa_state b) = Terminated)"
  using assms
proof (induction rule: do_transition_induct)
  case (Last a ev ep en r a' en')
  note t = turn_result [OF Last(1)]
  show ?case
  proof (cases "r = Inr AutoTerminate")
    case True
    with fsm_step_terminates [of "fa_graph a" "fa_auto_terminate a" "fa_state a" ev "fa_state a'"] t
    show ?thesis by (simp add: chain_end_def)
  next
    case False
    with t show ?thesis by (simp add: chain_end_def)
  qed
next
  case (Chain a ev ep en a' en' evt b en2)
  with turn_result [OF Chain.hyps(1)] show ?case by (auto simp: same_config_def)
qed

context state_cache
begin

lemma do_transition_cache:
  assumes "do_transition F D a ev ep en = Some (b, en2)"
  shows "StateCache_get D (en_cache en2) nm =
    (if nm = name (fa_state a) then Some (fa_state b) else StateCache_get D (en_cache en) nm)"
  using assms
proof (induction rule: do_transition_induct)
  case (Last a ev ep en r a' en')
  note t = turn_result [OF Last(1)]
  then have "name (fa_state a') = name (fa_state a)" by (simp add: fsm_step_frame)
  with t show ?case by (simp add: chain_end_def get_update)
next
  case (Chain a ev ep en a' en' evt b en2)
  note t = turn_result [OF Chain.hyps(1)]
  then have "name (fa_state a') = name (fa_state a)" by (simp add: fsm_step_frame)
  with t Chain.IH show ?case by (simp add: get_update)
qed

end

subsection \<open>When the chain of hard events ends\<close>

text \<open>
  From a state the chain fires the first hard event that \<open>events_for\<close> lists, and continues from
  the target if \<open>allowed\<close> answers with a hard transition for it. These are the edges the chain
  can follow; without a cycle of them every call returns, and on a cycle the callbacks stay on
  it does not.
\<close>

definition hard_succ :: "('s, 'e) TransitionGraph \<Rightarrow> 's \<Rightarrow> 's \<Rightarrow> bool" where
  "hard_succ g s x \<longleftrightarrow>
     (case hard_event g s of
        None \<Rightarrow> False
      | Some e \<Rightarrow>
          (case allowed g s e of
             Some (tos, Hard) \<Rightarrow> x \<in> set tos
           | _ \<Rightarrow> False))"

definition hard_acyclic :: "('s, 'e) TransitionGraph \<Rightarrow> bool" where
  "hard_acyclic g \<longleftrightarrow> acyclic {(s, x). hard_succ g s x}"

lemma hard_succ_iff:
  "hard_succ g s x \<longleftrightarrow>
     (\<exists>e tos. hard_event g s = Some e \<and> allowed g s e = Some (tos, Hard) \<and> x \<in> set tos)"
  by (auto simp: hard_succ_def split: option.splits EventKind.splits)

lemma finite_hard_succ:
  assumes "graph_inv g" shows "finite {(s, x). hard_succ g s x}"
proof (rule finite_subset)
  show "{(s, x). hard_succ g s x} \<subseteq> fset (all_states g) \<times> fset (all_states g)"
    using allowed_target_in_all_states [OF assms] by (auto simp: hard_succ_iff)
qed simp

lemma hard_continue_succ:
  assumes "graph_inv (fa_graph a)" "turn F D a ev ep en = (Inr HardContinue, a', en')"
    and "hard_event (fa_graph a) (current (fa_state a)) = Some ev"
  shows "hard_succ (fa_graph a) (current (fa_state a)) (current (fa_state a'))"
proof -
  from fsm_step_moved(2) [OF assms(1) turn_result(2) [OF assms(2)]]
  obtain tos kind where
    "allowed (fa_graph a) (current (fa_state a)) ev = Some (tos, kind)" "current (fa_state a') \<in> set tos"
    "HardContinue = outcome (fa_graph a) (fa_auto_terminate a) kind (current (fa_state a'))"
    by auto
  then have "kind = Hard" by (auto simp: outcome_def split: if_splits)
  with assms(3) \<open>allowed _ _ ev = _\<close> \<open>_ \<in> set tos\<close> show ?thesis by (auto simp: hard_succ_iff)
qed

lemma do_transition_hard_returns:
  fixes F :: "('f, 'w, 's, 'e, 'p) Finitomata" and D :: "('m, 's, 'p) cache_map"
  assumes g: "graph_inv g" "hard_acyclic g"
    and a: "fa_graph a = g" "hard_event g (current (fa_state a)) = Some ev"
  shows "do_transition F D a ev ep en \<noteq> None"
proof -
  have "wf ({(s, x). hard_succ g s x}\<inverse>)"
    using g by (intro finite_acyclic_wf_converse finite_hard_succ) (simp_all add: hard_acyclic_def)
  then have "\<forall>a ev ep en. fa_graph a = g \<longrightarrow> current (fa_state a) = s \<longrightarrow> hard_event g s = Some ev \<longrightarrow>
      do_transition F D a ev ep en \<noteq> None" for s
  proof (induction s rule: wf_induct_rule)
    case (less s)
    show ?case
    proof (intro allI impI)
      fix a :: "('f, 'w, 's, 'e, 'p) FsmActor" and ev ep and en :: "('m, 'w) env"
      assume a: "fa_graph a = g" "current (fa_state a) = s" "hard_event g s = Some ev"
      obtain r a' en' where t: "turn F D a ev ep en = (r, a', en')" using prod_cases3 by blast
      show "do_transition F D a ev ep en \<noteq> None"
      proof (cases "chain_next r a'")
        case None
        with t show ?thesis by (subst do_transition_turn) simp
      next
        case (Some evt)
        then have r: "r = Inr HardContinue" and he: "hard_event (fa_graph a') (current (fa_state a')) = Some evt"
          by (auto simp: chain_next_def split: if_splits)
        have g': "fa_graph a' = g" using turn_result(1) [OF t] a(1) by (simp add: same_config_def)
        have "hard_succ g s (current (fa_state a'))"
          using hard_continue_succ [OF _ t [unfolded r]] g(1) a by simp
        with less he g' have "do_transition F D a' evt (payload (fa_state a')) en' \<noteq> None" by auto
        with t Some show ?thesis by (subst do_transition_turn) simp
      qed
    qed
  qed
  with a show ?thesis by blast
qed

lemma do_transition_returns:
  assumes "graph_inv (fa_graph a)" "hard_acyclic (fa_graph a)"
  shows "do_transition F D a ev ep en \<noteq> None"
proof -
  obtain r a' en' where t: "turn F D a ev ep en = (r, a', en')" using prod_cases3 by blast
  show ?thesis
  proof (cases "chain_next r a'")
    case None
    with t show ?thesis by (subst do_transition_turn) simp
  next
    case (Some evt)
    then have "hard_event (fa_graph a') (current (fa_state a')) = Some evt"
      by (auto simp: chain_next_def split: if_splits)
    moreover have "fa_graph a' = fa_graph a" using turn_result(1) [OF t] by (simp add: same_config_def)
    ultimately have "do_transition F D a' evt (payload (fa_state a')) en' \<noteq> None"
      using do_transition_hard_returns [OF assms] by simp
    with t Some show ?thesis by (subst do_transition_turn) simp
  qed
qed

text \<open>
  The other direction: an invariant under which every turn continues the chain keeps
  \<open>do_transition\<close> from returning.
\<close>

lemma do_transition_diverges:
  assumes inv: "I a ev"
    and turns: "\<And>a ev ep en. I a ev \<Longrightarrow> \<exists>a' en' evt. turn F D a ev ep en = (Inr HardContinue, a', en') \<and>
      hard_event (fa_graph a') (current (fa_state a')) = Some evt \<and> I a' evt"
  shows "do_transition F D a ev ep en = None"
proof (rule ccontr)
  assume "do_transition F D a ev ep en \<noteq> None"
  then obtain b en2 where "do_transition F D a ev ep en = Some (b, en2)" by auto
  then have "\<not> I a ev"
  proof (induction rule: do_transition_induct)
    case (Last a ev ep en r a' en')
    then show ?case using turns [of a ev ep en] by (auto simp: chain_next_def)
  next
    case (Chain a ev ep en a' en' evt b en2)
    then show ?case using turns [of a ev ep en] by auto
  qed
  with inv show False by blast
qed

subsection \<open>The other handlers\<close>

lemma shutdown_result:
  assumes "handle_message F D pid ShutdownMsg a en = Some (a', en')"
  shows "same_config a a'" "name (fa_state a') = name (fa_state a)"
    "current (fa_state a') = current (fa_state a)" "history (fa_state a') = history (fa_state a)"
    "last_error (fa_state a') = last_error (fa_state a)" "lifecycle (fa_state a') = Terminated"
    "en_cache en' = StateCache_update D (fa_state a') (en_cache en)"
    "en_requests en' = en_requests en @ [ReqStopNormal]"
proof -
  obtain a1 en1 where h: "actor_hook (on_terminate F) (set_lifecycle Terminating a) en = (a1, en1)"
    by fastforce
  with assms have a': "a' = set_lifecycle Terminated a1"
    and en': "en' = env_request ReqStopNormal (env_cache_update D (fa_state a') en1)"
    by (auto simp: handle_message_def Let_def)
  show "same_config a a'"
    using actor_hook_result(1) [OF h] unfolding a' by (simp add: same_config_def set_lifecycle_def)
  show "name (fa_state a') = name (fa_state a)"
    "current (fa_state a') = current (fa_state a)" "history (fa_state a') = history (fa_state a)"
    "last_error (fa_state a') = last_error (fa_state a)" "lifecycle (fa_state a') = Terminated"
    using actor_hook_fields [OF h] unfolding a' by simp_all
  show "en_cache en' = StateCache_update D (fa_state a') (en_cache en)"
    "en_requests en' = en_requests en @ [ReqStopNormal]"
    using actor_hook_result(3,4) [OF h] en' by simp_all
qed

lemma stopped_noop: "lifecycle (fa_state a) \<noteq> Running \<Longrightarrow> stopped F D a en = (a, en)"
  by (simp add: stopped_def)

lemma stopped_result:
  assumes "stopped F D a en = (a', en')"
  shows "same_config a a'" "current (fa_state a') = current (fa_state a)"
    "history (fa_state a') = history (fa_state a)" "name (fa_state a') = name (fa_state a)"
    "lifecycle (fa_state a') = (if lifecycle (fa_state a) = Running then Terminated else lifecycle (fa_state a))"
    "en_requests en' = en_requests en" "last_error (fa_state a') = last_error (fa_state a)"
proof -
  obtain a1 en1 where h: "actor_hook (on_terminate F) (set_lifecycle Terminated a) en = (a1, en1)"
    by fastforce
  have "(a', en') =
      (if lifecycle (fa_state a) = Running then (a1, env_cache_update D (fa_state a1) en1) else (a, en))"
    using assms h by (auto simp: stopped_def Let_def)
  with actor_hook_fields [OF h] actor_hook_result(1,4) [OF h]
  show "same_config a a'" "current (fa_state a') = current (fa_state a)"
    "history (fa_state a') = history (fa_state a)" "name (fa_state a') = name (fa_state a)"
    "lifecycle (fa_state a') = (if lifecycle (fa_state a) = Running then Terminated else lifecycle (fa_state a))"
    "en_requests en' = en_requests en" "last_error (fa_state a') = last_error (fa_state a)"
    by (auto simp: same_config_def set_lifecycle_def split: if_splits)
qed

text \<open>A tick: \<open>on_timer\<close>, perhaps a transition, and the next tick while the FSM runs.\<close>

lemma tick_result:
  assumes "handle_message F D pid TimerTickMsg a en = Some (a', en')"
  obtains en1 where "handle_timer_tick F D a en = Some (a', en1)"
    "en' = (case fa_timer_interval a' of
       Some i \<Rightarrow> if lifecycle (fa_state a') = Running then env_request (ReqSendTick pid i) en1 else en1
     | None \<Rightarrow> en1)"
  using assms by (auto simp: handle_message_def)

lemma handle_timer_tick_run:
  assumes "handle_timer_tick F D a en = Some (a', en')"
  shows "same_config a a'"
    "\<exists>p. fsm_run (fa_graph a) (fa_auto_terminate a) (fa_state a) p (fa_state a')"
proof -
  obtain res fsm p w where
    t: "on_timer F (current (fa_state a)) (fa_fsm a, payload (fa_state a), en_world en) = (res, fsm, p, w)"
    using prod_cases4 by blast
  let ?a = "a\<lparr>fa_fsm := fsm, fa_state := (fa_state a)\<lparr>payload := p\<rparr>\<rparr>"
  have c: "same_config a ?a" by (simp add: same_config_def)
  have r: "fsm_run (fa_graph a) (fa_auto_terminate a) (fa_state a) [] (fa_state ?a)"
    by (simp add: fsm_run.run_payload fsm_run.run_refl)
  have "same_config a a' \<and> (\<exists>p. fsm_run (fa_graph a) (fa_auto_terminate a) (fa_state a) p (fa_state a'))"
  proof (cases res)
    case None
    with assms t have "a' = ?a" by (simp add: handle_timer_tick_def Let_def)
    with c r show ?thesis by blast
  next
    case (Some ee)
    then obtain ev ep where "res = Some (ev, ep)" by (cases ee) auto
    with assms t have d: "do_transition F D ?a ev ep (en\<lparr>en_world := w\<rparr>) = Some (a', en')"
      by (simp add: handle_timer_tick_def Let_def)
    from do_transition_run [OF d] obtain q where
      "same_config ?a a'" "fsm_run (fa_graph a) (fa_auto_terminate a) (fa_state ?a) q (fa_state a')"
      by auto
    with fsm_run_trans [OF _ r] same_config_trans [OF c] show ?thesis by blast
  qed
  then show "same_config a a'"
    "\<exists>p. fsm_run (fa_graph a) (fa_auto_terminate a) (fa_state a) p (fa_state a')" by simp_all
qed

text \<open>\<open>started\<close>: what recovery leaves.\<close>

lemma recover_result:
  assumes "recover F D rs rp a en = (a', en')"
  shows "same_config a a'"
    "fa_state a' = (FsmState_new (fa_name a) rs (payload (fa_state a')))\<lparr>lifecycle := Running\<rparr>"
    "en_cache en' = StateCache_update D (fa_state a') (en_cache en)"
    "en_requests en' = en_requests en"
proof -
  let ?a0 = "set_lifecycle Loaded (a\<lparr>fa_state := FsmState_new (fa_name a) rs rp\<rparr>)"
  obtain a1 en1 where h1: "actor_hook (on_start F) ?a0 en = (a1, en1)" by fastforce
  obtain a2 en2 where h2: "actor_hook (on_enter F (current (fa_state a1))) a1 en1 = (a2, en2)" by fastforce
  note r1 = actor_hook_result [OF h1] and r2 = actor_hook_result [OF h2]
  from assms h1 h2 have a': "a' = set_lifecycle Running a2"
    and en': "en' = env_cache_update D (fa_state a') en2"
    by (auto simp: recover_def Let_def)
  show "same_config a a'"
    using r1(1) r2(1) unfolding a' by (simp add: same_config_def set_lifecycle_def)
  show "fa_state a' = (FsmState_new (fa_name a) rs (payload (fa_state a')))\<lparr>lifecycle := Running\<rparr>"
    using actor_hook_fields [OF h1] actor_hook_fields [OF h2] unfolding a'
    by (intro FsmState_eqI) (simp_all add: FsmState_new_def)
  show "en_cache en' = StateCache_update D (fa_state a') (en_cache en)" "en_requests en' = en_requests en"
    using r1(3,4) r2(3,4) en' by simp_all
qed

end
