(* ===== verification/Fsm_Life.thy ===== *)
theory Fsm_Life
  imports Fsm_Actor
begin

section \<open>The life of an actor\<close>

text \<open>
  How \<open>joerl\<close> drives an actor, as its documentation states it: \<open>started\<close> once, then
  \<open>handle_message\<close> for one message after another until the actor has asked to stop, then
  \<open>stopped\<close>, which an exit from outside may also bring about at any time. A life is any sequence
  of handler calls of that shape. What holds in every life: the state is reached by a path of
  the graph, and \<open>on_terminate\<close> is called at most once.
\<close>

definition stop_requested :: "('m, 'w) env \<Rightarrow> bool" where
  "stop_requested en \<longleftrightarrow> ReqStopNormal \<in> set (en_requests en)"

inductive life :: "('f, 'w, 's, 'e, 'p) Finitomata \<Rightarrow> ('m, 's, 'p) cache_map \<Rightarrow> Pid \<Rightarrow>
    ('f, 'w, 's, 'e, 'p) FsmActor \<Rightarrow> ('m, 'w) env \<Rightarrow> bool \<Rightarrow> ('f, 'w, 's, 'e, 'p) FsmActor \<Rightarrow>
    ('m, 'w) env \<Rightarrow> bool" for F D pid a0 en0 where
  spawned: "started F D pid a0 en0 = Some (a, en) \<Longrightarrow> life F D pid a0 en0 False a en"
| message: "life F D pid a0 en0 False a en \<Longrightarrow> \<not> stop_requested en \<Longrightarrow>
     handle_message F D pid msg a en = Some (a', en') \<Longrightarrow> life F D pid a0 en0 False a' en'"
| finished: "life F D pid a0 en0 False a en \<Longrightarrow> stopped F D a en = (a', en') \<Longrightarrow>
     life F D pid a0 en0 True a' en'"

inductive_cases life_finishedE: "life F D pid a0 en0 True a en"

subsection \<open>Every life is a run of the machine\<close>

definition runs_to :: "('f, 'w, 's, 'e, 'p) FsmActor \<Rightarrow> ('f, 'w, 's, 'e, 'p) FsmActor \<Rightarrow> bool" where
  "runs_to a b \<longleftrightarrow> same_config a b \<and>
     (\<exists>p. fsm_run (fa_graph a) (fa_auto_terminate a) (fa_state a) p (fa_state b))"

lemma runs_to_refl [simp]: "runs_to a a"
  by (auto simp: runs_to_def intro: fsm_run.run_refl)

lemma runs_to_trans: "runs_to a b \<Longrightarrow> runs_to b c \<Longrightarrow> runs_to a c"
  by (auto simp: runs_to_def same_config_def dest: fsm_run_trans)

lemma runs_to_frame:
  assumes "same_config a b" "name (fa_state b) = name (fa_state a)" "current (fa_state b) = current (fa_state a)"
    "history (fa_state b) = history (fa_state a)" "last_error (fa_state b) = last_error (fa_state a)"
  shows "runs_to a b"
proof -
  have b: "fa_state b = (fa_state a)\<lparr>payload := payload (fa_state b)\<rparr>\<lparr>lifecycle := lifecycle (fa_state b)\<rparr>"
    using assms(2-5) by (intro FsmState_eqI) simp_all
  have "fsm_run (fa_graph a) (fa_auto_terminate a) (fa_state a) [] (fa_state b)"
    by (subst b) (intro fsm_run.run_lifecycle fsm_run.run_payload fsm_run.run_refl)
  with assms(1) show ?thesis by (auto simp: runs_to_def)
qed

lemma do_transition_runs_to: "do_transition F D a ev ep en = Some (b, en') \<Longrightarrow> runs_to a b"
  by (simp add: runs_to_def do_transition_run)

lemma handle_message_runs_to:
  assumes "handle_message F D pid msg a en = Some (a', en')"
  shows "runs_to a a'"
proof (cases msg)
  case (TransitionMsg ev ep)
  with assms show ?thesis by (auto simp: handle_message_def intro: do_transition_runs_to)
next
  case TimerTickMsg
  with assms obtain en1 where "handle_timer_tick F D a en = Some (a', en1)" by (auto elim: tick_result)
  then show ?thesis by (simp add: runs_to_def handle_timer_tick_run)
next
  case ShutdownMsg
  with assms have "handle_message F D pid ShutdownMsg a en = Some (a', en')" by simp
  then show ?thesis by (intro runs_to_frame) (rule shutdown_result, assumption)+
next
  case OtherMsg
  with assms show ?thesis by (simp add: handle_message_def)
qed

lemma started_runs_to:
  assumes "started F D pid a en = Some (b, en')"
  shows "runs_to (fst (started_recover F D pid a en)) b"
  using assms
  by (auto simp: started_def Let_def split: prod.splits option.splits intro: do_transition_runs_to)

lemma stopped_runs_to: "stopped F D a en = (a', en') \<Longrightarrow> runs_to a a'"
  by (intro runs_to_frame) (rule stopped_result, assumption)+

theorem life_runs_to:
  assumes "life F D pid a0 en0 d a en"
  shows "runs_to (fst (started_recover F D pid a0 en0)) a"
  using assms
proof induction
  case (spawned a en)
  then show ?case by (rule started_runs_to)
next
  case (message a en msg a' en')
  from message.IH handle_message_runs_to [OF message.hyps(3)] show ?case by (rule runs_to_trans)
next
  case (finished a en a' en')
  from finished.IH stopped_runs_to [OF finished.hyps(2)] show ?case by (rule runs_to_trans)
qed

text \<open>What \<open>started\<close> begins with: the state it was given, or a fresh one from a stored entry.\<close>

lemma started_recover_result:
  assumes run: "started_recover F D pid a en = (b, en')"
  shows "same_config a b"
    "fa_state b = fa_state a \<or> (\<exists>s p. fa_state b = (FsmState_new (fa_name a) s p)\<lparr>lifecycle := Running\<rparr>)"
proof -
  have "same_config a b \<and>
    (fa_state b = fa_state a \<or> (\<exists>s p. fa_state b = (FsmState_new (fa_name a) s p)\<lparr>lifecycle := Running\<rparr>))"
  proof (cases "\<exists>rs rp en0 en1. recover F D rs rp a en0 = (b, en1)")
    case True
    then obtain rs rp en0 en1 where "recover F D rs rp a en0 = (b, en1)" by blast
    from recover_result(1,2) [OF this] show ?thesis by blast
  next
    case False
    with run have "b = a"
      by (auto simp: started_recover_def Let_def split: if_splits option.splits prod.splits sum.splits)
    then show ?thesis by simp
  qed
  then show "same_config a b"
    "fa_state b = fa_state a \<or> (\<exists>s p. fa_state b = (FsmState_new (fa_name a) s p)\<lparr>lifecycle := Running\<rparr>)"
    by simp_all
qed

lemma started_recover_state_inv:
  assumes "started_recover F D pid a en = (b, en')" "state_inv (fa_state a)"
  shows "state_inv (fa_state b)"
  using started_recover_result(2) [OF assms(1)] assms(2) by (auto simp: state_inv_new)

subsection \<open>on_terminate is called at most once\<close>

text \<open>
  Over the logging callbacks of \<open>Fsm_Trace\<close>: the number of \<open>CTerminate\<close> calls in the log. The
  invariant between handler calls ties three things: the actor has asked to stop, its lifecycle
  is \<open>Terminated\<close>, and \<open>on_terminate\<close> has been called once.
\<close>

type_synonym ('m, 'w, 's, 'e, 'p) logged_env = "('m, 'w \<times> ('s, 'e, 'p) call list) env"

definition terminations :: "('m, 'w, 's, 'e, 'p) logged_env \<Rightarrow> nat" where
  "terminations en = count_list (snd (en_world en)) CTerminate"

definition logged_actor ::
    "('f, 'w \<times> ('s, 'e, 'p) call list, 's, 'e, 'p) FsmActor \<Rightarrow> bool" where
  "logged_actor a \<longleftrightarrow> (\<exists>P L. fa_persistency a = map_option logged_persistency P \<and>
     fa_listener a = map_option logged_listener L)"

definition before_stop ::
    "('f, 'w \<times> ('s, 'e, 'p) call list, 's, 'e, 'p) FsmActor \<Rightarrow> ('m, 'w, 's, 'e, 'p) logged_env \<Rightarrow> bool" where
  "before_stop a en \<longleftrightarrow> logged_actor a \<and> lifecycle (fa_state a) \<noteq> Terminated \<and>
     \<not> stop_requested en \<and> terminations en = 0"

definition stop_inv ::
    "('f, 'w \<times> ('s, 'e, 'p) call list, 's, 'e, 'p) FsmActor \<Rightarrow> ('m, 'w, 's, 'e, 'p) logged_env \<Rightarrow> bool" where
  "stop_inv a en \<longleftrightarrow> logged_actor a \<and> (stop_requested en \<longleftrightarrow> lifecycle (fa_state a) = Terminated) \<and>
     terminations en = (if lifecycle (fa_state a) = Terminated then 1 else 0)"

lemma before_stop_inv: "before_stop a en \<longleftrightarrow> stop_inv a en \<and> \<not> stop_requested en"
  by (auto simp: before_stop_def stop_inv_def)

lemma logged_actor_config: "same_config a b \<Longrightarrow> logged_actor b = logged_actor a"
  by (simp add: logged_actor_def same_config_def)

lemma count_settle_calls:
  assumes "settle_calls ctx nm frm ev r tgt calls"
  shows "count_list calls CTerminate = (if r = Inr AutoTerminate then 1 else 0)"
  using assms
  by (auto simp: settle_calls_def store_calls_def notify_calls_def split: sum.splits if_splits)

lemma count_engine_calls:
  assumes "engine_calls g ctx st ev r tgt calls" "r = Inr AutoTerminate \<Longrightarrow> responds g (current st) ev"
  shows "count_list calls CTerminate = (if r = Inr AutoTerminate then 1 else 0)"
  using assms
  by (auto simp: engine_calls_def dest: count_settle_calls split: if_splits)

lemma turn_terminations:
  assumes la: "logged_actor a" and t: "turn (logged F) D a ev ep en = (r, a', en')"
  shows "terminations en' = terminations en + (if r = Inr AutoTerminate then 1 else 0)"
proof -
  obtain P L where PL: "fa_persistency a = map_option logged_persistency P"
    "fa_listener a = map_option logged_listener L"
    using la by (auto simp: logged_actor_def)
  let ?ctx = "\<lparr>tc_persistency = P, tc_listener = L, tc_auto_terminate = fa_auto_terminate a\<rparr>"
  have ctx: "actor_ctx a = logged_ctx ?ctx"
    using PL by (simp add: actor_ctx_def logged_ctx_def)
  obtain w l where w: "en_world en = (w, l)" by fastforce
  obtain r1 f1 st1 w1 where
    plain: "transit F (fa_fsm a) (fa_graph a) (fa_state a) ev ep ?ctx w = (r1, f1, st1, w1)"
    using prod_cases4 by blast
  from transit_logged [OF this, of l] obtain calls where
    calls: "engine_calls (fa_graph a) ?ctx (fa_state a) ev r1 (current st1) calls" and
    run: "transit (logged F) (fa_fsm a) (fa_graph a) (fa_state a) ev ep (actor_ctx a) (en_world en) =
      (r1, f1, st1, w1, l @ calls)"
    using ctx w by auto
  have "responds (fa_graph a) (current (fa_state a)) ev" if "r1 = Inr AutoTerminate"
    using transit_refines_step [OF plain] that
    by (auto elim!: fsm_step_InrE simp: responds_def)
  with count_engine_calls [OF calls]
  have "count_list calls CTerminate = (if r1 = Inr AutoTerminate then 1 else 0)" by blast
  with run t w show ?thesis
    by (auto simp: turn_def terminations_def env_cache_update_def)
qed

lemma fsm_step_not_terminated:
  "fsm_step g auto st ev r st' \<Longrightarrow> lifecycle st \<noteq> Terminated \<Longrightarrow>
     lifecycle st' = Terminated \<longleftrightarrow> r = Inr AutoTerminate"
  by (auto elim!: fsm_step.cases split: if_splits)

lemma do_transition_stop_inv:
  assumes "do_transition (logged F) D a ev ep en = Some (b, en2)" "before_stop a en"
  shows "stop_inv b en2"
  using assms
proof (induction rule: do_transition_induct)
  case (Last a ev ep en r a' en')
  note t = turn_result [OF Last.hyps(1)]
  have la: "logged_actor a" "logged_actor a'"
    using Last.prems t(1) logged_actor_config by (auto simp: before_stop_def)
  have "lifecycle (fa_state a') = Terminated \<longleftrightarrow> r = Inr AutoTerminate"
    using fsm_step_not_terminated [OF t(2)] Last.prems by (simp add: before_stop_def)
  with turn_terminations [OF la(1) Last.hyps(1)] t(4) la(2) Last.prems show ?case
    by (auto simp: stop_inv_def before_stop_def chain_end_def stop_requested_def terminations_def)
next
  case (Chain a ev ep en a' en' evt b en2)
  note t = turn_result [OF Chain.hyps(1)]
  have la: "logged_actor a" "logged_actor a'"
    using Chain.prems t(1) logged_actor_config by (auto simp: before_stop_def)
  have "lifecycle (fa_state a') \<noteq> Terminated"
    using fsm_step_not_terminated [OF t(2)] Chain.prems by (simp add: before_stop_def)
  with turn_terminations [OF la(1) Chain.hyps(1)] t(4) la(2) Chain.prems
  have "before_stop a' en'" by (simp add: before_stop_def stop_requested_def)
  then show ?case by (rule Chain.IH)
qed

lemma actor_hook_terminations:
  assumes "actor_hook (log_hook c h) a en = (a', en')"
  shows "terminations en' = terminations en + (if c = CTerminate then 1 else 0)"
proof -
  obtain w l where w: "en_world en = (w, l)" by fastforce
  with assms show ?thesis
    by (auto simp: actor_hook_def terminations_def split: prod.splits)
qed

lemma stop_inv_tick_request:
  "stop_inv a en \<Longrightarrow> stop_inv a (env_request (ReqSendTick pid i) en)"
  by (simp add: stop_inv_def stop_requested_def terminations_def)

lemma handle_message_stop_inv:
  assumes run: "handle_message (logged F) D pid msg a en = Some (a', en')" and pre: "before_stop a en"
  shows "stop_inv a' en'"
proof (cases msg)
  case (TransitionMsg ev ep)
  with run pre show ?thesis by (auto simp: handle_message_def intro: do_transition_stop_inv)
next
  case TimerTickMsg
  with run obtain en1 where tick: "handle_timer_tick (logged F) D a en = Some (a', en1)"
    and en': "en' = (case fa_timer_interval a' of
       Some i \<Rightarrow> if lifecycle (fa_state a') = Running then env_request (ReqSendTick pid i) en1 else en1
     | None \<Rightarrow> en1)"
    by (auto elim: tick_result)
  obtain w l where w: "en_world en = (w, l)" by fastforce
  obtain res f p w1 where
    ti: "on_timer F (current (fa_state a)) (fa_fsm a, payload (fa_state a), w) = (res, f, p, w1)"
    using prod_cases4 by blast
  let ?a = "a\<lparr>fa_fsm := f, fa_state := (fa_state a)\<lparr>payload := p\<rparr>\<rparr>"
  let ?en = "en\<lparr>en_world := (w1, l @ [CTimer (current (fa_state a))])\<rparr>"
  have ok: "before_stop ?a ?en"
    using pre w by (simp add: before_stop_def logged_actor_def stop_requested_def terminations_def)
  have "stop_inv a' en1"
  proof (cases res)
    case None
    with tick ti w ok show ?thesis by (auto simp: handle_timer_tick_def Let_def before_stop_inv)
  next
    case (Some ee)
    with tick ti w have "do_transition (logged F) D ?a (fst ee) (snd ee) ?en = Some (a', en1)"
      by (auto simp: handle_timer_tick_def Let_def split: prod.splits)
    with ok show ?thesis by (rule_tac do_transition_stop_inv)
  qed
  with en' show ?thesis by (auto intro: stop_inv_tick_request split: option.splits)
next
  case ShutdownMsg
  with run have sd: "handle_message (logged F) D pid ShutdownMsg a en = Some (a', en')" by simp
  obtain a1 en1 where h: "actor_hook (log_hook CTerminate (on_terminate F)) (set_lifecycle Terminating a) en = (a1, en1)"
    by fastforce
  with sd have "terminations en' = terminations en1"
    by (auto simp: handle_message_def Let_def terminations_def)
  with actor_hook_terminations [OF h] shutdown_result [OF sd] pre logged_actor_config show ?thesis
    by (auto simp: stop_inv_def before_stop_def stop_requested_def)
next
  case OtherMsg
  with run pre show ?thesis by (simp add: handle_message_def before_stop_inv)
qed

lemma before_stop_env: "before_stop a (env_request q en) = before_stop a en" if "q \<noteq> ReqStopNormal"
  using that by (auto simp: before_stop_def stop_requested_def terminations_def)

lemma before_stop_hook:
  assumes "actor_hook (log_hook c h) a en = (a', en')" "c \<noteq> CTerminate" "before_stop a en"
  shows "before_stop a' en'"
  using actor_hook_result(4) [OF assms(1)] actor_hook_fields(4) [OF assms(1)] actor_hook_terminations [OF assms(1)]
    logged_actor_config [OF actor_hook_result(1) [OF assms(1)]] assms(2,3)
  by (simp add: before_stop_def stop_requested_def)

lemma before_stop_state:
  "before_stop (a\<lparr>fa_state := st\<rparr>) en \<longleftrightarrow>
     logged_actor a \<and> lifecycle st \<noteq> Terminated \<and> \<not> stop_requested en \<and> terminations en = 0"
  by (simp add: before_stop_def logged_actor_def)

lemma before_stop_cache: "before_stop a (env_cache_update D st en) = before_stop a en"
  by (simp add: before_stop_def stop_requested_def terminations_def)

lemma recover_before_stop:
  assumes run: "recover (logged F) D rs rp a en = (a', en')" and pre: "before_stop a en"
  shows "before_stop a' en'"
proof -
  let ?a0 = "set_lifecycle Loaded (a\<lparr>fa_state := FsmState_new (fa_name a) rs rp\<rparr>)"
  obtain a1 en1 where h1: "actor_hook (on_start (logged F)) ?a0 en = (a1, en1)" by fastforce
  obtain a2 en2 where h2: "actor_hook (on_enter (logged F) (current (fa_state a1))) a1 en1 = (a2, en2)"
    by fastforce
  have "before_stop ?a0 en"
    using pre by (simp add: before_stop_def logged_actor_def set_lifecycle_def)
  then have "before_stop a1 en1" using h1 by (auto intro: before_stop_hook)
  then have "before_stop a2 en2" using h2 by (auto intro: before_stop_hook)
  with run h1 h2 show ?thesis
    by (auto simp: recover_def Let_def before_stop_cache set_lifecycle_def before_stop_state)
      (simp_all add: before_stop_def)
qed

lemma load_logged:
  assumes "logged_actor a" "fa_persistency a = Some persist" "load persist i (en_world en) = (res, w)"
  shows "before_stop a (en\<lparr>en_world := w\<rparr>) = before_stop a en"
proof -
  from assms obtain P where P: "persist = logged_persistency P"
    by (auto simp: logged_actor_def eq_commute [of "Some persist"])
  obtain v l where "en_world en = (v, l)" by fastforce
  with assms(3) P show ?thesis
    by (auto simp: logged_persistency_def log_call_def before_stop_def stop_requested_def
        terminations_def split: prod.splits)
qed

lemma started_recover_before_stop:
  assumes run: "started_recover (logged F) D pid a en = (a', en')" and pre: "before_stop a en"
  shows "before_stop a' en'"
proof (cases "fa_recover_on_start a")
  case True
  let ?load = "case fa_persistency a of None \<Rightarrow> (a, en)
    | Some persist \<Rightarrow> (case load persist (fa_name a) (en_world en) of (res, w) \<Rightarrow>
        (let en = en\<lparr>en_world := w\<rparr>
         in case res of Inr (Some (lc, rs, rp)) \<Rightarrow> recover (logged F) D rs rp a en | _ \<Rightarrow> (a, en)))"
  obtain b en1 where l: "?load = (b, en1)" by fastforce
  have "before_stop b en1"
  proof (cases "fa_persistency a")
    case None
    with l pre show ?thesis by simp
  next
    case (Some persist)
    obtain res w where res: "load persist (fa_name a) (en_world en) = (res, w)" by (meson surj_pair)
    have "logged_actor a" using pre by (simp add: before_stop_def)
    from load_logged [OF this Some res] pre have ok: "before_stop a (en\<lparr>en_world := w\<rparr>)" by simp
    with l Some res show ?thesis
      by (auto simp: Let_def split: sum.splits option.splits elim!: recover_before_stop)
  qed
  with run True l show ?thesis
    by (auto simp: started_recover_def before_stop_env split: option.splits)
next
  case False
  with run pre show ?thesis by (simp add: started_recover_def)
qed

lemma started_stop_inv:
  assumes run: "started (logged F) D pid a en = Some (a', en')" and pre: "before_stop a en"
  shows "stop_inv a' en'"
proof -
  obtain b en1 where sr: "started_recover (logged F) D pid a en = (b, en1)" by fastforce
  let ?en = "case fa_timer_interval b of None \<Rightarrow> en1 | Some interval \<Rightarrow> env_request (ReqSendTick pid interval) en1"
  have ok: "before_stop b ?en"
    using started_recover_before_stop [OF sr pre] by (simp add: before_stop_env split: option.split)
  show ?thesis
  proof (cases "hard_event (fa_graph b) (current (fa_state b))")
    case None
    with run sr have "a' = b" "en' = ?en" by (auto simp: started_def)
    with ok show ?thesis by (simp only: before_stop_inv)
  next
    case (Some evt)
    with run sr have "do_transition (logged F) D b evt (payload (fa_state b)) ?en = Some (a', en')"
      by (simp add: started_def)
    from do_transition_stop_inv [OF this ok] show ?thesis .
  qed
qed

lemma stopped_terminations:
  assumes run: "stopped (logged F) D a en = (a', en')" and inv: "stop_inv a en"
  shows "terminations en' = (if lifecycle (fa_state a') = Terminated then 1 else 0)"
proof -
  obtain a1 en1 where h: "actor_hook (on_terminate (logged F)) (set_lifecycle Terminated a) en = (a1, en1)"
    by fastforce
  from actor_hook_terminations [OF this [simplified]] actor_hook_fields [OF h] run h inv show ?thesis
    by (auto simp: stopped_def Let_def stop_inv_def terminations_def split: if_splits)
qed

lemma life_open_stop_inv:
  assumes "life (logged F) D pid a0 en0 d a en" "before_stop a0 en0"
  shows "\<not> d \<longrightarrow> stop_inv a en"
  using assms
proof induction
  case (spawned a en)
  then show ?case by (simp add: started_stop_inv)
next
  case (message a en msg a' en')
  then have "before_stop a en" by (simp add: before_stop_inv)
  with message.hyps show ?case by (simp add: handle_message_stop_inv)
qed simp

lemma life_terminates_once:
  assumes "life (logged F) D pid a0 en0 d a en" "before_stop a0 en0"
  shows "terminations en = (if lifecycle (fa_state a) = Terminated then 1 else 0)"
proof (cases d)
  case True
  with assms(1) obtain b en1 where
    "life (logged F) D pid a0 en0 False b en1" "stopped (logged F) D b en1 = (a, en)"
    by (auto elim: life_finishedE)
  then have "stop_inv b en1" using life_open_stop_inv assms(2) by blast
  with \<open>stopped (logged F) D b en1 = (a, en)\<close> show ?thesis by (rule stopped_terminations)
next
  case False
  with life_open_stop_inv [OF assms] show ?thesis by (simp add: stop_inv_def)
qed

lemma life_finished_not_running:
  "life F D pid a0 en0 True a en \<Longrightarrow> lifecycle (fa_state a) \<noteq> Running"
  by (erule life_finishedE) (drule stopped_result(5), simp split: if_splits)

end
