(* ===== verification/Fsm_Supervisor.thy ===== *)
theory Fsm_Supervisor
  imports Fsm_Life
begin

section \<open>The supervisor (finitomata/src/supervisor.rs, FinitomataSupervisor)\<close>

text \<open>
  The user-facing API: configuration by builder methods, spawning an FSM actor with or without a
  restarting supervisor above it, sending it events, and reading the cache. What it asks of
  \<open>joerl\<close> is the parameter \<open>Joerl\<close>, a record of the calls the code makes on an outside state
  \<open>'j\<close>; the laws of the name registry, as \<open>joerl\<close> documents them, are the locale
  \<open>actor_registry\<close>. \<open>F::default()\<close> is the argument \<open>dflt\<close>.
\<close>

subsection \<open>The actor system\<close>

record ('strat, 'int, 'a) ChildTree =
  ss_strategy :: 'strat
  ss_intensity :: 'int
  ss_children :: "(string \<times> (unit \<Rightarrow> 'a)) list"

record ('j, 'a, 'msg, 'spec) Joerl =
  j_whereis :: "ActorSystem \<Rightarrow> string \<Rightarrow> 'j \<Rightarrow> Pid option"
  j_register :: "ActorSystem \<Rightarrow> string \<Rightarrow> Pid \<Rightarrow> 'j \<Rightarrow> (string + unit) \<times> 'j"
  j_unregister :: "ActorSystem \<Rightarrow> string \<Rightarrow> 'j \<Rightarrow> (string + unit) \<times> 'j"
  j_spawn :: "ActorSystem \<Rightarrow> 'a \<Rightarrow> 'j \<Rightarrow> Pid \<times> 'j"
  j_send :: "ActorSystem \<Rightarrow> Pid \<Rightarrow> 'msg \<Rightarrow> 'j \<Rightarrow> (string + unit) \<times> 'j"
  j_spawn_supervisor :: "ActorSystem \<Rightarrow> 'spec \<Rightarrow> 'j \<Rightarrow> 'j"
  j_pid_new :: "'j \<Rightarrow> Pid \<times> 'j"

locale actor_registry =
  fixes J :: "('j, 'a, 'msg, 'spec) Joerl"
  assumes register_free: "j_whereis J sys nm j = None \<Longrightarrow>
      j_whereis J sys' nm' (snd (j_register J sys nm pid j)) =
        (if sys' = sys \<and> nm' = nm then Some pid else j_whereis J sys' nm' j)"
    and register_taken: "j_whereis J sys nm j \<noteq> None \<Longrightarrow>
      j_whereis J sys' nm' (snd (j_register J sys nm pid j)) = j_whereis J sys' nm' j"
    and unregistered: "j_whereis J sys' nm' (snd (j_unregister J sys nm j)) =
      (if sys' = sys \<and> nm' = nm then None else j_whereis J sys' nm' j)"
    and spawn_keeps: "j_whereis J sys' nm' (snd (j_spawn J sys a j)) = j_whereis J sys' nm' j"

subsection \<open>State and builder\<close>

text \<open>
  The fields a supervisor never changes. Its cache and its table of actors sit behind an \<open>Arc\<close>,
  shared with the actors and with every call: they are in the environment \<open>sup_env\<close>, with the
  outside world and the actor system.
\<close>

record ('w, 's, 'e, 'p) FinitomataSupervisor =
  sup_id :: string
  sup_system :: ActorSystem
  sup_graph :: "('s, 'e) TransitionGraph"
  sup_persistency :: "('w, 's, 'p) Persistency option"
  sup_listener :: "('w, 's, 'e) Listener option"
  sup_auto_terminate :: bool
  sup_timer_interval :: "Duration option"

record ('m, 'w, 'j) sup_env =
  se_cache :: 'm
  se_world :: 'w
  se_actors :: "string \<rightharpoonup> Pid"
  se_system :: 'j

definition FinitomataSupervisor_new :: "ActorSystem \<Rightarrow> string \<Rightarrow> ('s, 'e) TransitionGraph \<Rightarrow>
    ('w, 's, 'e, 'p) FinitomataSupervisor" where
  "FinitomataSupervisor_new sys idn g =
     \<lparr>sup_id = idn, sup_system = sys, sup_graph = g, sup_persistency = None, sup_listener = None,
      sup_auto_terminate = False, sup_timer_interval = None\<rparr>"

definition sup_env_new :: "('m, 's, 'p) cache_map \<Rightarrow> 'w \<Rightarrow> 'j \<Rightarrow> ('m, 'w, 'j) sup_env" where
  "sup_env_new D w j = \<lparr>se_cache = StateCache_new D, se_world = w, se_actors = Map.empty, se_system = j\<rparr>"

definition with_system :: "ActorSystem \<Rightarrow> ('w, 's, 'e, 'p) FinitomataSupervisor \<Rightarrow>
    ('w, 's, 'e, 'p) FinitomataSupervisor" where
  "with_system sys sv = sv\<lparr>sup_system := sys\<rparr>"

definition with_persistency :: "('w, 's, 'p) Persistency \<Rightarrow> ('w, 's, 'e, 'p) FinitomataSupervisor \<Rightarrow>
    ('w, 's, 'e, 'p) FinitomataSupervisor" where
  "with_persistency P sv = sv\<lparr>sup_persistency := Some P\<rparr>"

definition with_listener :: "('w, 's, 'e) Listener \<Rightarrow> ('w, 's, 'e, 'p) FinitomataSupervisor \<Rightarrow>
    ('w, 's, 'e, 'p) FinitomataSupervisor" where
  "with_listener L sv = sv\<lparr>sup_listener := Some L\<rparr>"

definition with_auto_terminate :: "bool \<Rightarrow> ('w, 's, 'e, 'p) FinitomataSupervisor \<Rightarrow>
    ('w, 's, 'e, 'p) FinitomataSupervisor" where
  "with_auto_terminate b sv = sv\<lparr>sup_auto_terminate := b\<rparr>"

definition with_timer :: "Duration \<Rightarrow> ('w, 's, 'e, 'p) FinitomataSupervisor \<Rightarrow>
    ('w, 's, 'e, 'p) FinitomataSupervisor" where
  "with_timer interval sv = sv\<lparr>sup_timer_interval := Some interval\<rparr>"

subsection \<open>Spawning\<close>

definition initial_entry :: "('w, 's, 'e, 'p) FinitomataSupervisor \<Rightarrow> string \<Rightarrow> 'p \<Rightarrow> 'w \<Rightarrow>
    ('s \<times> 'p \<times> Lifecycle) \<times> 'w" where
  "initial_entry sv nm p w =
     (case sup_persistency sv of
        Some persist \<Rightarrow>
          (case load persist nm w of
             (res, w) \<Rightarrow>
               (case res of
                  Inr (Some (lc, s, pl)) \<Rightarrow> ((s, pl, lc), w)
                | _ \<Rightarrow> ((initial (sup_graph sv), p, Created), w)))
      | None \<Rightarrow> ((initial (sup_graph sv), p, Created), w))"

text \<open>The actor \<open>start_fsm\<close> builds, after the first callbacks, with the cache and the world as they are then.\<close>

definition start_actor ::
    "('m, 's, 'p) cache_map \<Rightarrow> ('f, 'w, 's, 'e, 'p) Finitomata \<Rightarrow> ('w, 's, 'e, 'p) FinitomataSupervisor \<Rightarrow>
     string \<Rightarrow> 'f \<Rightarrow> 'p \<Rightarrow> ('m, 'w, 'j) sup_env \<Rightarrow> ('f, 'w, 's, 'e, 'p) FsmActor \<times> 'm \<times> 'w" where
  "start_actor D F sv nm fsm p env =
     (let ((initial_state, initial_payload, lc), w) = initial_entry sv nm p (se_world env);
          st = (FsmState_new nm initial_state initial_payload)\<lparr>lifecycle := lc\<rparr>;
          (fsm, st, w) = run_hook (on_start F) fsm st w;
          (fsm, st, w) = run_hook (on_enter F (current st)) fsm st w;
          st = st\<lparr>lifecycle := Running\<rparr>;
          cache = StateCache_update D st (se_cache env);
          actor = \<lparr>fa_fsm = fsm, fa_state = st, fa_graph = sup_graph sv,
            fa_persistency = sup_persistency sv, fa_listener = sup_listener sv,
            fa_auto_terminate = sup_auto_terminate sv, fa_timer_interval = sup_timer_interval sv,
            fa_name = nm, fa_recover_on_start = False, fa_system = None\<rparr>
      in (actor, cache, w))"

definition start_fsm ::
    "('j, ('f, 'w, 's, 'e, 'p) FsmActor, ('e, 'p) Message, 'spec) Joerl \<Rightarrow> ('m, 's, 'p) cache_map \<Rightarrow>
     ('f, 'w, 's, 'e, 'p) Finitomata \<Rightarrow> ('w, 's, 'e, 'p) FinitomataSupervisor \<Rightarrow> string \<Rightarrow> 'f \<Rightarrow> 'p \<Rightarrow>
     ('m, 'w, 'j) sup_env \<Rightarrow> (FinitomataError + unit) \<times> ('m, 'w, 'j) sup_env" where
  "start_fsm J D F sv nm fsm p env =
     (let (actor, cache, w) = start_actor D F sv nm fsm p env;
          (pid, j) = j_spawn J (sup_system sv) actor (se_system env);
          (res, j) = j_register J (sup_system sv) nm pid j
      in (Inr (), \<lparr>se_cache = cache, se_world = w, se_actors = (se_actors env)(nm \<mapsto> pid), se_system = j\<rparr>))"

text \<open>The factory closure of the child specification: the actor of a supervised FSM.\<close>

definition supervised_child :: "('w, 's, 'e, 'p) FinitomataSupervisor \<Rightarrow> string \<Rightarrow> 'f \<Rightarrow> 'p \<Rightarrow>
    ('f, 'w, 's, 'e, 'p) FsmActor" where
  "supervised_child sv nm dflt p =
     \<lparr>fa_fsm = dflt, fa_state = FsmState_new nm (initial (sup_graph sv)) p, fa_graph = sup_graph sv,
      fa_persistency = sup_persistency sv, fa_listener = sup_listener sv,
      fa_auto_terminate = sup_auto_terminate sv, fa_timer_interval = sup_timer_interval sv,
      fa_name = nm, fa_recover_on_start = True, fa_system = Some (sup_system sv)\<rparr>"

definition ensure_stored :: "('w, 's, 'e, 'p) FinitomataSupervisor \<Rightarrow> string \<Rightarrow> 'p \<Rightarrow> 'w \<Rightarrow> 'w" where
  "ensure_stored sv nm p w =
     (case sup_persistency sv of
        None \<Rightarrow> w
      | Some persist \<Rightarrow>
          (case load persist nm w of
             (res, w) \<Rightarrow>
               (case res of
                  Inr (Some entry) \<Rightarrow> w
                | _ \<Rightarrow> snd (store persist nm (initial (sup_graph sv)) p w))))"

definition spawn_supervised_with_intensity ::
    "('j, ('f, 'w, 's, 'e, 'p) FsmActor, ('e, 'p) Message,
       ('strat, 'int, ('f, 'w, 's, 'e, 'p) FsmActor) ChildTree) Joerl \<Rightarrow> 'f \<Rightarrow>
     ('w, 's, 'e, 'p) FinitomataSupervisor \<Rightarrow> string \<Rightarrow> 'f \<Rightarrow> 'p \<Rightarrow> 'strat \<Rightarrow> 'int \<Rightarrow>
     ('m, 'w, 'j) sup_env \<Rightarrow> (FinitomataError + unit) \<times> ('m, 'w, 'j) sup_env" where
  "spawn_supervised_with_intensity J dflt sv nm fsm p strategy intensity env =
     (let w = ensure_stored sv nm p (se_world env);
          child = (nm, \<lambda>u. supervised_child sv nm dflt p);
          spec = \<lparr>ss_strategy = strategy, ss_intensity = intensity, ss_children = [child]\<rparr>;
          j = j_spawn_supervisor J (sup_system sv) spec (se_system env);
          (pid, j) = j_pid_new J j
      in (Inr (), env\<lparr>se_world := w, se_system := j, se_actors := (se_actors env)(nm \<mapsto> pid)\<rparr>))"

definition spawn_supervised ::
    "('j, ('f, 'w, 's, 'e, 'p) FsmActor, ('e, 'p) Message,
       ('strat, 'int, ('f, 'w, 's, 'e, 'p) FsmActor) ChildTree) Joerl \<Rightarrow> 'int \<Rightarrow> 'f \<Rightarrow>
     ('w, 's, 'e, 'p) FinitomataSupervisor \<Rightarrow> string \<Rightarrow> 'f \<Rightarrow> 'p \<Rightarrow> 'strat \<Rightarrow>
     ('m, 'w, 'j) sup_env \<Rightarrow> (FinitomataError + unit) \<times> ('m, 'w, 'j) sup_env" where
  "spawn_supervised J default_intensity dflt sv nm fsm p strategy env =
     spawn_supervised_with_intensity J dflt sv nm fsm p strategy default_intensity env"

subsection \<open>Messages and queries\<close>

definition resolve_pid :: "('j, 'a, 'msg, 'spec) Joerl \<Rightarrow> ('w, 's, 'e, 'p) FinitomataSupervisor \<Rightarrow> string \<Rightarrow>
    ('m, 'w, 'j) sup_env \<Rightarrow> FinitomataError + Pid" where
  "resolve_pid J sv nm env =
     (case j_whereis J (sup_system sv) nm (se_system env) of
        Some pid \<Rightarrow> Inr pid
      | None \<Rightarrow>
          (case se_actors env nm of
             Some pid \<Rightarrow> Inr pid
           | None \<Rightarrow> Inl (err_validation (''FSM `'' @ nm @ ''` not found''))))"

definition send_to :: "('j, 'a, ('e, 'p) Message, 'spec) Joerl \<Rightarrow> ('w, 's, 'e, 'p) FinitomataSupervisor \<Rightarrow>
    string \<Rightarrow> ('e, 'p) Message \<Rightarrow> ('m, 'w, 'j) sup_env \<Rightarrow> (FinitomataError + unit) \<times> ('m, 'w, 'j) sup_env" where
  "send_to J sv nm msg env =
     (case resolve_pid J sv nm env of
        Inl err \<Rightarrow> (Inl err, env)
      | Inr pid \<Rightarrow>
          (case j_send J (sup_system sv) pid msg (se_system env) of
             (res, j) \<Rightarrow>
               ((case res of
                   Inl e \<Rightarrow> Inl (err_validation (''failed to send to `'' @ nm @ ''`: '' @ e))
                 | Inr u \<Rightarrow> Inr u), env\<lparr>se_system := j\<rparr>)))"

definition transition :: "('j, 'a, ('e, 'p) Message, 'spec) Joerl \<Rightarrow> ('w, 's, 'e, 'p) FinitomataSupervisor \<Rightarrow>
    string \<Rightarrow> 'e \<Rightarrow> 'p \<Rightarrow> ('m, 'w, 'j) sup_env \<Rightarrow> (FinitomataError + unit) \<times> ('m, 'w, 'j) sup_env" where
  "transition J sv nm ev ep env = send_to J sv nm (TransitionMsg ev ep) env"

definition shutdown :: "('j, 'a, ('e, 'p) Message, 'spec) Joerl \<Rightarrow> ('w, 's, 'e, 'p) FinitomataSupervisor \<Rightarrow>
    string \<Rightarrow> ('m, 'w, 'j) sup_env \<Rightarrow> (FinitomataError + unit) \<times> ('m, 'w, 'j) sup_env" where
  "shutdown J sv nm env = send_to J sv nm ShutdownMsg env"

definition supervisor_system :: "('w, 's, 'e, 'p) FinitomataSupervisor \<Rightarrow> ActorSystem" where
  "supervisor_system sv = sup_system sv"

definition supervisor_id :: "('w, 's, 'e, 'p) FinitomataSupervisor \<Rightarrow> string" where
  "supervisor_id sv = sup_id sv"

definition sup_state :: "('m, 's, 'p) cache_map \<Rightarrow> string \<Rightarrow> ('m, 'w, 'j) sup_env \<Rightarrow> ('s, 'p) FsmState option" where
  "sup_state D nm env = StateCache_get D (se_cache env) nm"

definition current_state :: "('m, 's, 'p) cache_map \<Rightarrow> string \<Rightarrow> ('m, 'w, 'j) sup_env \<Rightarrow> 's option" where
  "current_state D nm env = StateCache_get_state D (se_cache env) nm"

definition alive :: "('m, 's, 'p) cache_map \<Rightarrow> string \<Rightarrow> ('m, 'w, 'j) sup_env \<Rightarrow> bool" where
  "alive D nm env =
     (case StateCache_get D (se_cache env) nm of None \<Rightarrow> False | Some st \<Rightarrow> lifecycle st = Running)"

definition sup_all :: "('m, 's, 'p) cache_map \<Rightarrow> ('m, 'w, 'j) sup_env \<Rightarrow> (string \<times> ('s, 'p) FsmState) list" where
  "sup_all D env = StateCache_all D (se_cache env)"

subsection \<open>A concrete actor system\<close>

text \<open>
  A registry, a supply of pids, the pids of live actors and one log of delivered messages: an
  actor system with the laws of \<open>actor_registry\<close>, for the witnesses. A supervisor's child takes
  the next pid; it is registered only when its own \<open>started\<close> asks for it.
\<close>

type_synonym 'msg test_system = "(ActorSystem \<times> string \<rightharpoonup> Pid) \<times> nat \<times> Pid list \<times> (Pid \<times> 'msg) list"

definition test_joerl :: "('msg test_system, 'a, 'msg, 'spec) Joerl" where
  "test_joerl =
     \<lparr>j_whereis = (\<lambda>sys nm (reg, n, live, log). reg (sys, nm)),
      j_register = (\<lambda>sys nm pid (reg, n, live, log).
        if reg (sys, nm) = None then (Inr (), reg((sys, nm) \<mapsto> pid), n, live, log)
        else (Inl ''name already registered'', reg, n, live, log)),
      j_unregister = (\<lambda>sys nm (reg, n, live, log).
        (if reg (sys, nm) = None then Inl ''name not registered'' else Inr (), reg((sys, nm) := None), n, live, log)),
      j_spawn = (\<lambda>sys a (reg, n, live, log). (n, reg, Suc n, n # live, log)),
      j_send = (\<lambda>sys pid msg (reg, n, live, log).
        if pid \<in> set live then (Inr (), reg, n, live, log @ [(pid, msg)])
        else (Inl ''no such actor'', reg, n, live, log)),
      j_spawn_supervisor = (\<lambda>sys spec (reg, n, live, log). (reg, Suc n, n # live, log)),
      j_pid_new = (\<lambda>(reg, n, live, log). (n, reg, Suc n, live, log))\<rparr>"

interpretation test_registry: actor_registry test_joerl
  by unfold_locales (auto simp: test_joerl_def split: prod.splits)

subsection \<open>What start_fsm does\<close>

lemma initial_entry_created:
  assumes "initial_entry sv nm p w = ((s, q, lc), w')"
  shows "(\<exists>persist. sup_persistency sv = Some persist \<and> load persist nm w = (Inr (Some (lc, s, q)), w')) \<or>
    (s = initial (sup_graph sv) \<and> q = p \<and> lc = Created)"
  using assms
  by (auto simp: initial_entry_def split: option.splits prod.splits sum.splits)

lemma start_actor_result:
  assumes run: "start_actor D F sv nm fsm p env = (actor, cache, w)"
  obtains s q lc w1 where
    "initial_entry sv nm p (se_world env) = ((s, q, lc), w1)"
    "fa_state actor = (FsmState_new nm s (payload (fa_state actor)))\<lparr>lifecycle := Running\<rparr>"
    "cache = StateCache_update D (fa_state actor) (se_cache env)"
    "fa_graph actor = sup_graph sv" "fa_recover_on_start actor = False" "fa_name actor = nm"
    "fa_auto_terminate actor = sup_auto_terminate sv" "fa_persistency actor = sup_persistency sv"
    "fa_listener actor = sup_listener sv" "fa_timer_interval actor = sup_timer_interval sv"
proof -
  obtain s q lc w1 where e: "initial_entry sv nm p (se_world env) = ((s, q, lc), w1)"
    using prod_cases4 by (metis surj_pair)
  let ?st = "(FsmState_new nm s q)\<lparr>lifecycle := lc\<rparr>"
  obtain f2 st2 w2 where h1: "run_hook (on_start F) fsm ?st w1 = (f2, st2, w2)" using prod_cases3 by blast
  obtain f3 st3 w3 where h2: "run_hook (on_enter F (current st2)) f2 st2 w2 = (f3, st3, w3)"
    using prod_cases3 by blast
  have st: "st3\<lparr>lifecycle := Running\<rparr> = (FsmState_new nm s (payload st3))\<lparr>lifecycle := Running\<rparr>"
    using run_hook_fields [OF h1] run_hook_fields [OF h2]
    by (intro FsmState_eqI) (simp_all add: FsmState_new_def)
  let ?actor = "\<lparr>fa_fsm = f3, fa_state = st3\<lparr>lifecycle := Running\<rparr>, fa_graph = sup_graph sv,
            fa_persistency = sup_persistency sv, fa_listener = sup_listener sv,
            fa_auto_terminate = sup_auto_terminate sv, fa_timer_interval = sup_timer_interval sv,
            fa_name = nm, fa_recover_on_start = False, fa_system = None\<rparr>"
  from run e h1 h2 have eqs: "actor = ?actor" "cache = StateCache_update D (st3\<lparr>lifecycle := Running\<rparr>) (se_cache env)"
    by (auto simp: start_actor_def Let_def)
  show thesis
    by (rule that [OF e]) (use st in \<open>simp_all add: eqs FsmState_new_def\<close>)
qed

lemma fresh_running_simps:
  assumes "st = (FsmState_new nm s q)\<lparr>lifecycle := Running\<rparr>"
  shows "name st = nm" "current st = s" "lifecycle st = Running" "history st = history (FsmState_new nm s q)"
    "last_error st = None"
  unfolding assms by (simp_all add: FsmState_new_def)

lemma start_fsm_result:
  assumes run: "start_fsm J D F sv nm fsm p env = (res, env')"
  obtains st s q lc w1 pid actor j1 where
    "res = Inr ()" "initial_entry sv nm p (se_world env) = ((s, q, lc), w1)"
    "name st = nm" "current st = s" "lifecycle st = Running"
    "se_cache env' = StateCache_update D st (se_cache env)"
    "j_spawn J (sup_system sv) actor (se_system env) = (pid, j1)"
    "se_actors env' = (se_actors env)(nm \<mapsto> pid)"
    "se_system env' = snd (j_register J (sup_system sv) nm pid j1)"
proof -
  obtain actor cache w where sa: "start_actor D F sv nm fsm p env = (actor, cache, w)" using prod_cases3 by blast
  obtain pid j1 where sp: "j_spawn J (sup_system sv) actor (se_system env) = (pid, j1)"
    by (meson surj_pair)
  obtain r2 j2 where rg: "j_register J (sup_system sv) nm pid j1 = (r2, j2)" by (meson surj_pair)
  from sa show thesis
  proof (rule start_actor_result)
    fix s q lc w1
    assume "initial_entry sv nm p (se_world env) = ((s, q, lc), w1)"
      "fa_state actor = (FsmState_new nm s (payload (fa_state actor)))\<lparr>lifecycle := Running\<rparr>"
      "cache = StateCache_update D (fa_state actor) (se_cache env)"
    note e = this(1) and f = fresh_running_simps [OF this(2)] and c = this(3)
    from run sa sp rg c have "res = Inr ()" "se_actors env' = (se_actors env)(nm \<mapsto> pid)"
      "se_cache env' = StateCache_update D (fa_state actor) (se_cache env)" "se_system env' = j2"
      by (auto simp: start_fsm_def)
    moreover from rg have "j2 = snd (j_register J (sup_system sv) nm pid j1)" by simp
    ultimately show thesis using e f(1-3) sp by (intro that [of s q lc w1 "fa_state actor" actor pid j1]) auto
  qed
qed

context actor_registry
begin

lemma spawn_register_whereis:
  assumes sp: "j_spawn J sys actor j = (pid, j1)" and rg: "j2 = snd (j_register J sys nm pid j1)"
  shows "j_whereis J sys nm j2 = Some (case j_whereis J sys nm j of Some old \<Rightarrow> old | None \<Rightarrow> pid)"
proof -
  have j1: "j_whereis J sys nm j1 = j_whereis J sys nm j"
    using spawn_keeps [of sys nm sys actor j] sp by simp
  show ?thesis
  proof (cases "j_whereis J sys nm j1")
    case None
    with j1 rg show ?thesis by (simp add: register_free)
  next
    case (Some pid0)
    then have "j_whereis J sys nm j2 = j_whereis J sys nm j1"
      unfolding rg by (intro register_taken) simp
    with Some j1 show ?thesis by simp
  qed
qed

text \<open>What a restarted child asks for: its own name, whoever held it before.\<close>

lemma reregistered:
  assumes "j_unregister J sys nm j = (r1, j1)" "j_register J sys nm pid j1 = (r2, j2)"
  shows "j_whereis J sys nm j2 = Some pid"
proof -
  have "j_whereis J sys nm j1 = None" using unregistered [of sys nm sys nm j] assms(1) by simp
  with register_free [of sys nm j1 sys nm pid] assms(2) show ?thesis by simp
qed

end

text \<open>After \<open>start_fsm\<close> on a free name the name leads to the new actor; on a taken one, to the old.\<close>

lemma start_fsm_resolve:
  assumes reg: "actor_registry J" and run: "start_fsm J D F sv nm fsm p env = (res, env')"
  shows "\<exists>pid. se_actors env' = (se_actors env)(nm \<mapsto> pid) \<and> resolve_pid J sv nm env' =
    Inr (case j_whereis J (sup_system sv) nm (se_system env) of Some old \<Rightarrow> old | None \<Rightarrow> pid)"
  using run
proof (rule start_fsm_result)
  fix actor pid j1
  assume "j_spawn J (sup_system sv) actor (se_system env) = (pid, j1)"
    and act: "se_actors env' = (se_actors env)(nm \<mapsto> pid)"
    and "se_system env' = snd (j_register J (sup_system sv) nm pid j1)"
  from actor_registry.spawn_register_whereis [OF reg this(1,3)]
  have "resolve_pid J sv nm env' =
    Inr (case j_whereis J (sup_system sv) nm (se_system env) of Some old \<Rightarrow> old | None \<Rightarrow> pid)"
    by (simp add: resolve_pid_def)
  with act show ?thesis by blast
qed

lemma send_to_errors:
  "resolve_pid J sv nm env = Inl err \<Longrightarrow> send_to J sv nm msg env = (Inl err, env)"
  by (simp add: send_to_def)

lemma resolve_pid_unknown:
  assumes "j_whereis J (sup_system sv) nm (se_system env) = None" "se_actors env nm = None"
  shows "resolve_pid J sv nm env = Inl (err_validation (''FSM `'' @ nm @ ''` not found''))"
  using assms by (simp add: resolve_pid_def)

subsection \<open>A supervised FSM: restart and recovery\<close>

lemma started_recover_child:
  assumes "sup_persistency sv = Some P" "load P nm (en_world en) = (Inr (Some (lc, s, q)), w)"
  shows "started_recover F D pid (supervised_child sv nm dflt p) en =
    (case recover F D s q (supervised_child sv nm dflt p) (en\<lparr>en_world := w\<rparr>) of (a, en') \<Rightarrow>
       (a, env_request (ReqRegister (sup_system sv) nm pid) (env_request (ReqUnregister (sup_system sv) nm) en')))"
proof -
  obtain a en' where r: "recover F D s q (supervised_child sv nm dflt p) (en\<lparr>en_world := w\<rparr>) = (a, en')"
    by fastforce
  then have "fa_name a = nm" "fa_system a = Some (sup_system sv)"
    using recover_result(1) [OF r] by (simp_all add: same_config_def supervised_child_def)
  with assms r show ?thesis
    by (simp add: started_recover_def supervised_child_def)
qed

definition timer_request :: "Pid \<Rightarrow> Duration option \<Rightarrow> request list" where
  "timer_request pid t = (case t of None \<Rightarrow> [] | Some i \<Rightarrow> [ReqSendTick pid i])"

lemma supervised_child_recovers:
  assumes P: "sup_persistency sv = Some P" "load P nm (en_world en) = (Inr (Some (lc, s, q)), w)"
    and quiet: "hard_event (sup_graph sv) s = None"
  obtains a' en' where
    "started F D pid (supervised_child sv nm dflt p) en = Some (a', en')"
    "fa_state a' = (FsmState_new nm s (payload (fa_state a')))\<lparr>lifecycle := Running\<rparr>"
    "en_cache en' = StateCache_update D (fa_state a') (en_cache en)"
    "en_requests en' = en_requests en @
       [ReqUnregister (sup_system sv) nm, ReqRegister (sup_system sv) nm pid] @ timer_request pid (sup_timer_interval sv)"
proof -
  let ?a = "supervised_child sv nm dflt p" and ?en = "en\<lparr>en_world := w\<rparr>"
  obtain a en1 where r: "recover F D s q ?a ?en = (a, en1)" by fastforce
  note rr = recover_result [OF r]
  have cfg: "fa_graph a = sup_graph sv" "fa_timer_interval a = sup_timer_interval sv" "fa_name ?a = nm"
    using rr(1) by (simp_all add: same_config_def supervised_child_def)
  have st: "fa_state a = (FsmState_new nm s (payload (fa_state a)))\<lparr>lifecycle := Running\<rparr>"
    using rr(2) cfg(3) by simp
  then have "current (fa_state a) = s"
    by (metis FsmState.select_convs(2) FsmState.surjective FsmState.update_convs(5) FsmState_new_def)
  with quiet cfg have quiet': "hard_event (fa_graph a) (current (fa_state a)) = None" by simp
  show thesis
  proof (rule that [of a "case fa_timer_interval a of
        None \<Rightarrow> env_request (ReqRegister (sup_system sv) nm pid) (env_request (ReqUnregister (sup_system sv) nm) en1)
      | Some i \<Rightarrow> env_request (ReqSendTick pid i)
          (env_request (ReqRegister (sup_system sv) nm pid) (env_request (ReqUnregister (sup_system sv) nm) en1))"])
  qed (use st rr(3,4) cfg quiet' r in
      \<open>simp_all add: started_def started_recover_child [OF P] timer_request_def split: option.split\<close>)
qed

text \<open>
  Without a stored entry nothing of the recovery runs: the child stays \<open>Created\<close> in the initial
  state, and neither the callbacks nor the cache hear of it.
\<close>

lemma supervised_child_fresh:
  assumes P: "sup_persistency sv = None" and quiet: "hard_event (sup_graph sv) (initial (sup_graph sv)) = None"
  shows "started F D pid (supervised_child sv nm dflt p) en =
    Some (supervised_child sv nm dflt p, en\<lparr>en_requests := en_requests en @
      [ReqUnregister (sup_system sv) nm, ReqRegister (sup_system sv) nm pid] @ timer_request pid (sup_timer_interval sv)\<rparr>)"
  using assms
  by (simp add: started_def started_recover_def supervised_child_def FsmState_new_def env_request_def
      timer_request_def split: option.split)

subsection \<open>The first entry of a supervised FSM\<close>

context persistency
begin

lemma ensure_stored_result:
  assumes P: "sup_persistency sv = Some P" and e: "w' = ensure_stored sv nm p w"
  shows "(stored w' = stored w \<and> (\<exists>entry. stored w nm = Some entry)) \<or>
    (\<exists>res. store P nm (initial (sup_graph sv)) p (snd (load P nm w)) = (res, w'))"
proof -
  obtain res w1 where l: "load P nm w = (res, w1)" by (meson surj_pair)
  show ?thesis
  proof (cases "\<exists>entry. res = Inr (Some entry)")
    case True
    then obtain entry where r: "res = Inr (Some entry)" by blast
    with P e l have "w' = w1" by (simp add: ensure_stored_def)
    have "stored w1 = stored w" using load_keeps [of nm w] l by simp
    moreover have "stored w nm = Some entry" using load_result [of nm w "Some entry"] l r by simp
    ultimately show ?thesis using \<open>w' = w1\<close> by blast
  next
    case False
    with P e l have "w' = snd (store P nm (initial (sup_graph sv)) p w1)"
      by (auto simp: ensure_stored_def split: sum.splits option.splits)
    with l show ?thesis by (metis prod.collapse snd_conv)
  qed
qed

text \<open>A load that fails counts as nothing stored: the initial state is written over what there is.\<close>

lemma ensure_stored_overwrites:
  assumes "sup_persistency sv = Some P" "load P nm w = (Inl e, w1)"
    and "store P nm (initial (sup_graph sv)) p w1 = (Inr (), w2)"
  shows "\<exists>lc. stored (ensure_stored sv nm p w) = (stored w)(nm \<mapsto> (lc, initial (sup_graph sv), p))"
proof -
  have "ensure_stored sv nm p w = w2" using assms by (simp add: ensure_stored_def)
  moreover have "stored w1 = stored w" using load_keeps [of nm w] assms(2) by simp
  ultimately show ?thesis using store_result [OF assms(3)] by simp
qed

end

end
