(* ===== verification/Props_Actor.thy ===== *)
theory Props_Actor
  imports Fsm_Supervisor Props_Engine
begin

section \<open>Properties of the FSM actor\<close>

text \<open>
  What \<open>supervisor.rs\<close> promises of the actor that owns an FSM, over its whole life and for each
  of its handlers. The witnesses run the test machine of \<open>engine.rs\<close> inside an actor.
\<close>

subsection \<open>The test machine inside an actor\<close>

definition test_actor :: "(unit, 'w, test_state, test_event, test_payload) FsmActor" where
  "test_actor = \<lparr>fa_fsm = (), fa_state = test_entry\<lparr>lifecycle := Running\<rparr>, fa_graph = test_graph,
     fa_persistency = None, fa_listener = None, fa_auto_terminate = True, fa_timer_interval = Some 5,
     fa_name = ''fsm'', fa_recover_on_start = False, fa_system = None\<rparr>"

definition test_env :: "((string, (test_state, test_payload) FsmState) fmap, unit \<times> (test_state, test_event, test_payload) call list) env" where
  "test_env = \<lparr>en_cache = fmempty, en_world = ((), []), en_requests = []\<rparr>"

lemma test_actor_fields [simp]:
  "fa_state test_actor = test_entry\<lparr>lifecycle := Running\<rparr>" "fa_graph test_actor = test_graph"
  "fa_auto_terminate test_actor = True" "fa_recover_on_start test_actor = False"
  "fa_persistency test_actor = None" "fa_listener test_actor = None" "fa_timer_interval test_actor = Some 5"
  by (simp_all add: test_actor_def)

lemma test_env_fields [simp]: "en_requests test_env = []" "en_world test_env = ((), [])" "en_cache test_env = fmempty"
  by (simp_all add: test_env_def)

lemma test_graph_quiet [simp]: "hard_event test_graph s = None"
  by (simp add: hard_event_def events_for_scan test_graph_transitions)

lemma test_started:
  "started (logged TestFsm) fmap_dash_map pid test_actor test_env =
     Some (test_actor, env_request (ReqSendTick pid 5) test_env)"
  by (simp add: started_def started_recover_def)

lemma test_life: "life (logged TestFsm) fmap_dash_map 0 test_actor test_env False test_actor
    (env_request (ReqSendTick 0 5) test_env)"
  by (rule life.spawned [OF test_started])

text \<open>A whole life: \<open>Start\<close>, then \<open>Finish\<close>, which auto-terminates, then the \<open>stopped\<close> hook.\<close>

definition test_running :: "(unit, 'w, test_state, test_event, test_payload) FsmActor" where
  "test_running = test_actor\<lparr>fa_state := moved Transitioned StRunning 1 test_entry\<rparr>"

definition test_done :: "(unit, 'w, test_state, test_event, test_payload) FsmActor" where
  "test_done = test_actor\<lparr>fa_state := moved AutoTerminate StDone 1 (moved Transitioned StRunning 1 test_entry)\<rparr>"

lemma test_start_message:
  "\<exists>en'. handle_message (logged TestFsm) fmap_dash_map 0 (TransitionMsg EvStart 0) test_actor en = Some (test_running, en') \<and>
     en_requests en' = en_requests en \<and>
     snd (en_world en') = snd (en_world en) @ [CExit StIdle, CTransition StIdle EvStart, CEnter StRunning]"
proof -
  obtain w l where w: "en_world en = (w, l)" by fastforce
  have "turn (logged TestFsm) fmap_dash_map test_actor EvStart 0 en =
      (Inr Transitioned, test_running, env_cache_update fmap_dash_map (moved Transitioned StRunning 1 test_entry)
        (en\<lparr>en_world := (w, l @ [CExit StIdle, CTransition StIdle EvStart, CEnter StRunning])\<rparr>))"
    using w by (simp add: turn_def transit_def transit_target_def transit_commit_def actor_ctx_def
        Let_def clear_error_def transition_to_def is_final_def moved_def run_hook_def log_hook_def test_running_def)
      (simp add: test_actor_def test_entry_def FsmState_new_def)
  with w show ?thesis
    by (simp add: handle_message_def do_transition_turn [of _ _ test_actor] chain_next_def chain_end_def)
qed

lemma test_finish_message:
  "\<exists>en'. handle_message (logged TestFsm) fmap_dash_map 0 (TransitionMsg EvFinish 0) test_running en = Some (test_done, en') \<and>
     snd (en_world en') = snd (en_world en) @ [CExit StRunning, CTransition StRunning EvFinish, CEnter StDone, CTerminate]"
proof -
  obtain w l where w: "en_world en = (w, l)" by fastforce
  have "turn (logged TestFsm) fmap_dash_map test_running EvFinish 0 en =
      (Inr AutoTerminate, test_done, env_cache_update fmap_dash_map (moved AutoTerminate StDone 1 (moved Transitioned StRunning 1 test_entry))
        (en\<lparr>en_world := (w, l @ [CExit StRunning, CTransition StRunning EvFinish, CEnter StDone, CTerminate])\<rparr>))"
    using w by (simp add: turn_def transit_def transit_target_def transit_commit_def actor_ctx_def
        Let_def clear_error_def transition_to_def is_final_def moved_def run_hook_def log_hook_def
        test_running_def test_done_def)
      (simp add: test_actor_def test_entry_def FsmState_new_def)
  with w show ?thesis
    by (simp add: handle_message_def do_transition_turn [of _ _ test_running] chain_next_def chain_end_def)
qed

lemma test_whole_life:
  "\<exists>en. life (logged TestFsm) fmap_dash_map 0 test_actor test_env True test_done en \<and>
     snd (en_world en) = [CExit StIdle, CTransition StIdle EvStart, CEnter StRunning,
       CExit StRunning, CTransition StRunning EvFinish, CEnter StDone, CTerminate]"
proof -
  let ?en0 = "env_request (ReqSendTick 0 5) test_env"
  from test_start_message [of ?en0] obtain en1 where
    m1: "handle_message (logged TestFsm) fmap_dash_map 0 (TransitionMsg EvStart 0) test_actor ?en0 = Some (test_running, en1)"
    and e1: "en_requests en1 = en_requests ?en0"
      "snd (en_world en1) = [CExit StIdle, CTransition StIdle EvStart, CEnter StRunning]" by auto
  have l1: "life (logged TestFsm) fmap_dash_map 0 test_actor test_env False test_running en1"
    by (rule life.message [OF test_life _ m1]) (simp add: stop_requested_def)
  from test_finish_message [of en1] obtain en2 where
    m2: "handle_message (logged TestFsm) fmap_dash_map 0 (TransitionMsg EvFinish 0) test_running en1 = Some (test_done, en2)"
    and e2: "snd (en_world en2) = snd (en_world en1) @ [CExit StRunning, CTransition StRunning EvFinish, CEnter StDone, CTerminate]"
    by auto
  have "\<not> stop_requested en1" using e1 by (simp add: stop_requested_def)
  from life.message [OF l1 this m2]
  have l2: "life (logged TestFsm) fmap_dash_map 0 test_actor test_env False test_done en2" .
  have "stopped (logged TestFsm) fmap_dash_map test_done en2 = (test_done, en2)"
    by (rule stopped_noop) (simp add: test_done_def)
  from life.finished [OF l2 this] e1 e2 show ?thesis by auto
qed

lemma test_before_stop: "before_stop test_actor test_env"
  by (simp add: before_stop_def logged_actor_def stop_requested_def terminations_def)

lemma test_hard_acyclic: "hard_acyclic test_graph"
proof -
  have none: "hard_succ test_graph s x = False" for s x
    by (simp add: hard_succ_def)
  show ?thesis unfolding hard_acyclic_def none by (simp add: acyclic_def)
qed

subsection \<open>A whole life\<close>

text \<open>
  C6: whatever messages an actor handles, in whatever order, and however it ends, its state is
  reached from the one it started in (after recovery) by a path of declared transitions, its
  history is the starting history with the states of that path pushed in order, and the state
  invariant (the history ends in the current state, holds at most 32 entries and no two equal
  neighbours) is kept; the graph and the rest of its configuration never change.
\<close>

theorem life_follows_graph:
  assumes "life F D pid a0 en0 d a en" "graph_inv (fa_graph a0)" "state_inv (fa_state a0)"
    and "started_recover F D pid a0 en0 = (b, en1)"
  shows "same_config a0 a \<and> state_inv (fa_state a) \<and> name (fa_state a) = name (fa_state b) \<and>
    (\<exists>p. graph_path (fa_graph a0) (current (fa_state b)) p (current (fa_state a)) \<and>
       history (fa_state a) = foldl BoundedHistory_push (history (fa_state b)) (map snd p))"
proof -
  have ab: "same_config a0 b" "state_inv (fa_state b)"
    using started_recover_result(1) started_recover_state_inv assms(3,4) by blast+
  then have g: "graph_inv (fa_graph b)" "fa_graph b = fa_graph a0"
    using assms(2) by (simp_all add: same_config_def)
  from life_runs_to [OF assms(1)] assms(4) have "runs_to b a" by simp
  then obtain p where cfg: "same_config b a"
    and run: "fsm_run (fa_graph b) (fa_auto_terminate b) (fa_state b) p (fa_state a)"
    by (auto simp: runs_to_def)
  from fsm_run_path [OF g(1) run] fsm_run_history [OF g(1) run] fsm_run_frame [OF run]
    fsm_run_state_inv [OF run ab(2)] same_config_trans [OF ab(1) cfg] g(2)
  show ?thesis by auto
qed

theorem life_follows_graph_witness:
  "\<exists>p. graph_path test_graph StIdle p StDone \<and>
     history (fa_state test_done) = foldl BoundedHistory_push (history test_entry) (map snd p)"
proof -
  obtain en where "life (logged TestFsm) fmap_dash_map 0 test_actor test_env True test_done en"
    using test_whole_life by blast
  from life_follows_graph [OF this, of test_actor test_env] state_inv_new [of "''fsm''" StIdle "0::test_payload"]
  show ?thesis by (simp add: started_recover_def test_entry_def [symmetric]) (simp add: test_done_def)
qed

text \<open>
  C7: \<open>on_terminate\<close> is called at most once in the life of an actor, and exactly when its FSM is
  \<open>Terminated\<close>: by auto-termination, by a shutdown message, or by the \<open>stopped\<close> hook when the
  actor is stopped while the FSM runs. An actor whose \<open>stopped\<close> hook has run is not \<open>Running\<close>.
\<close>

theorem life_terminates:
  assumes "life (logged F) D pid a0 en0 d a en" "before_stop a0 en0"
  shows "count_list (snd (en_world en)) CTerminate = (if lifecycle (fa_state a) = Terminated then 1 else 0) \<and>
    (d \<longrightarrow> lifecycle (fa_state a) \<noteq> Running)"
  using life_terminates_once [OF assms] life_finished_not_running [of "logged F" D pid a0 en0 a en] assms(1)
  by (auto simp: terminations_def)

theorem life_terminates_witness:
  "\<exists>en. life (logged TestFsm) fmap_dash_map 0 test_actor test_env True test_done en \<and>
     count_list (snd (en_world en)) CTerminate = 1"
proof -
  obtain en where l: "life (logged TestFsm) fmap_dash_map 0 test_actor test_env True test_done en"
    using test_whole_life by blast
  from life_terminates [OF l test_before_stop] l show ?thesis by (auto simp: test_done_def)
qed

subsection \<open>Chains of hard events\<close>

text \<open>
  C8: if the hard events of the graph form no cycle, \<open>do_transition\<close> returns, for every event and
  every behaviour of the callbacks.
\<close>

theorem do_transition_total:
  assumes "graph_inv (fa_graph a)" "hard_acyclic (fa_graph a)"
  shows "\<exists>b en'. do_transition F D a ev ep en = Some (b, en')"
  using do_transition_returns [OF assms, of F D ev ep en] by auto

theorem do_transition_total_witness:
  "\<exists>b en'. do_transition TestFsm fmap_dash_map test_actor EvStart 0 test_env = Some (b, en')"
  using do_transition_total [of test_actor TestFsm fmap_dash_map EvStart 0 test_env] test_hard_acyclic by simp

text \<open>Nothing keeps a target from being stored: there is no backend, or its stores all succeed.\<close>

definition always_stores :: "('w, 's, 'p) Persistency option \<Rightarrow> bool" where
  "always_stores backend \<longleftrightarrow> (\<forall>P i s p w. backend = Some P \<longrightarrow> fst (store P i s p w) = Inr ())"

lemma always_stores_None [simp]: "always_stores None"
  by (simp add: always_stores_def)

definition takes_to :: "'s \<Rightarrow> ('s, 'p) TransitionResult \<Rightarrow> bool" where
  "takes_to s res \<longleftrightarrow> (case res of Ok target \<Rightarrow> target = s | OkWithPayload target q \<Rightarrow> target = s | Error err \<Rightarrow> False)"

lemma turn_settled:
  assumes al: "allowed (fa_graph a) (current (fa_state a)) ev = Some (tos, kind)" and s: "s \<in> set tos"
    and P: "always_stores (fa_persistency a)"
    and F: "\<And>x. takes_to s (fst (on_transition F (current (fa_state a)) ev ep x))"
    and t: "turn F D a ev ep en = (r, a', en')"
  shows "r = Inr (outcome (fa_graph a) (fa_auto_terminate a) kind s) \<and> current (fa_state a') = s"
proof -
  let ?st = "fa_state a" and ?g = "fa_graph a"
  obtain f1 p1 w1 where ex: "on_exit F (current ?st) (fa_fsm a, payload ?st, en_world en) = (f1, p1, w1)"
    using prod_cases3 by blast
  obtain res f2 p2 w2 where tr: "on_transition F (current ?st) ev ep (f1, p1, w1) = (res, f2, p2, w2)"
    using prod_cases4 by blast
  obtain r1 f3 st3 w3 where run: "transit F (fa_fsm a) ?g ?st ev ep (actor_ctx a) (en_world en) = (r1, f3, st3, w3)"
    using prod_cases4 by blast
  have "takes_to s res" using F [of "(f1, p1, w1)"] tr by simp
  then obtain q where tt: "transit_target F ?g (actor_ctx a) tos kind f2 (?st\<lparr>payload := q\<rparr>) (current ?st) s ev w2 =
      (r1, f3, st3, w3)"
    using al ex tr run by (cases res) (auto simp: takes_to_def transit_def run_hook_def)
  have "r1 = Inr (outcome ?g (fa_auto_terminate a) kind s)"
    using transit_target_fst [where F = F and g = ?g and ctx = "actor_ctx a" and tos = tos and kind = kind
        and st = ?st and target = s and ev = ev and w = w2 and q = q and ?f2.0 = f2] tt s P
    by (auto simp: settled_def actor_ctx_def always_stores_def split: option.splits sum.splits)
  moreover from transit_target_result [OF tt] this have "current st3 = s" by (metis Inr_Inl_False moved_simps(1))
  ultimately show ?thesis using t run by (auto simp: turn_def)
qed

text \<open>
  C9: on a hard transition from a state to itself \<open>do_transition\<close> does not return, if it is the
  transition of the first hard event of the state, \<open>on_transition\<close> answers that event with the state
  every time, no backend refuses to store it, and the state does not end the machine (by
  auto-termination in a final state): each turn fires the same event again.
\<close>

theorem hard_loop_diverges:
  assumes "hard_event (fa_graph a) s = Some ev" "allowed (fa_graph a) s ev = Some (tos, Hard)" "s \<in> set tos"
    and "\<not> (fa_auto_terminate a \<and> is_final (fa_graph a) s)" "always_stores (fa_persistency a)"
    and "\<And>ep x. takes_to s (fst (on_transition F s ev ep x))" "current (fa_state a) = s"
  shows "do_transition F D a ev ep en = None"
proof -
  let ?I = "\<lambda>b ev'. same_config a b \<and> current (fa_state b) = s \<and> ev' = ev"
  show ?thesis
  proof (rule do_transition_diverges [where I = ?I])
    show "?I a ev" using assms(7) by simp
    fix b ev' ep en
    assume I: "?I b ev'"
    obtain r b' en' where t: "turn F D b ev' ep en = (r, b', en')" using prod_cases3 by blast
    have cfg: "fa_graph b = fa_graph a" "fa_auto_terminate b = fa_auto_terminate a" "always_stores (fa_persistency b)"
      using I assms(5) by (simp_all add: same_config_def)
    have "r = Inr HardContinue \<and> current (fa_state b') = s"
      using turn_settled [OF _ assms(3) cfg(3) _ t, of Hard] I cfg assms(2,4,6)
      by (simp add: outcome_def)
    moreover have "same_config a b'" using I turn_result(1) [OF t] same_config_trans by blast
    moreover from this have "hard_event (fa_graph b') (current (fa_state b')) = Some ev"
      using calculation assms(1) by (simp add: same_config_def)
    ultimately show "\<exists>b' en' evt. turn F D b ev' ep en = (Inr HardContinue, b', en') \<and>
      hard_event (fa_graph b') (current (fa_state b')) = Some evt \<and> ?I b' evt"
      using t I by blast
  qed
qed

definition loop_graph :: "(test_state, test_event) TransitionGraph" where
  "loop_graph = TransitionGraph_new StIdle {|StDone|}
     [\<lparr>t_from = StIdle, t_to = [StIdle], t_event = EvStart, t_kind = Hard\<rparr>]"

theorem hard_loop_diverges_witness:
  "do_transition (default_callbacks (\<lambda>s e ep x. (Ok s, x)) test_state_debug test_event_debug) fmap_dash_map
     (test_actor\<lparr>fa_graph := loop_graph\<rparr>) EvStart 0 test_env = None"
  by (rule hard_loop_diverges [where s = StIdle and tos = "[StIdle]"])
     (simp_all add: loop_graph_def hard_event_def events_for_scan allowed_scan graph_inv_new is_final_def
       default_callbacks_def takes_to_def)

text \<open>
  An event that does not answer with a hard transition fires nothing but itself, whatever
  hard events its target has: \<open>do_transition\<close> is one call of \<open>transit\<close>, the cache update and the
  stop request of an auto-termination.
\<close>

lemma soft_or_normal_fires_once:
  assumes "\<And>tos. allowed (fa_graph a) (current (fa_state a)) ev \<noteq> Some (tos, Hard)"
    and "transit F (fa_fsm a) (fa_graph a) (fa_state a) ev ep (actor_ctx a) (en_world en) = (r, f, st, w)"
  shows "do_transition F D a ev ep en = Some (a\<lparr>fa_fsm := f, fa_state := st\<rparr>,
    \<lparr>en_cache = StateCache_update D st (en_cache en), en_world = w,
     en_requests = en_requests en @ (if r = Inr AutoTerminate then [ReqStopNormal] else [])\<rparr>)"
proof -
  have "r \<noteq> Inr HardContinue"
    using transit_refines_step [OF assms(2)] assms(1)
    by (auto elim!: fsm_step_InrE simp: outcome_def split: if_splits)
  with assms(2) show ?thesis
    by (subst do_transition_turn)
       (simp add: turn_def chain_next_def chain_end_def env_cache_update_def env_request_def)
qed

definition half_hard_graph :: "(test_state, test_event) TransitionGraph" where
  "half_hard_graph = TransitionGraph_new StIdle {|StDone|}
     [\<lparr>t_from = StIdle, t_to = [StRunning], t_event = EvStart, t_kind = Normal\<rparr>,
      \<lparr>t_from = StRunning, t_to = [StDone], t_event = EvFinish, t_kind = Hard\<rparr>]"

lemma half_hard_allowed [simp]: "allowed half_hard_graph StIdle EvStart = Some ([StRunning], Normal)"
  by (simp add: half_hard_graph_def allowed_scan graph_inv_new)

lemma soft_or_normal_fires_once_witness:
  "hard_event half_hard_graph StRunning = Some EvFinish \<and>
   (\<exists>b en'. do_transition TestFsm fmap_dash_map (test_actor\<lparr>fa_graph := half_hard_graph\<rparr>) EvStart 0 test_env =
      Some (b, en') \<and> current (fa_state b) = StRunning)"
proof
  show "hard_event half_hard_graph StRunning = Some EvFinish"
    by (simp add: half_hard_graph_def hard_event_def events_for_scan graph_inv_new)
  let ?a = "test_actor\<lparr>fa_graph := half_hard_graph\<rparr>"
  have run: "transit TestFsm (fa_fsm ?a) (fa_graph ?a) (fa_state ?a) EvStart 0 (actor_ctx ?a) (en_world test_env) =
     (Inr Transitioned, (), moved Transitioned StRunning 1 test_entry, ((), []))"
    by (simp add: transit_def transit_target_def transit_commit_def run_hook_def actor_ctx_def
        Let_def clear_error_def transition_to_def is_final_def moved_def half_hard_graph_def allowed_scan
        graph_inv_new)
  show "\<exists>b en'. do_transition TestFsm fmap_dash_map ?a EvStart 0 test_env =
      Some (b, en') \<and> current (fa_state b) = StRunning"
    by (subst soft_or_normal_fires_once [OF _ run]) simp_all
qed

subsection \<open>The handlers\<close>

text \<open>
  After a transition message or a shutdown message the cache holds, under the name of the
  machine, exactly the state the actor is in, also when the transition failed; every other entry
  is as it was.
\<close>

lemma handled_state_is_cached:
  assumes "state_cache D" "handle_message F D pid msg a en = Some (b, en')"
    and "msg = ShutdownMsg \<or> (\<exists>ev ep. msg = TransitionMsg ev ep)"
  shows "StateCache_get D (en_cache en') nm =
    (if nm = name (fa_state a) then Some (fa_state b) else StateCache_get D (en_cache en) nm)"
proof (cases msg)
  case (TransitionMsg ev ep)
  with assms(2) have "do_transition F D a ev ep en = Some (b, en')" by (simp add: handle_message_def)
  from state_cache.do_transition_cache [OF assms(1) this] show ?thesis .
next
  case ShutdownMsg
  with assms(2) have "handle_message F D pid ShutdownMsg a en = Some (b, en')" by simp
  from shutdown_result(2,7) [OF this] show ?thesis
    by (simp add: state_cache.get_update [OF assms(1)])
qed (use assms(3) in auto)

lemma handled_state_is_cached_witness:
  "StateCache_get fmap_dash_map (StateCache_update fmap_dash_map
     ((fa_state test_actor)\<lparr>lifecycle := Terminated\<rparr>) fmempty) ''fsm'' =
   Some ((fa_state test_actor)\<lparr>lifecycle := Terminated\<rparr>)"
proof -
  have "handle_message TestFsm fmap_dash_map 0 ShutdownMsg test_actor test_env =
      Some (set_lifecycle Terminated test_actor, env_request ReqStopNormal
        (env_cache_update fmap_dash_map ((fa_state test_actor)\<lparr>lifecycle := Terminated\<rparr>) test_env))"
    by (simp add: handle_message_def actor_hook_def run_hook_def set_lifecycle_def Let_def)
  from handled_state_is_cached [OF fmap_cache.state_cache_axioms this, of "''fsm''"]
  show ?thesis by simp
qed

text \<open>
  C10: a transition message makes the actor ask to be stopped exactly when it leaves the FSM
  \<open>Terminated\<close>, once, and this happens only with auto-termination configured and a final state
  reached; it asks for nothing else.
\<close>

theorem stop_iff_terminated:
  assumes "handle_message F D pid (TransitionMsg ev ep) a en = Some (b, en')"
    and "lifecycle (fa_state a) \<noteq> Terminated"
  shows "en_requests en' = en_requests en @
      (if lifecycle (fa_state b) = Terminated then [ReqStopNormal] else []) \<and>
    (lifecycle (fa_state b) = Terminated \<longrightarrow>
       fa_auto_terminate a \<and> is_final (fa_graph a) (current (fa_state b)))"
proof -
  from assms(1) have "do_transition F D a ev ep en = Some (b, en')" by (simp add: handle_message_def)
  then show ?thesis using assms(2)
  proof (induction rule: do_transition_induct)
    case (Last a ev ep en r a' en')
    note t = turn_result [OF Last(1)]
    note T = fsm_step_not_terminated [OF t(2) Last.prems]
    show ?case
    proof (cases "r = Inr AutoTerminate")
      case True
      with T t fsm_step_terminates [of "fa_graph a" "fa_auto_terminate a" "fa_state a" ev "fa_state a'"]
      show ?thesis by (simp add: chain_end_def)
    next
      case False
      with T t show ?thesis by (simp add: chain_end_def)
    qed
  next
    case (Chain a ev ep en a' en' evt b en2)
    note t = turn_result [OF Chain.hyps(1)]
    have "lifecycle (fa_state a') \<noteq> Terminated"
      using fsm_step_not_terminated [OF t(2) Chain.prems] by simp
    with Chain.IH t show ?case by (simp add: same_config_def)
  qed
qed

lemma test_transition_message:
  "handle_message TestFsm fmap_dash_map 0 (TransitionMsg EvFinish 0)
     (test_actor\<lparr>fa_state := test_entry\<lparr>current := StRunning, lifecycle := Running\<rparr>\<rparr>) test_env =
   Some (test_actor\<lparr>fa_state := moved AutoTerminate StDone 0 test_entry\<rparr>,
     env_request ReqStopNormal
       (env_cache_update fmap_dash_map (moved AutoTerminate StDone 0 test_entry) test_env))"
proof -
  let ?a = "test_actor\<lparr>fa_state := test_entry\<lparr>current := StRunning, lifecycle := Running\<rparr>\<rparr>"
  have "turn TestFsm fmap_dash_map ?a EvFinish 0 test_env =
     (Inr AutoTerminate, test_actor\<lparr>fa_state := moved AutoTerminate StDone 0 test_entry\<rparr>,
      env_cache_update fmap_dash_map (moved AutoTerminate StDone 0 test_entry) test_env)"
    by (simp add: turn_def transit_def transit_target_def transit_commit_def run_hook_def actor_ctx_def
        Let_def clear_error_def transition_to_def is_final_def moved_def)
      (simp add: test_actor_def test_env_def test_entry_def FsmState_new_def)
  then show ?thesis
    unfolding handle_message_def
    by (simp, subst do_transition_turn) (simp add: chain_next_def chain_end_def)
qed

theorem stop_iff_terminated_witness:
  "is_final test_graph (current (moved AutoTerminate StDone (0::test_payload) test_entry))"
  using stop_iff_terminated [OF test_transition_message] by simp

text \<open>
  A shutdown message always succeeds, in any state: \<open>on_terminate\<close> is the one callback called,
  the FSM ends \<open>Terminated\<close> in the state and with the history it had, and the actor asks to be
  stopped.
\<close>

lemma shutdown_terminates:
  assumes "en_world en = (w, l)"
  shows "\<exists>b en'. handle_message (logged F) D pid ShutdownMsg a en = Some (b, en') \<and>
    snd (en_world en') = l @ [CTerminate] \<and>
    fa_state b = (fa_state a)\<lparr>payload := payload (fa_state b), lifecycle := Terminated\<rparr> \<and>
    en_requests en' = en_requests en @ [ReqStopNormal]"
proof -
  obtain f p v where h: "on_terminate F (fa_fsm a, payload (fa_state a), w) = (f, p, v)"
    using prod_cases3 by blast
  show ?thesis
    using h assms
    by (simp add: handle_message_def actor_hook_def run_hook_def log_hook_def set_lifecycle_def Let_def)
qed

text \<open>
  The timer. A tick that is handled asks for the next tick exactly when a timer is configured
  and the FSM is \<open>Running\<close> afterwards, after whatever the transition it caused asked for; an FSM
  that the tick terminated, or that was never \<open>Running\<close>, gets no further tick.
\<close>

lemma tick_reschedules:
  assumes "handle_message F D pid TimerTickMsg a en = Some (b, en')"
  shows "en_requests en' = en_requests en @
      (if lifecycle (fa_state b) = Running
       then (case fa_timer_interval a of None \<Rightarrow> [] | Some i \<Rightarrow> [ReqSendTick pid i]) else []) \<or>
    (en_requests en' = en_requests en @ [ReqStopNormal] \<and> lifecycle (fa_state b) = Terminated)"
proof -
  from assms obtain en1 where tick: "handle_timer_tick F D a en = Some (b, en1)"
    and en': "en' = (case fa_timer_interval b of
       Some i \<Rightarrow> if lifecycle (fa_state b) = Running then env_request (ReqSendTick pid i) en1 else en1
     | None \<Rightarrow> en1)"
    by (auto elim: tick_result)
  have ti: "fa_timer_interval b = fa_timer_interval a"
    using handle_timer_tick_run(1) [OF tick] by (simp add: same_config_def)
  have "en_requests en1 = en_requests en \<or>
      en_requests en1 = en_requests en @ [ReqStopNormal] \<and> lifecycle (fa_state b) = Terminated"
    using tick by (auto simp: handle_timer_tick_def Let_def split: prod.splits option.splits
        dest!: do_transition_requests)
  with en' ti show ?thesis by (auto split: option.splits)
qed

lemma tick_reschedules_witness:
  "\<exists>b en'. handle_message TestFsm fmap_dash_map 7 TimerTickMsg test_actor test_env = Some (b, en') \<and>
     en_requests en' = [ReqSendTick 7 5]"
proof -
  have run: "handle_message TestFsm fmap_dash_map 7 TimerTickMsg test_actor test_env =
      Some (test_actor, env_request (ReqSendTick 7 5) test_env)"
    by (simp add: handle_message_def handle_timer_tick_def Let_def)
  with tick_reschedules [OF run] show ?thesis by simp
qed

end
