(* ===== verification/Fsm_System.thy ===== *)
theory Fsm_System
  imports Fsm_Supervisor
begin

section \<open>Supervisor and actors together\<close>

text \<open>
  The composition of the parts of \<open>supervisor.rs\<close>: one supervisor, the actors it has spawned, and
  the cache and the outside world they share. The actors run concurrently, one handler at a time
  each; a handler acts on the cache and the world through calls that are atomic, and the steps
  below interleave whole handlers of different actors in any order. Between handlers anything may
  happen that leaves the cache alone: sends, \<open>spawn_supervised\<close>, work of \<open>joerl\<close>, changes of the
  outside world. An actor may crash at any moment, also in the middle of a handler, so a crash
  leaves the world and the cache entry of that actor's own name in any state.

  An FSM is started under any name: nobody refuses one that a live actor has, and the start leaves
  two actors under one name, which the cache cannot tell apart. Two sets record what has happened so
  far, and no step reads them: \<open>sy_lost\<close> holds the names of actors that crashed, \<open>sy_shared\<close> the names
  that were started again while a live actor had them.
\<close>

record ('f, 'w, 's, 'e, 'p) hosted =
  h_actor :: "('f, 'w, 's, 'e, 'p) FsmActor"
  h_requests :: "request list"
  h_started :: bool

record ('f, 'm, 'w, 's, 'e, 'p, 'j) fsm_system =
  sy_env :: "('m, 'w, 'j) sup_env"
  sy_live :: "Pid \<rightharpoonup> ('f, 'w, 's, 'e, 'p) hosted"
  sy_lost :: "string set"
  sy_shared :: "string set"

definition system_new :: "('m, 's, 'p) cache_map \<Rightarrow> 'w \<Rightarrow> 'j \<Rightarrow> ('f, 'm, 'w, 's, 'e, 'p, 'j) fsm_system" where
  "system_new D w j = \<lparr>sy_env = sup_env_new D w j, sy_live = Map.empty, sy_lost = {}, sy_shared = {}\<rparr>"

text \<open>What a handler of an actor acts on, and the system after it.\<close>

definition hosted_env :: "('f, 'm, 'w, 's, 'e, 'p, 'j) fsm_system \<Rightarrow> ('f, 'w, 's, 'e, 'p) hosted \<Rightarrow> ('m, 'w) env" where
  "hosted_env s h = \<lparr>en_cache = se_cache (sy_env s), en_world = se_world (sy_env s), en_requests = h_requests h\<rparr>"

definition after_handler :: "('f, 'm, 'w, 's, 'e, 'p, 'j) fsm_system \<Rightarrow> Pid \<Rightarrow>
    ('f, 'w, 's, 'e, 'p) FsmActor \<times> ('m, 'w) env \<Rightarrow> ('f, 'm, 'w, 's, 'e, 'p, 'j) fsm_system" where
  "after_handler s pid r =
     s\<lparr>sy_env := (sy_env s)\<lparr>se_cache := en_cache (snd r), se_world := en_world (snd r)\<rparr>,
       sy_live := (sy_live s)(pid \<mapsto> \<lparr>h_actor = fst r, h_requests = en_requests (snd r), h_started = True\<rparr>)\<rparr>"

definition free_name :: "string \<Rightarrow> ('f, 'm, 'w, 's, 'e, 'p, 'j) fsm_system \<Rightarrow> bool" where
  "free_name nm s \<longleftrightarrow> (\<forall>pid h. sy_live s pid = Some h \<longrightarrow> fa_name (h_actor h) \<noteq> nm)"

text \<open>The record of a start under the name: the name is shared from now on, if a live actor has it.\<close>

definition note_name :: "string \<Rightarrow> ('f, 'm, 'w, 's, 'e, 'p, 'j) fsm_system \<Rightarrow> ('f, 'm, 'w, 's, 'e, 'p, 'j) fsm_system" where
  "note_name nm s = (if free_name nm s then s else s\<lparr>sy_shared := insert nm (sy_shared s)\<rparr>)"

lemma note_name_simps [simp]:
  "sy_env (note_name nm s) = sy_env s" "sy_live (note_name nm s) = sy_live s" "sy_lost (note_name nm s) = sy_lost s"
  "hosted_env (note_name nm s) h = hosted_env s h" "free_name nm s \<Longrightarrow> note_name nm s = s"
  "(note_name nm s)\<lparr>sy_env := sy_env s\<rparr> = note_name nm s"
  by (simp_all add: note_name_def hosted_env_def)

lemma note_name_shared:
  "n \<notin> sy_shared (note_name nm s) \<Longrightarrow> n \<notin> sy_shared s"
  "nm \<notin> sy_shared (note_name nm s) \<Longrightarrow> free_name nm s"
  by (auto simp: note_name_def split: if_splits)

inductive sys_step ::
    "('j, ('f, 'w, 's, 'e, 'p) FsmActor, ('e, 'p) Message, 'spec) Joerl \<Rightarrow> ('m, 's, 'p) cache_map \<Rightarrow>
     ('f, 'w, 's, 'e, 'p) Finitomata \<Rightarrow> ('w, 's, 'e, 'p) FinitomataSupervisor \<Rightarrow>
     ('f, 'm, 'w, 's, 'e, 'p, 'j) fsm_system \<Rightarrow> ('f, 'm, 'w, 's, 'e, 'p, 'j) fsm_system \<Rightarrow> bool"
  for J D F sv where
  sys_start: "start_actor D F sv nm fsm p (sy_env s) = (actor, cache, w) \<Longrightarrow>
     j_spawn J (sup_system sv) actor (se_system (sy_env s)) = (pid, j1) \<Longrightarrow>
     start_fsm J D F sv nm fsm p (sy_env s) = (res, env') \<Longrightarrow> sy_live s pid = None \<Longrightarrow>
     sys_step J D F sv s ((note_name nm s)\<lparr>sy_env := env',
       sy_live := (sy_live s)(pid \<mapsto> \<lparr>h_actor = actor, h_requests = [], h_started = False\<rparr>)\<rparr>)"
| sys_child: "sy_live s pid = None \<Longrightarrow>
     sys_step J D F sv s ((note_name nm s)\<lparr>sy_live := (sy_live s)(pid \<mapsto>
       \<lparr>h_actor = supervised_child sv nm dflt p, h_requests = [], h_started = False\<rparr>)\<rparr>)"
| sys_outside: "se_cache env' = se_cache (sy_env s) \<Longrightarrow> sys_step J D F sv s (s\<lparr>sy_env := env'\<rparr>)"
| sys_boot: "sy_live s pid = Some h \<Longrightarrow> \<not> h_started h \<Longrightarrow>
     started F D pid (h_actor h) (hosted_env s h) = Some r \<Longrightarrow> sys_step J D F sv s (after_handler s pid r)"
| sys_message: "sy_live s pid = Some h \<Longrightarrow> h_started h \<Longrightarrow> ReqStopNormal \<notin> set (h_requests h) \<Longrightarrow>
     handle_message F D pid msg (h_actor h) (hosted_env s h) = Some r \<Longrightarrow>
     sys_step J D F sv s (after_handler s pid r)"
| sys_stop: "sy_live s pid = Some h \<Longrightarrow> stopped F D (h_actor h) (hosted_env s h) = r \<Longrightarrow>
     sys_step J D F sv s ((after_handler s pid r)\<lparr>sy_live := (sy_live s)(pid := None)\<rparr>)"
| sys_crash: "sy_live s pid = Some h \<Longrightarrow>
     \<forall>nm. nm \<noteq> fa_name (h_actor h) \<longrightarrow> StateCache_get D c nm = StateCache_get D (se_cache (sy_env s)) nm \<Longrightarrow>
     sys_step J D F sv s (s\<lparr>sy_env := (sy_env s)\<lparr>se_cache := c, se_world := w\<rparr>,
       sy_live := (sy_live s)(pid := None), sy_lost := insert (fa_name (h_actor h)) (sy_lost s)\<rparr>)"

inductive sys_reach ::
    "('j, ('f, 'w, 's, 'e, 'p) FsmActor, ('e, 'p) Message, 'spec) Joerl \<Rightarrow> ('m, 's, 'p) cache_map \<Rightarrow>
     ('f, 'w, 's, 'e, 'p) Finitomata \<Rightarrow> ('w, 's, 'e, 'p) FinitomataSupervisor \<Rightarrow>
     ('f, 'm, 'w, 's, 'e, 'p, 'j) fsm_system \<Rightarrow> bool"
  for J D F sv where
  reach_new: "sys_reach J D F sv (system_new D w j)"
| reach_step: "sys_reach J D F sv s \<Longrightarrow> sys_step J D F sv s s' \<Longrightarrow> sys_reach J D F sv s'"

subsection \<open>What a handler does to the cache\<close>

text \<open>
  Either it files the state it ends in under the actor's name and no other entry changes, or it
  leaves the cache alone and at most the payload of the state has changed.
\<close>

definition told :: "('m, 's, 'p) cache_map \<Rightarrow> ('f, 'w, 's, 'e, 'p) FsmActor \<Rightarrow> ('m, 'w) env \<Rightarrow>
    ('f, 'w, 's, 'e, 'p) FsmActor \<Rightarrow> ('m, 'w) env \<Rightarrow> bool" where
  "told D a en a' en' \<longleftrightarrow> name (fa_state a') = name (fa_state a) \<and> fa_name a' = fa_name a \<and>
     ((\<forall>nm. StateCache_get D (en_cache en') nm =
         (if nm = name (fa_state a) then Some (fa_state a') else StateCache_get D (en_cache en) nm)) \<or>
      (en_cache en' = en_cache en \<and> (\<exists>q. fa_state a' = (fa_state a)\<lparr>payload := q\<rparr>)))"

lemma told_refl: "told D a en a en"
  by (auto simp: told_def intro!: exI [of _ "payload (fa_state a)"])

lemma told_filed:
  "told D a en a1 en1 \<Longrightarrow> name (fa_state a') = name (fa_state a1) \<Longrightarrow> fa_name a' = fa_name a1 \<Longrightarrow>
   (\<And>nm. StateCache_get D (en_cache en') nm =
     (if nm = name (fa_state a1) then Some (fa_state a') else StateCache_get D (en_cache en1) nm)) \<Longrightarrow>
   told D a en a' en'"
  by (auto simp: told_def)

lemma told_requests: "told D a en a' (env_request q en') = told D a en a' en'"
  by (simp add: told_def)

context state_cache
begin

lemma do_transition_told:
  assumes run: "do_transition F D a1 ev ep en1 = Some (a', en')" and t: "told D a en a1 en1"
  shows "told D a en a' en'"
proof (rule told_filed [OF t])
  show "name (fa_state a') = name (fa_state a1)"
    using do_transition_run(2) [OF run] by (auto dest: fsm_run_frame)
  show "fa_name a' = fa_name a1" using do_transition_run(1) [OF run] by (simp add: same_config_def)
qed (rule do_transition_cache [OF run])

lemma handle_message_told:
  assumes run: "handle_message F D pid msg a en = Some (a', en')"
  shows "told D a en a' en'"
proof (cases msg)
  case (TransitionMsg ev ep)
  with run have "do_transition F D a ev ep en = Some (a', en')" by (simp add: handle_message_def)
  then show ?thesis by (rule do_transition_told [OF _ told_refl])
next
  case TimerTickMsg
  with run obtain en1 where tick: "handle_timer_tick F D a en = Some (a', en1)"
    and en': "en' = (case fa_timer_interval a' of
       Some i \<Rightarrow> if lifecycle (fa_state a') = Running then env_request (ReqSendTick pid i) en1 else en1
     | None \<Rightarrow> en1)"
    by (auto elim: tick_result)
  obtain res f p w where
    ti: "on_timer F (current (fa_state a)) (fa_fsm a, payload (fa_state a), en_world en) = (res, f, p, w)"
    using prod_cases4 by blast
  let ?a = "a\<lparr>fa_fsm := f, fa_state := (fa_state a)\<lparr>payload := p\<rparr>\<rparr>" and ?en = "en\<lparr>en_world := w\<rparr>"
  have t: "told D a en ?a ?en" by (auto simp: told_def)
  have "told D a en a' en1"
  proof (cases res)
    case None
    with tick ti t show ?thesis by (auto simp: handle_timer_tick_def)
  next
    case (Some ee)
    with tick ti have "do_transition F D ?a (fst ee) (snd ee) ?en = Some (a', en1)"
      by (auto simp: handle_timer_tick_def split: prod.splits)
    then show ?thesis using t by (rule do_transition_told)
  qed
  with en' show ?thesis by (auto simp: told_requests split: option.splits)
next
  case ShutdownMsg
  with run have sd: "handle_message F D pid ShutdownMsg a en = Some (a', en')" by simp
  note r = shutdown_result [OF sd]
  show ?thesis
    by (rule told_filed [OF told_refl]) (use r in \<open>simp_all add: same_config_def get_update\<close>)
next
  case OtherMsg
  with run show ?thesis by (simp add: handle_message_def told_refl)
qed

lemma started_told:
  assumes run: "started F D pid a en = Some (a', en')" and nm: "name (fa_state a) = fa_name a"
  shows "told D a en a' en'"
proof -
  obtain b en1 where sr: "started_recover F D pid a en = (b, en1)" by fastforce
  have t: "told D a en b en1"
  proof (cases "\<exists>rs rp w en2. recover F D rs rp a (en\<lparr>en_world := w\<rparr>) = (b, en2) \<and> en_cache en1 = en_cache en2")
    case True
    then obtain rs rp w en2 where r: "recover F D rs rp a (en\<lparr>en_world := w\<rparr>) = (b, en2)" "en_cache en1 = en_cache en2"
      by blast
    note rr = recover_result [OF r(1)]
    have "name (fa_state b) = fa_name a" by (subst rr(2)) (simp add: FsmState_new_def)
    with rr(1,3) r(2) nm show ?thesis
      by (intro told_filed [OF told_refl]) (simp_all add: same_config_def get_update)
  next
    case False
    with sr have "b = a" "en_cache en1 = en_cache en"
      by (auto simp: started_recover_def Let_def split: if_splits option.splits prod.splits sum.splits) blast+
    then show ?thesis using told_refl [of D a en] by (simp add: told_def)
  qed
  let ?en = "case fa_timer_interval b of None \<Rightarrow> en1 | Some interval \<Rightarrow> env_request (ReqSendTick pid interval) en1"
  have t': "told D a en b ?en" using t by (simp add: told_requests split: option.split)
  show ?thesis
  proof (cases "hard_event (fa_graph b) (current (fa_state b))")
    case None
    with run sr t' show ?thesis by (auto simp: started_def)
  next
    case (Some evt)
    with run sr have "do_transition F D b evt (payload (fa_state b)) ?en = Some (a', en')"
      by (simp add: started_def)
    then show ?thesis using t' by (rule do_transition_told)
  qed
qed

lemma stopped_told:
  assumes run: "stopped F D a en = (a', en')"
  shows "told D a en a' en'"
proof (cases "lifecycle (fa_state a) = Running")
  case True
  obtain a1 en1 where h: "actor_hook (on_terminate F) (set_lifecycle Terminated a) en = (a1, en1)" by fastforce
  with run True have "a' = a1" "en' = env_cache_update D (fa_state a1) en1" by (auto simp: stopped_def Let_def)
  then show ?thesis
    using actor_hook_fields(1) [OF h] actor_hook_result(1,3) [OF h]
    by (intro told_filed [OF told_refl]) (simp_all add: same_config_def get_update set_lifecycle_def)
next
  case False
  with run show ?thesis by (simp add: stopped_def told_refl)
qed

end
subsection \<open>The invariant of the system\<close>

text \<open>
  A live actor's state bears the actor's name. Of a name that was never started while a live actor
  had it: at most one live actor has it; once that actor has been brought up the cache mirrors it,
  up to the payload, which \<open>on_timer\<close> may change without telling; and an entry that says \<open>Running\<close>
  belongs to a live running actor, unless an actor of that name has crashed.
\<close>

definition mirrored :: "('m, 's, 'p) cache_map \<Rightarrow> 'm \<Rightarrow> ('f, 'w, 's, 'e, 'p) FsmActor \<Rightarrow> bool" where
  "mirrored D m a \<longleftrightarrow> (\<exists>q. StateCache_get D m (fa_name a) = Some ((fa_state a)\<lparr>payload := q\<rparr>))"

definition actor_ok :: "('m, 's, 'p) cache_map \<Rightarrow> 'm \<Rightarrow> ('f, 'w, 's, 'e, 'p) FsmActor \<Rightarrow> bool" where
  "actor_ok D m a \<longleftrightarrow> name (fa_state a) = fa_name a \<and> (lifecycle (fa_state a) \<noteq> Created \<longrightarrow> mirrored D m a)"

definition runs_as :: "('f, 'm, 'w, 's, 'e, 'p, 'j) fsm_system \<Rightarrow> string \<Rightarrow> bool" where
  "runs_as s nm \<longleftrightarrow> (\<exists>pid h. sy_live s pid = Some h \<and> fa_name (h_actor h) = nm \<and>
     lifecycle (fa_state (h_actor h)) = Running)"

definition sys_inv :: "('m, 's, 'p) cache_map \<Rightarrow> ('f, 'm, 'w, 's, 'e, 'p, 'j) fsm_system \<Rightarrow> bool" where
  "sys_inv D s \<longleftrightarrow>
     (\<forall>pid h. sy_live s pid = Some h \<longrightarrow> name (fa_state (h_actor h)) = fa_name (h_actor h)) \<and>
     (\<forall>pid h. sy_live s pid = Some h \<longrightarrow> fa_name (h_actor h) \<notin> sy_shared s \<longrightarrow>
        actor_ok D (se_cache (sy_env s)) (h_actor h)) \<and>
     (\<forall>pid h pid' h'. sy_live s pid = Some h \<longrightarrow> sy_live s pid' = Some h' \<longrightarrow>
        fa_name (h_actor h) = fa_name (h_actor h') \<longrightarrow> fa_name (h_actor h) \<notin> sy_shared s \<longrightarrow> pid = pid') \<and>
     (\<forall>nm st. nm \<notin> sy_lost s \<union> sy_shared s \<longrightarrow> StateCache_get D (se_cache (sy_env s)) nm = Some st \<longrightarrow>
        lifecycle st = Running \<longrightarrow> runs_as s nm)"

lemma sys_invD:
  assumes "sys_inv D s"
  shows "sy_live s pid = Some h \<Longrightarrow> name (fa_state (h_actor h)) = fa_name (h_actor h)"
    "sy_live s pid = Some h \<Longrightarrow> fa_name (h_actor h) \<notin> sy_shared s \<Longrightarrow> actor_ok D (se_cache (sy_env s)) (h_actor h)"
    "sy_live s pid = Some h \<Longrightarrow> sy_live s pid' = Some h' \<Longrightarrow> fa_name (h_actor h) = fa_name (h_actor h') \<Longrightarrow>
       fa_name (h_actor h) \<notin> sy_shared s \<Longrightarrow> pid = pid'"
    "nm \<notin> sy_lost s \<Longrightarrow> nm \<notin> sy_shared s \<Longrightarrow> StateCache_get D (se_cache (sy_env s)) nm = Some st \<Longrightarrow>
       lifecycle st = Running \<Longrightarrow> runs_as s nm"
  using assms unfolding sys_inv_def by blast+

lemma sys_invI:
  assumes "\<And>pid h. sy_live s pid = Some h \<Longrightarrow> name (fa_state (h_actor h)) = fa_name (h_actor h)"
    and "\<And>pid h. sy_live s pid = Some h \<Longrightarrow> fa_name (h_actor h) \<notin> sy_shared s \<Longrightarrow>
      actor_ok D (se_cache (sy_env s)) (h_actor h)"
    and "\<And>pid h pid' h'. sy_live s pid = Some h \<Longrightarrow> sy_live s pid' = Some h' \<Longrightarrow>
      fa_name (h_actor h) = fa_name (h_actor h') \<Longrightarrow> fa_name (h_actor h) \<notin> sy_shared s \<Longrightarrow> pid = pid'"
    and "\<And>nm st. nm \<notin> sy_lost s \<Longrightarrow> nm \<notin> sy_shared s \<Longrightarrow> StateCache_get D (se_cache (sy_env s)) nm = Some st \<Longrightarrow>
      lifecycle st = Running \<Longrightarrow> runs_as s nm"
  shows "sys_inv D s"
  using assms unfolding sys_inv_def by simp

lemma mirrored_other:
  assumes "StateCache_get D m' (fa_name a) = StateCache_get D m (fa_name a)"
  shows "mirrored D m' a = mirrored D m a" "actor_ok D m' a = actor_ok D m a"
  using assms by (simp_all add: mirrored_def actor_ok_def)

text \<open>A handler of one actor: what it tells the cache keeps that actor's own part.\<close>

lemma told_other:
  "told D a en a' en' \<Longrightarrow> nm \<noteq> name (fa_state a) \<Longrightarrow>
     StateCache_get D (en_cache en') nm = StateCache_get D (en_cache en) nm"
  by (auto simp: told_def)

lemma told_ok:
  assumes "told D a en a' en'" "actor_ok D (en_cache en) a"
  shows "actor_ok D (en_cache en') a'"
proof -
  have nm: "name (fa_state a') = fa_name a'" using assms by (simp add: told_def actor_ok_def)
  have "mirrored D (en_cache en') a'" if "lifecycle (fa_state a') \<noteq> Created"
    using assms(1)
  proof (unfold told_def, elim conjE disjE exE)
    assume "\<forall>nm. StateCache_get D (en_cache en') nm =
       (if nm = name (fa_state a) then Some (fa_state a') else StateCache_get D (en_cache en) nm)"
      and "name (fa_state a') = name (fa_state a)"
    then have "StateCache_get D (en_cache en') (fa_name a') = Some ((fa_state a')\<lparr>payload := payload (fa_state a')\<rparr>)"
      using nm by simp
    then show ?thesis unfolding mirrored_def by blast
  next
    fix q assume "en_cache en' = en_cache en" "fa_name a' = fa_name a" and q: "fa_state a' = (fa_state a)\<lparr>payload := q\<rparr>"
    moreover from q that assms(2) obtain q' where
      "StateCache_get D (en_cache en) (fa_name a) = Some ((fa_state a)\<lparr>payload := q'\<rparr>)"
      by (auto simp: actor_ok_def mirrored_def)
    ultimately show ?thesis by (auto simp: mirrored_def)
  qed
  with nm show ?thesis by (simp add: actor_ok_def)
qed

text \<open>An entry that says \<open>Running\<close> after a handler: of another name, or the actor runs.\<close>

lemma told_running:
  assumes "told D a en a' en'" "actor_ok D (en_cache en) a"
    and "StateCache_get D (en_cache en') nm = Some st" "lifecycle st = Running"
  shows "StateCache_get D (en_cache en) nm = Some st \<and> (nm = fa_name a \<longrightarrow> lifecycle (fa_state a') = lifecycle (fa_state a)) \<or>
    nm = fa_name a \<and> lifecycle (fa_state a') = Running"
proof -
  have nm: "name (fa_state a) = fa_name a" using assms(2) by (simp add: actor_ok_def)
  show ?thesis
    using assms(1)
  proof (unfold told_def, elim conjE disjE exE)
    assume "\<forall>nm. StateCache_get D (en_cache en') nm =
       (if nm = name (fa_state a) then Some (fa_state a') else StateCache_get D (en_cache en) nm)"
    with assms(3,4) nm show ?thesis by (simp split: if_splits)
  next
    fix q assume "en_cache en' = en_cache en" "fa_state a' = (fa_state a)\<lparr>payload := q\<rparr>"
    with assms(3) show ?thesis by simp
  qed
qed

subsection \<open>Every step keeps it\<close>

lemma after_handler_simps [simp]:
  "se_cache (sy_env (after_handler s pid r)) = en_cache (snd r)"
  "sy_live (after_handler s pid r) = (sy_live s)(pid \<mapsto> \<lparr>h_actor = fst r, h_requests = en_requests (snd r), h_started = True\<rparr>)"
  "sy_lost (after_handler s pid r) = sy_lost s" "sy_shared (after_handler s pid r) = sy_shared s"
  "en_cache (hosted_env s h) = se_cache (sy_env s)"
  by (simp_all add: after_handler_def hosted_env_def)

lemma handler_keeps:
  assumes inv: "sys_inv D s" and h: "sy_live s pid = Some h"
    and t: "told D (h_actor h) (hosted_env s h) (fst r) (snd r)"
  shows "sys_inv D (after_handler s pid r)" (is "sys_inv D ?s'")
proof -
  let ?a = "h_actor h" and ?c = "se_cache (sy_env s)" and ?c' = "en_cache (snd r)"
  have nm: "name (fa_state ?a) = fa_name ?a" "fa_name (fst r) = fa_name ?a" "name (fa_state (fst r)) = fa_name ?a"
    using t sys_invD(1) [OF inv h] by (simp_all add: told_def)
  have ok: "actor_ok D ?c ?a" if "fa_name ?a \<notin> sy_shared s" using sys_invD(2) [OF inv h that] .
  have other: "fa_name (h_actor h') \<noteq> fa_name ?a"
    if "sy_live s pid' = Some h'" "pid' \<noteq> pid" "fa_name (h_actor h') \<notin> sy_shared s" for pid' h'
    using sys_invD(3) [OF inv that(1) h] that(2,3) by blast
  have ok1: "actor_ok D ?c' (h_actor h')"
    if "sy_live s pid' = Some h'" "pid' \<noteq> pid" "fa_name (h_actor h') \<notin> sy_shared s" for pid' h'
    using mirrored_other(2) [OF told_other [OF t, unfolded nm, OF other [OF that]]] sys_invD(2) [OF inv that(1,3)]
    by simp
  have ok2: "actor_ok D ?c' (fst r)" if "fa_name ?a \<notin> sy_shared s" using told_ok [OF t] ok [OF that] by simp
  have run: "runs_as ?s' n"
    if n: "n \<notin> sy_lost s" "n \<notin> sy_shared s" "StateCache_get D ?c' n = Some st" "lifecycle st = Running" for n st
  proof (cases "n = fa_name ?a")
    case False
    with told_other [OF t, of n] nm(1) n(3) have "StateCache_get D ?c n = Some st" by simp
    from sys_invD(4) [OF inv n(1,2) this n(4)] obtain pid' h' where
      h': "sy_live s pid' = Some h'" "fa_name (h_actor h') = n" "lifecycle (fa_state (h_actor h')) = Running"
      by (auto simp: runs_as_def)
    with False h have "pid' \<noteq> pid" by auto
    with h' show ?thesis by (auto simp: runs_as_def intro!: exI [of _ pid'])
  next
    case True
    with n(2) have sh: "fa_name ?a \<notin> sy_shared s" by simp
    with ok have "actor_ok D (en_cache (hosted_env s h)) ?a" by simp
    from told_running [OF t this n(3,4)] True consider
        (same) "StateCache_get D ?c n = Some st" "lifecycle (fa_state (fst r)) = lifecycle (fa_state ?a)"
      | (own) "lifecycle (fa_state (fst r)) = Running" by auto
    then have "lifecycle (fa_state (fst r)) = Running"
    proof cases
      case same
      from sys_invD(4) [OF inv n(1,2) same(1) n(4)] True obtain pid' h' where
        "sy_live s pid' = Some h'" "fa_name (h_actor h') = fa_name ?a" "lifecycle (fa_state (h_actor h')) = Running"
        by (auto simp: runs_as_def)
      with other [of pid' h'] sh h same(2) show ?thesis by (cases "pid' = pid") auto
    qed
    with True nm(2) show ?thesis by (auto simp: runs_as_def intro!: exI [of _ pid])
  qed
  show ?thesis
  proof (rule sys_invI)
    show "name (fa_state (h_actor h')) = fa_name (h_actor h')" if "sy_live ?s' pid' = Some h'" for pid' h'
      using that nm sys_invD(1) [OF inv, of pid' h'] by (cases "pid' = pid") auto
    show "actor_ok D (se_cache (sy_env ?s')) (h_actor h')"
      if "sy_live ?s' pid' = Some h'" "fa_name (h_actor h') \<notin> sy_shared ?s'" for pid' h'
      using that ok1 [of pid' h'] ok2 nm(2) by (cases "pid' = pid") auto
    show "p1 = p2"
      if "sy_live ?s' p1 = Some h1" "sy_live ?s' p2 = Some h2" "fa_name (h_actor h1) = fa_name (h_actor h2)"
        "fa_name (h_actor h1) \<notin> sy_shared ?s'" for p1 h1 p2 h2
      using that nm(2) other [of p1 h1] other [of p2 h2]
      by (cases "p1 = pid"; cases "p2 = pid") (auto intro: sys_invD(3) [OF inv])
  qed (rule run, simp_all)
qed

text \<open>A new actor: if a live one has its name, nothing is said of that name any more.\<close>

lemma spawn_keeps_inv:
  assumes inv: "sys_inv D s" and new: "sy_live s pid = None" and nm: "name (fa_state a) = fa_name a"
    and ok: "actor_ok D m a" and m: "\<And>nm. nm \<noteq> fa_name a \<Longrightarrow> StateCache_get D m nm = StateCache_get D (se_cache (sy_env s)) nm"
    and own: "\<And>st. StateCache_get D m (fa_name a) = Some st \<Longrightarrow> lifecycle st = Running \<Longrightarrow>
      fa_name a \<notin> sy_lost s \<Longrightarrow> fa_name a \<notin> sy_shared s \<Longrightarrow> free_name (fa_name a) s \<Longrightarrow> lifecycle (fa_state a) = Running"
    and env: "se_cache env' = m"
  shows "sys_inv D ((note_name (fa_name a) s)\<lparr>sy_env := env',
    sy_live := (sy_live s)(pid \<mapsto> \<lparr>h_actor = a, h_requests = [], h_started = False\<rparr>)\<rparr>)" (is "sys_inv D ?s'")
proof -
  have sh: "n \<notin> sy_shared s" "n = fa_name a \<Longrightarrow> free_name (fa_name a) s" if "n \<notin> sy_shared ?s'" for n
    using that note_name_shared(1) [of n "fa_name a" s] note_name_shared(2) [of "fa_name a" s] by simp_all
  have other: "fa_name (h_actor h') \<noteq> fa_name a"
    if "sy_live s pid' = Some h'" "fa_name (h_actor h') \<notin> sy_shared ?s'" for pid' h'
    using sh(2) [OF that(2)] that(1) by (auto simp: free_name_def)
  have ok1: "actor_ok D m (h_actor h')"
    if "sy_live s pid' = Some h'" "fa_name (h_actor h') \<notin> sy_shared ?s'" for pid' h'
    using mirrored_other(2) [OF m [OF other [OF that]]] sys_invD(2) [OF inv that(1) sh(1) [OF that(2)]] by simp
  have run: "runs_as ?s' n"
    if n: "n \<notin> sy_lost s" "n \<notin> sy_shared ?s'" "StateCache_get D m n = Some st" "lifecycle st = Running" for n st
  proof (cases "n = fa_name a")
    case True
    with own n sh [OF n(2)] show ?thesis by (auto simp: runs_as_def intro!: exI [of _ pid])
  next
    case False
    with sys_invD(4) [OF inv n(1) sh(1) [OF n(2)] _ n(4)] m n(3) obtain pid' h' where
      "sy_live s pid' = Some h'" "fa_name (h_actor h') = n" "lifecycle (fa_state (h_actor h')) = Running"
      by (auto simp: runs_as_def)
    with new show ?thesis by (auto simp: runs_as_def intro!: exI [of _ pid'])
  qed
  show ?thesis
  proof (rule sys_invI)
    show "name (fa_state (h_actor h')) = fa_name (h_actor h')" if "sy_live ?s' pid' = Some h'" for pid' h'
      using that nm sys_invD(1) [OF inv, of pid' h'] by (cases "pid' = pid") auto
    show "actor_ok D (se_cache (sy_env ?s')) (h_actor h')"
      if "sy_live ?s' pid' = Some h'" "fa_name (h_actor h') \<notin> sy_shared ?s'" for pid' h'
      using that ok1 [of pid' h'] ok env by (cases "pid' = pid") auto
    show "p1 = p2"
      if "sy_live ?s' p1 = Some h1" "sy_live ?s' p2 = Some h2" "fa_name (h_actor h1) = fa_name (h_actor h2)"
        "fa_name (h_actor h1) \<notin> sy_shared ?s'" for p1 h1 p2 h2
      using that other [of p1 h1] other [of p2 h2] sh(1) [OF that(4)]
      by (cases "p1 = pid"; cases "p2 = pid") (auto intro: sys_invD(3) [OF inv])
  qed (rule run, use env in simp_all)
qed

text \<open>An actor that is gone: its own entry no longer says \<open>Running\<close>, or its name is recorded as lost or shared.\<close>

lemma removal_keeps:
  assumes inv: "sys_inv D s" and h: "sy_live s pid = Some h"
    and m: "\<And>nm. nm \<noteq> fa_name (h_actor h) \<Longrightarrow> StateCache_get D (se_cache env') nm = StateCache_get D (se_cache (sy_env s)) nm"
    and gone: "fa_name (h_actor h) \<in> lost \<union> sy_shared s \<or>
      (\<forall>st. StateCache_get D (se_cache env') (fa_name (h_actor h)) = Some st \<longrightarrow> lifecycle st \<noteq> Running)"
    and lost: "sy_lost s \<subseteq> lost"
  shows "sys_inv D (s\<lparr>sy_env := env', sy_live := (sy_live s)(pid := None), sy_lost := lost\<rparr>)" (is "sys_inv D ?s'")
proof (rule sys_invI)
  have old: "sy_live s pid' = Some h'" "pid' \<noteq> pid" if "sy_live ?s' pid' = Some h'" for pid' h'
    using that by (simp_all split: if_splits)
  show "name (fa_state (h_actor h')) = fa_name (h_actor h')" if "sy_live ?s' pid' = Some h'" for pid' h'
    using sys_invD(1) [OF inv old(1) [OF that]] .
  show "actor_ok D (se_cache (sy_env ?s')) (h_actor h')"
    if l: "sy_live ?s' pid' = Some h'" "fa_name (h_actor h') \<notin> sy_shared ?s'" for pid' h'
  proof -
    have "fa_name (h_actor h') \<noteq> fa_name (h_actor h)" using sys_invD(3) [OF inv old(1) [OF l(1)] h] old(2) [OF l(1)] l(2) by auto
    from mirrored_other(2) [OF m [OF this]] sys_invD(2) [OF inv old(1) [OF l(1)]] l(2) show ?thesis by simp
  qed
  show "p1 = p2" if "sy_live ?s' p1 = Some h1" "sy_live ?s' p2 = Some h2" "fa_name (h_actor h1) = fa_name (h_actor h2)"
    "fa_name (h_actor h1) \<notin> sy_shared ?s'" for p1 h1 p2 h2
    using that sys_invD(3) [OF inv, of p1 h1 p2 h2] by (simp split: if_splits)
  show "runs_as ?s' n" if n: "n \<notin> sy_lost ?s'" "n \<notin> sy_shared ?s'" "StateCache_get D (se_cache (sy_env ?s')) n = Some st"
    "lifecycle st = Running" for n st
  proof -
    have ne: "n \<noteq> fa_name (h_actor h)" using gone n by auto
    have "n \<notin> sy_lost s" using n(1) lost by auto
    from sys_invD(4) [OF inv this _ _ n(4)] m [OF ne] n(2,3) obtain pid' h' where
      "sy_live s pid' = Some h'" "fa_name (h_actor h') = n" "lifecycle (fa_state (h_actor h')) = Running"
      by (auto simp: runs_as_def)
    with ne h show ?thesis by (auto simp: runs_as_def intro!: exI [of _ pid'])
  qed
qed

context state_cache
begin

lemma sys_step_keeps:
  assumes "sys_step J D F sv s s'" "sys_inv D s"
  shows "sys_inv D s'"
  using assms
proof (induction rule: sys_step.induct)
  case (sys_start nm fsm p s actor cache w pid j1 res env')
  from sys_start.hyps(1) show ?case
  proof (rule start_actor_result)
    fix st q lc w1
    assume fresh: "fa_state actor = (FsmState_new nm st (payload (fa_state actor)))\<lparr>lifecycle := Running\<rparr>"
      and c: "cache = StateCache_update D (fa_state actor) (se_cache (sy_env s))" and n: "fa_name actor = nm"
    note f = fresh_running_simps [OF fresh]
    have env: "se_cache env' = cache" using sys_start.hyps(1-3) by (auto simp: start_fsm_def split: prod.splits)
    have "StateCache_get D cache nm = Some ((fa_state actor)\<lparr>payload := payload (fa_state actor)\<rparr>)"
      using c f(1) by (simp add: get_update)
    then have ok: "actor_ok D cache actor" using f(1) n unfolding actor_ok_def mirrored_def by metis
    show ?thesis
      unfolding n [symmetric]
      by (rule spawn_keeps_inv [OF sys_start.prems sys_start.hyps(4) _ ok])
        (use n c f env in \<open>auto simp: get_update\<close>)
  qed
next
  case (sys_child s pid nm dflt p)
  let ?a = "supervised_child sv nm dflt p"
  have nm: "fa_name ?a = nm" "name (fa_state ?a) = fa_name ?a" by (simp_all add: supervised_child_def FsmState_new_def)
  have ok: "actor_ok D (se_cache (sy_env s)) ?a"
    by (simp add: actor_ok_def supervised_child_def FsmState_new_def)
  have "sys_inv D ((note_name (fa_name ?a) s)\<lparr>sy_env := sy_env s,
      sy_live := (sy_live s)(pid \<mapsto> \<lparr>h_actor = ?a, h_requests = [], h_started = False\<rparr>)\<rparr>)"
  proof (rule spawn_keeps_inv [OF sys_child.prems sys_child.hyps(1) nm(2) ok])
    show "lifecycle (fa_state ?a) = Running"
      if "StateCache_get D (se_cache (sy_env s)) (fa_name ?a) = Some st" "lifecycle st = Running"
        "fa_name ?a \<notin> sy_lost s" "fa_name ?a \<notin> sy_shared s" "free_name (fa_name ?a) s" for st
      using sys_invD(4) [OF sys_child.prems that(3,4,1,2)] that(5) by (auto simp: runs_as_def free_name_def)
  qed simp_all
  then show ?case by (simp add: nm)
next
  case (sys_outside env' s)
  then show ?case by (simp add: sys_inv_def runs_as_def)
next
  case (sys_boot s pid h r)
  obtain a' en' where r: "r = (a', en')" by fastforce
  from started_told sys_boot.hyps(3) r sys_invD(1) [OF sys_boot.prems sys_boot.hyps(1)] show ?case
    by (intro handler_keeps [OF sys_boot.prems sys_boot.hyps(1)]) simp
next
  case (sys_message s pid h msg r)
  obtain a' en' where r: "r = (a', en')" by fastforce
  with handle_message_told sys_message.hyps(4) show ?case
    by (intro handler_keeps [OF sys_message.prems sys_message.hyps(1)]) simp
next
  case (sys_stop s pid h r)
  obtain a' en' where r: "r = (a', en')" by fastforce
  then have st: "stopped F D (h_actor h) (hosted_env s h) = (a', en')" using sys_stop.hyps(2) by simp
  note t = stopped_told [OF st]
  note nm = sys_invD(1) [OF sys_stop.prems sys_stop.hyps(1)]
  have "fa_name (h_actor h) \<in> sy_lost s \<union> sy_shared s \<or>
      (\<forall>st. StateCache_get D (en_cache en') (fa_name (h_actor h)) = Some st \<longrightarrow> lifecycle st \<noteq> Running)"
  proof (rule ccontr)
    assume "\<not> ?thesis"
    then obtain st where n: "fa_name (h_actor h) \<notin> sy_lost s" "fa_name (h_actor h) \<notin> sy_shared s"
      "StateCache_get D (en_cache en') (fa_name (h_actor h)) = Some st" "lifecycle st = Running" by auto
    have ok: "actor_ok D (en_cache (hosted_env s h)) (h_actor h)"
      using sys_invD(2) [OF sys_stop.prems sys_stop.hyps(1) n(2)] by simp
    have nr: "lifecycle (fa_state a') \<noteq> Running" using stopped_result(5) [OF st] by (simp split: if_splits)
    with told_running [OF t ok n(3,4)] have
      "StateCache_get D (se_cache (sy_env s)) (fa_name (h_actor h)) = Some st"
      "lifecycle (fa_state a') = lifecycle (fa_state (h_actor h))" by auto
    from sys_invD(4) [OF sys_stop.prems n(1,2) this(1) n(4)] obtain pid' h' where
      "sy_live s pid' = Some h'" "fa_name (h_actor h') = fa_name (h_actor h)" "lifecycle (fa_state (h_actor h')) = Running"
      by (auto simp: runs_as_def)
    with sys_invD(3) [OF sys_stop.prems sys_stop.hyps(1) this(1)] sys_stop.hyps(1) nr n(2)
      \<open>lifecycle (fa_state a') = _\<close> show False by auto
  qed
  from removal_keeps [OF sys_stop.prems sys_stop.hyps(1), of "(sy_env s)\<lparr>se_cache := en_cache en', se_world := en_world en'\<rparr>" "sy_lost s"]
    this told_other [OF t, unfolded nm] r
  show ?case by (simp add: after_handler_def)
next
  case (sys_crash s pid h c w)
  then show ?case by (intro removal_keeps) auto
qed

lemma sys_reach_inv: "sys_reach J D F sv s \<Longrightarrow> sys_inv D s"
proof (induction rule: sys_reach.induct)
  case (reach_new w j)
  show ?case by (simp add: sys_inv_def system_new_def sup_env_new_def StateCache_get_def StateCache_new_def get_new)
qed (rule sys_step_keeps)

end

end
