(* ===== verification/Props_Supervisor.thy ===== *)
theory Props_Supervisor
  imports Props_Actor
begin

section \<open>Properties of the supervisor API\<close>

text \<open>
  What a user of \<open>FinitomataSupervisor\<close> can rely on: spawning, addressing by name, and what
  becomes of an FSM after a crash. The witnesses use the concrete actor system \<open>test_joerl\<close>.
\<close>

subsection \<open>A concrete supervisor\<close>

definition test_sup :: "((string, (test_state, test_payload) persisted) fmap, test_state, test_event, test_payload)
    FinitomataSupervisor" where
  "test_sup = with_persistency (InMemoryPersistency fmap_dash_map) (FinitomataSupervisor_new 0 ''sup'' test_graph)"

definition test_sup_env :: "((string, (test_state, test_payload) FsmState) fmap,
    (string, (test_state, test_payload) persisted) fmap, (test_event, test_payload) Message test_system) sup_env" where
  "test_sup_env = sup_env_new fmap_dash_map fmempty (Map.empty, 1, [], [])"

text \<open>The actor system at one type: no supervisor trees.\<close>

abbreviation plain_joerl :: "((test_event, test_payload) Message test_system,
    (unit, (string, (test_state, test_payload) persisted) fmap, test_state, test_event, test_payload) FsmActor,
    (test_event, test_payload) Message, unit) Joerl" where
  "plain_joerl \<equiv> test_joerl"

lemma test_sup_fields [simp]:
  "sup_persistency test_sup = Some (InMemoryPersistency fmap_dash_map)" "sup_graph test_sup = test_graph"
  "sup_system test_sup = 0" "sup_timer_interval test_sup = None"
  by (simp_all add: test_sup_def with_persistency_def FinitomataSupervisor_new_def)

lemma test_memory_load [simp]:
  "load (InMemoryPersistency fmap_dash_map) i m = (Inr (fmlookup m i), m)"
  by (simp add: InMemoryPersistency_def fmap_dash_map_def)

lemma test_sup_env_fields [simp]:
  "se_world test_sup_env = fmempty" "se_system test_sup_env = (Map.empty, 1, [], [])"
  "se_actors test_sup_env = Map.empty"
  by (simp_all add: test_sup_env_def sup_env_new_def)

subsection \<open>Crash and recovery\<close>

text \<open>
  No completed transition is lost. If \<open>transit\<close> completed and the actor then crashes, a fresh
  child of the supervisor over the same backend, started with whatever default payload, comes up
  \<open>Running\<close> in the state that transition moved to, with that state in the cache. The backend keeps
  its contract and answers the load, and the state has no hard event of its own.
\<close>

lemma crash_recovery:
  assumes "persistent_engine P stored F ctx" "state_cache D" "sup_persistency sv = Some P"
    and "transit F fsm (sup_graph sv) st ev ep ctx w = (Inr oc, fsm', st', w')" "oc \<noteq> SoftSkipped"
    and "load P (name st') (en_world en) = (Inr answer, w'')" "en_world en = w'"
    and "hard_event (sup_graph sv) (current st') = None"
  shows "\<exists>a' en'. started F D pid (supervised_child sv (name st') dflt p) en = Some (a', en') \<and>
    current (fa_state a') = current st' \<and> lifecycle (fa_state a') = Running \<and>
    StateCache_get D (en_cache en') (name st') = Some (fa_state a')"
proof -
  have nm: "name st' = name st" using transit_refines_step [OF assms(4)] by (rule fsm_step_frame)
  have pers: "persistency P stored"
    using assms(1) by (simp add: persistent_engine_def)
  from persistent_engine.engine_stores [OF assms(1,4)] assms(5)
  obtain lc q where "stored w' = (stored w)(name st \<mapsto> (lc, current st', q))" by auto
  moreover have "answer = stored w' (name st')"
    using persistency.load_result [OF pers, of "name st'" w' answer] assms(6,7) by simp
  ultimately have "load P (name st') (en_world en) = (Inr (Some (lc, current st', q)), w'')"
    using assms(6,7) nm by simp
  from supervised_child_recovers [OF assms(3) this assms(8), of F D pid dflt p] obtain a' en' where
    run: "started F D pid (supervised_child sv (name st') dflt p) en = Some (a', en')"
    and st: "fa_state a' = (FsmState_new (name st') (current st') (payload (fa_state a')))\<lparr>lifecycle := Running\<rparr>"
    and cache: "en_cache en' = StateCache_update D (fa_state a') (en_cache en)"
    by metis
  have "name (fa_state a') = name st'" "current (fa_state a') = current st'" "lifecycle (fa_state a') = Running"
    by (subst st, simp add: FsmState_new_def)+
  with run cache show ?thesis by (simp add: state_cache.get_update [OF assms(2)])
qed

lemma crash_recovery_witness:
  "\<exists>a' en'. started TestFsm fmap_dash_map 4 (supervised_child test_sup ''fsm'' () 0)
      \<lparr>en_cache = fmempty, en_world = fmupd ''fsm'' (Running, StRunning, 1) fmempty, en_requests = []\<rparr> =
      Some (a', en') \<and> current (fa_state a') = StRunning"
  using crash_recovery [OF test_engine.persistent_engine_axioms fmap_cache.state_cache_axioms,
      of test_sup "()" test_entry EvStart 0 fmempty Transitioned "()" "moved Transitioned StRunning 1 test_entry"
        "fmupd ''fsm'' (Running, StRunning, 1) fmempty"
        "\<lparr>en_cache = fmempty, en_world = fmupd ''fsm'' (Running, StRunning, 1) fmempty, en_requests = []\<rparr>"
        "Some (Running, StRunning, 1)" "fmupd ''fsm'' (Running, StRunning, 1) fmempty" 4 "()" 0]
    test_start by auto

text \<open>
  A supervised FSM that finds an entry in the backend comes up with a fresh history and error
  record in that state, \<open>Running\<close> and cached, after \<open>on_start\<close> and \<open>on_enter\<close> of it, and it takes
  over its name: it asks the system to drop the old registration, to register its own pid, and
  then for the first tick of its timer, if one is configured.
\<close>

lemma supervised_restart:
  assumes "sup_persistency sv = Some P" "load P nm (en_world en) = (Inr (Some (lc, s, q)), w)"
    and "hard_event (sup_graph sv) s = None"
  shows "\<exists>a' en'. started F D pid (supervised_child sv nm dflt p) en = Some (a', en') \<and>
    fa_state a' = (FsmState_new nm s (payload (fa_state a')))\<lparr>lifecycle := Running\<rparr> \<and>
    en_cache en' = StateCache_update D (fa_state a') (en_cache en) \<and>
    en_requests en' = en_requests en @ [ReqUnregister (sup_system sv) nm, ReqRegister (sup_system sv) nm pid] @
      (case sup_timer_interval sv of None \<Rightarrow> [] | Some i \<Rightarrow> [ReqSendTick pid i])"
  using supervised_child_recovers [OF assms, of F D pid dflt p] unfolding timer_request_def by metis

text \<open>
  A supervised FSM without a backend starts in the initial state with the default payload but
  is not brought up: no callback runs, its lifecycle stays \<open>Created\<close> and the cache is not told of
  it. (\<open>alive\<close> and \<open>state\<close> read the cache only.)
\<close>

lemma supervised_without_backend:
  assumes "sup_persistency sv = None" "hard_event (sup_graph sv) (initial (sup_graph sv)) = None"
  shows "\<exists>a' en'. started F D pid (supervised_child sv nm dflt p) en = Some (a', en') \<and>
    fa_state a' = FsmState_new nm (initial (sup_graph sv)) p \<and> lifecycle (fa_state a') = Created \<and>
    en_cache en' = en_cache en \<and> en_world en' = en_world en"
  using supervised_child_fresh [OF assms, of F D pid nm dflt p en]
  by (simp add: supervised_child_def FsmState_new_def)

lemma supervised_without_backend_witness:
  "\<exists>a' en'. started TestFsm fmap_dash_map 4
      (supervised_child (FinitomataSupervisor_new 0 ''sup'' test_graph) ''fsm'' () 0) test_env = Some (a', en') \<and>
    lifecycle (fa_state a') = Created \<and> en_cache en' = fmempty"
  using supervised_without_backend [of "FinitomataSupervisor_new 0 ''sup'' test_graph" TestFsm fmap_dash_map 4
      "''fsm''" "()" 0 test_env]
  by (auto simp: FinitomataSupervisor_new_def)

subsection \<open>Spawning and addressing\<close>

text \<open>
  \<open>start_fsm\<close> always succeeds and leaves the FSM \<open>Running\<close> in the cache, in the state the
  backend holds for it if it holds one and in the graph's initial state otherwise; \<open>alive\<close> is true
  and every other entry of the cache is as it was.
\<close>

lemma start_fsm_runs:
  assumes "state_cache D" "start_fsm J D F sv nm fsm p env = (res, env')"
    and "initial_entry sv nm p (se_world env) = ((s, q, lc), w)"
  shows "res = Inr () \<and> current_state D nm env' = Some s \<and> alive D nm env' \<and>
    (\<forall>other. other \<noteq> nm \<longrightarrow> sup_state D other env' = sup_state D other env) \<and>
    (\<not> (\<exists>P x. sup_persistency sv = Some P \<and> fst (load P nm (se_world env)) = Inr (Some x)) \<longrightarrow>
       s = initial (sup_graph sv))"
proof -
  have "s = initial (sup_graph sv)"
    if "\<not> (\<exists>P x. sup_persistency sv = Some P \<and> fst (load P nm (se_world env)) = Inr (Some x))"
    using initial_entry_created [OF assms(3)] that by auto
  moreover from assms(2) have "res = Inr () \<and> current_state D nm env' = Some s \<and> alive D nm env' \<and>
    (\<forall>other. other \<noteq> nm \<longrightarrow> sup_state D other env' = sup_state D other env)"
  proof (rule start_fsm_result)
    fix st s' q' lc' w1
    assume "initial_entry sv nm p (se_world env) = ((s', q', lc'), w1)" and r: "res = Inr ()"
      and st: "name st = nm" "current st = s'" "lifecycle st = Running"
      and c: "se_cache env' = StateCache_update D st (se_cache env)"
    then have "s' = s" using assms(3) by simp
    then show ?thesis
      using r st c state_cache.get_update [OF assms(1)] state_cache.readers(1) [OF assms(1)]
      by (simp add: current_state_def alive_def sup_state_def)
  qed
  ultimately show ?thesis by blast
qed

text \<open>
  The name of an FSM leads to the actor that registered it first. After \<open>start_fsm\<close> on a name
  nobody holds, messages for the name go to the new actor; on a name an actor already holds they
  go on to that actor, although the call has succeeded, the table of actors lists the new pid and
  the cache (of \<open>start_fsm_runs\<close>) shows the new FSM.
\<close>

lemma start_fsm_addressing:
  assumes "actor_registry J" "start_fsm J D F sv nm fsm p env = (res, env')"
  shows "\<exists>pid. se_actors env' nm = Some pid \<and>
    resolve_pid J sv nm env' =
      (case j_whereis J (sup_system sv) nm (se_system env) of None \<Rightarrow> Inr pid | Some old \<Rightarrow> Inr old)"
  using start_fsm_resolve [OF assms] by (auto split: option.split)


definition taken_env :: "((string, (test_state, test_payload) FsmState) fmap,
    (string, (test_state, test_payload) persisted) fmap, (test_event, test_payload) Message test_system) sup_env" where
  "taken_env = sup_env_new fmap_dash_map (fmupd ''fsm'' (Running, StRunning, 3) fmempty)
     ([(0, ''fsm'') \<mapsto> 9], 10, [9], [])"


text \<open>
  C20: \<open>spawn_supervised\<close> keeps what the backend holds for the name, and stores the initial state
  with the given payload if the backend answers that it holds nothing. It does the same when the
  load fails: whatever the backend held for the name is then overwritten by the initial state. The
  call succeeds in every case, the cache is not touched, and a store that succeeds touches no other
  entry of the backend.
\<close>

theorem spawn_supervised_entry:
  assumes "persistency P stored" "sup_persistency sv = Some P" "load P nm (se_world env) = (answer, w1)"
    and "spawn_supervised J default_intensity dflt sv nm fsm p strategy env = (res, env')"
  shows "res = Inr () \<and> se_cache env' = se_cache env \<and>
    (case answer of
       Inr (Some entry) \<Rightarrow> stored (se_world env') = stored (se_world env)
     | _ \<Rightarrow> (\<forall>w2. store P nm (initial (sup_graph sv)) p w1 = (Inr (), w2) \<longrightarrow>
         (\<exists>lc. stored (se_world env') = (stored (se_world env))(nm \<mapsto> (lc, initial (sup_graph sv), p)))))"
proof -
  have w1: "stored w1 = stored (se_world env)"
    using persistency.load_keeps [OF assms(1), of nm "se_world env"] assms(3) by simp
  have env': "res = Inr ()" "se_cache env' = se_cache env" "se_world env' = ensure_stored sv nm p (se_world env)"
    using assms(4)
    by (auto simp: spawn_supervised_def spawn_supervised_with_intensity_def Let_def split: prod.splits)
  have fresh: "\<exists>lc. stored (se_world env') = (stored (se_world env))(nm \<mapsto> (lc, initial (sup_graph sv), p))"
    if "store P nm (initial (sup_graph sv)) p w1 = (Inr (), w2)" "\<forall>entry. answer \<noteq> Inr (Some entry)" for w2
  proof -
    have "se_world env' = w2"
      using env'(3) assms(2,3) that by (auto simp: ensure_stored_def split: sum.splits option.splits)
    with persistency.store_result [OF assms(1) that(1)] w1 show ?thesis by simp
  qed
  show ?thesis
  proof (cases "\<exists>entry. answer = Inr (Some entry)")
    case True
    then obtain entry where "answer = Inr (Some entry)" by blast
    with env' assms(2,3) w1 show ?thesis by (simp add: ensure_stored_def)
  next
    case False
    with fresh env' show ?thesis by (auto split: sum.split option.split)
  qed
qed

text \<open>A backend that cannot read: the contract allows it, and what it held is lost.\<close>

definition unreadable :: "((string, (test_state, test_payload) persisted) fmap, test_state, test_payload) Persistency" where
  "unreadable = (InMemoryPersistency fmap_dash_map)\<lparr>load := (\<lambda>i m. (Inl (LoadFailed ''timeout''), m))\<rparr>"

lemma unreadable_persistency: "persistency unreadable (dm_get fmap_dash_map)"
  by unfold_locales (auto simp: unreadable_def InMemoryPersistency_def fun_eq_iff fmap_dash_map_def)

lemma unreadable_simps [simp]:
  "load unreadable i m = (Inl (LoadFailed ''timeout''), m)"
  "store unreadable i s p m = (Inr (), fmupd i (Running, s, p) m)"
  by (simp_all add: unreadable_def)

theorem spawn_supervised_entry_witness:
  "\<exists>lc. dm_get fmap_dash_map (se_world (snd (spawn_supervised test_joerl () () (with_persistency unreadable test_sup)
      ''fsm'' () 0 () (test_sup_env\<lparr>se_world := fmupd ''fsm'' (Running, StDone, 7) fmempty\<rparr>)))) ''fsm'' =
    Some (lc, StIdle, 0)"
proof -
  let ?env = "test_sup_env\<lparr>se_world := fmupd ''fsm'' (Running, StDone, 7) fmempty\<rparr>"
  let ?sv = "with_persistency unreadable test_sup"
  let ?run = "spawn_supervised test_joerl () () ?sv ''fsm'' () 0 () ?env"
  have "sup_persistency ?sv = Some unreadable" "sup_graph ?sv = test_graph"
    by (simp_all add: with_persistency_def)
  then show ?thesis
    using spawn_supervised_entry [OF unreadable_persistency, of ?sv "''fsm''" ?env "Inl (LoadFailed ''timeout'')"
        "se_world ?env" test_joerl "()" "()" "()" 0 "()" "fst ?run" "snd ?run"]
    by auto
qed

text \<open>
  An event for a name that neither the registry nor the table of actors knows is refused with
  a validation error and changes nothing; for a registered name it goes to the registered actor as
  one transition message, a failed delivery is reported as a validation error, and the cache, the
  backend and the table of actors are left alone in either case.
\<close>

lemma transition_delivery:
  assumes "transition J sv nm ev ep env = (res, env')"
  shows "(j_whereis J (sup_system sv) nm (se_system env) = None \<and> se_actors env nm = None \<longrightarrow>
      env' = env \<and> (\<exists>msg. res = Inl (err_validation msg))) \<and>
    (\<forall>pid j sent. j_whereis J (sup_system sv) nm (se_system env) = Some pid \<longrightarrow>
       j_send J (sup_system sv) pid (TransitionMsg ev ep) (se_system env) = (sent, j) \<longrightarrow>
       env' = env\<lparr>se_system := j\<rparr> \<and>
       (res = Inr () \<longleftrightarrow> sent = Inr ()) \<and> (\<forall>err. res = Inl err \<longrightarrow> stage err = Validation))"
  using assms
  by (auto simp: transition_def send_to_def resolve_pid_def split: prod.splits sum.splits)

text \<open>
  The registration a restarted child asks for (\<open>supervised_restart\<close>) makes its name lead to the new actor,
  whoever held the name before, and changes what no other name leads to.
\<close>

lemma restart_takes_name:
  assumes "actor_registry J"
    and "se_system env' = snd (j_register J (sup_system sv) nm pid (snd (j_unregister J (sup_system sv) nm (se_system env))))"
    and "se_actors env' = se_actors env"
  shows "resolve_pid J sv other env' = (if other = nm then Inr pid else resolve_pid J sv other env)"
proof -
  let ?j1 = "snd (j_unregister J (sup_system sv) nm (se_system env))"
  have "j_whereis J (sup_system sv) nm ?j1 = None"
    using actor_registry.unregistered [OF assms(1), of "sup_system sv" nm "sup_system sv" nm] by simp
  from actor_registry.register_free [OF assms(1) this, of "sup_system sv" other pid] assms(2,3)
  show ?thesis
    using actor_registry.unregistered [OF assms(1), of "sup_system sv" other "sup_system sv" nm "se_system env"]
    by (cases "other = nm") (simp_all add: resolve_pid_def split: option.split)
qed

end
