(* ===== verification/Props_System.thy ===== *)
theory Props_System
  imports Fsm_System Props_Supervisor
begin

section \<open>Properties of the supervisor with its actors\<close>

text \<open>
  What the cache of a supervisor says about the actors that run under it, whatever they and the
  outside world do. The witnesses are a system with one started machine.
\<close>

subsection \<open>A concrete system\<close>

abbreviation test_reach where
  "test_reach \<equiv> sys_reach plain_joerl fmap_dash_map TestFsm test_sup"

definition test_system0 :: "(unit, (string, (test_state, test_payload) FsmState) fmap,
    (string, (test_state, test_payload) persisted) fmap, test_state, test_event, test_payload,
    (test_event, test_payload) Message test_system) fsm_system" where
  "test_system0 = system_new fmap_dash_map fmempty (Map.empty, 1, [], [])"

lemma test_system_started:
  "\<exists>s pid h. test_reach s \<and> sy_live s pid = Some h \<and> fa_name (h_actor h) = ''fsm'' \<and> sy_shared s = {} \<and>
     lifecycle (fa_state (h_actor h)) = Running"
proof -
  obtain actor cache w where
    sa: "start_actor fmap_dash_map TestFsm test_sup ''fsm'' () 0 (sy_env test_system0) = (actor, cache, w)"
    using prod_cases3 by blast
  obtain pid j1 where sp: "j_spawn plain_joerl (sup_system test_sup) actor (se_system (sy_env test_system0)) = (pid, j1)"
    by (meson surj_pair)
  obtain res env' where
    st: "start_fsm plain_joerl fmap_dash_map TestFsm test_sup ''fsm'' () 0 (sy_env test_system0) = (res, env')"
    by fastforce
  obtain s where s: "s = test_system0\<lparr>sy_env := env', sy_live := (sy_live test_system0)(pid \<mapsto>
      \<lparr>h_actor = actor, h_requests = [], h_started = False\<rparr>)\<rparr>" by blast
  have free: "free_name ''fsm'' test_system0" by (simp add: test_system0_def system_new_def free_name_def)
  have "sys_step plain_joerl fmap_dash_map TestFsm test_sup test_system0 s"
    using sys_start [OF sa sp st] free s by (simp add: test_system0_def system_new_def)
  moreover have "test_reach test_system0" unfolding test_system0_def by (rule reach_new)
  ultimately have "test_reach s" by (blast intro: reach_step)
  moreover have "fa_name actor = ''fsm'' \<and> lifecycle (fa_state actor) = Running"
    using sa by (rule start_actor_result) (auto dest: fresh_running_simps)
  moreover have "sy_shared s = {}" "sy_live s pid = Some \<lparr>h_actor = actor, h_requests = [], h_started = False\<rparr>"
    by (simp_all add: s test_system0_def system_new_def)
  ultimately show ?thesis by fastforce
qed

subsection \<open>The cache and the actors\<close>

text \<open>
  C11: in every system that a supervisor, its actors, crashes and the outside world reach, the cache
  mirrors every live actor whose lifecycle has left \<open>Created\<close>, if its name was never started (by \<open>start_fsm\<close> or
  as a supervised child) while a live actor had it: under the name the cache holds the state of the
  actor, with its history, lifecycle and error, up to the payload, which \<open>on_timer\<close> may change
  without the cache being told.
\<close>

theorem cache_mirrors_actors:
  assumes "state_cache D" "sys_reach J D F sv s"
    and "sy_live s pid = Some h" "lifecycle (fa_state (h_actor h)) \<noteq> Created"
    and "fa_name (h_actor h) \<notin> sy_shared s"
  shows "(\<exists>q. sup_state D (fa_name (h_actor h)) (sy_env s) = Some ((fa_state (h_actor h))\<lparr>payload := q\<rparr>)) \<and>
    current_state D (fa_name (h_actor h)) (sy_env s) = Some (current (fa_state (h_actor h)))"
proof -
  from sys_invD(2) [OF state_cache.sys_reach_inv [OF assms(1,2)] assms(3,5)] assms(4) obtain q where
    q: "StateCache_get D (se_cache (sy_env s)) (fa_name (h_actor h)) = Some ((fa_state (h_actor h))\<lparr>payload := q\<rparr>)"
    by (auto simp: actor_ok_def mirrored_def)
  then have "sup_state D (fa_name (h_actor h)) (sy_env s) = Some ((fa_state (h_actor h))\<lparr>payload := q\<rparr>)"
    by (simp add: sup_state_def)
  moreover from q have "current_state D (fa_name (h_actor h)) (sy_env s) = Some (current (fa_state (h_actor h)))"
    by (simp add: current_state_def state_cache.readers(1) [OF assms(1)])
  ultimately show ?thesis by blast
qed

theorem cache_mirrors_actors_witness:
  "\<exists>s pid h. test_reach s \<and> sy_live s pid = Some h \<and>
     current_state fmap_dash_map ''fsm'' (sy_env s) = Some (current (fa_state (h_actor h)))"
proof -
  from test_system_started obtain s pid h where
    s: "test_reach s" "sy_live s pid = Some h" "fa_name (h_actor h) = ''fsm''" "sy_shared s = {}"
      "lifecycle (fa_state (h_actor h)) = Running"
    by blast
  with cache_mirrors_actors [OF fmap_cache.state_cache_axioms s(1,2)] show ?thesis by auto
qed

text \<open>
  C12: \<open>alive\<close> tells the truth: in every reachable system, a name that was never started while a live
  actor had it is alive if a live actor of that name is \<open>Running\<close>, and exactly then as long as no
  actor of that name has crashed. After a crash the entry stays, so a name may go on being alive
  with no actor behind it.
\<close>

theorem alive_iff_running:
  assumes "state_cache D" "sys_reach J D F sv s" "nm \<notin> sy_shared s"
  shows "(runs_as s nm \<longrightarrow> alive D nm (sy_env s)) \<and>
    (nm \<notin> sy_lost s \<longrightarrow> (alive D nm (sy_env s) \<longleftrightarrow> runs_as s nm))"
proof -
  note inv = state_cache.sys_reach_inv [OF assms(1,2)]
  have al: "alive D nm (sy_env s) \<longleftrightarrow>
      (\<exists>st. StateCache_get D (se_cache (sy_env s)) nm = Some st \<and> lifecycle st = Running)"
    by (auto simp: alive_def split: option.split)
  have "alive D nm (sy_env s)" if "runs_as s nm"
    using that sys_invD(2) [OF inv] assms(3) unfolding al by (fastforce simp: runs_as_def actor_ok_def mirrored_def)
  moreover have "runs_as s nm" if "nm \<notin> sy_lost s" "alive D nm (sy_env s)"
    using that sys_invD(4) [OF inv _ assms(3)] unfolding al by blast
  ultimately show ?thesis by blast
qed

theorem alive_iff_running_witness: "\<exists>s. test_reach s \<and> alive fmap_dash_map ''fsm'' (sy_env s)"
proof -
  from test_system_started obtain s pid h where
    s: "test_reach s" "sy_live s pid = Some h" "fa_name (h_actor h) = ''fsm''" "sy_shared s = {}"
      "lifecycle (fa_state (h_actor h)) = Running"
    by blast
  then have "runs_as s ''fsm''" by (auto simp: runs_as_def)
  with alive_iff_running [OF fmap_cache.state_cache_axioms s(1), of "''fsm''"] s(1,4) show ?thesis by simp blast
qed

end
