(* ===== verification/Fsm_Restart.thy ===== *)
theory Fsm_Restart
  imports Fsm_System
begin

section \<open>Crashes, restarts and the backend\<close>

text \<open>
  The system of \<open>Fsm_System\<close> over one persistence backend that answers its loads and whose failed
  stores change nothing, with callbacks, a listener and a world outside that leave the backend's
  entries to the library. A supervised FSM that crashes is started again from its entry. The
  entries tie the lives of one name together, unless the name was started while a live actor had
  it: what is stored moves along transitions of the graph only, and an actor that is up is where
  its entry says.
\<close>

subsection \<open>A backend that is up\<close>

locale steady_backend = persistency P stored
  for P :: "('w, 's, 'p) Persistency" and stored +
  assumes load_answers: "\<exists>r. fst (load P i w) = Inr r"
    and store_fails: "store P i s p w = (Inl e, w') \<Longrightarrow> stored w' = stored w"
begin

lemma loaded: "load P i w = (res, w') \<Longrightarrow> res = Inr (stored w i) \<and> stored w' = stored w"
  using load_answers [of i w] load_result [of i w] load_keeps [of i w] by fastforce

end

sublocale memory_store \<subseteq> mem: steady_backend "InMemoryPersistency D" "dm_get D"
  by unfold_locales (auto simp: InMemoryPersistency_def)

interpretation fmap_steady: steady_backend "InMemoryPersistency fmap_dash_map" "dm_get fmap_dash_map"
  by (rule fmap_store.mem.steady_backend_axioms)

text \<open>Where an FSM of that name would be started now.\<close>

definition resume_state :: "('s, 'e) TransitionGraph \<Rightarrow> (string \<Rightarrow> (Lifecycle \<times> 's \<times> 'p) option) \<Rightarrow> string \<Rightarrow> 's" where
  "resume_state g m nm = (case m nm of None \<Rightarrow> initial g | Some (lc, s, p) \<Rightarrow> s)"

lemma resume_state_upd [simp]: "resume_state g (m(nm \<mapsto> (lc, s, p))) nm = s"
  by (simp add: resume_state_def)

text \<open>
  What a handler does to the entries: those of other names stay, the actor moves along a path, and
  if its entry told where it was the entry tells where it is.
\<close>

definition carries :: "('s, 'e) TransitionGraph \<Rightarrow> (string \<Rightarrow> (Lifecycle \<times> 's \<times> 'p) option) \<Rightarrow> ('f, 'w, 's, 'e, 'p) FsmActor \<Rightarrow>
    (string \<Rightarrow> (Lifecycle \<times> 's \<times> 'p) option) \<Rightarrow> ('f, 'w, 's, 'e, 'p) FsmActor \<Rightarrow> bool" where
  "carries g m a m' a' \<longleftrightarrow> same_config a a' \<and> name (fa_state a') = name (fa_state a) \<and>
     (\<forall>nm. nm \<noteq> name (fa_state a) \<longrightarrow> m' nm = m nm) \<and>
     (\<exists>p. graph_path g (current (fa_state a)) p (current (fa_state a'))) \<and>
     (resume_state g m (name (fa_state a)) = current (fa_state a) \<longrightarrow>
      resume_state g m' (name (fa_state a)) = current (fa_state a'))"

lemma carries_refl: "carries g m a m a"
  by (auto simp: carries_def intro: exI [of _ "[]"])

lemma carriesI:
  "same_config a a' \<Longrightarrow> name (fa_state a') = name (fa_state a) \<Longrightarrow>
     (\<And>nm. nm \<noteq> name (fa_state a) \<Longrightarrow> m' nm = m nm) \<Longrightarrow>
     graph_path g (current (fa_state a)) p (current (fa_state a')) \<Longrightarrow>
     (resume_state g m (name (fa_state a)) = current (fa_state a) \<Longrightarrow>
      resume_state g m' (name (fa_state a)) = current (fa_state a')) \<Longrightarrow> carries g m a m' a'"
  by (auto simp: carries_def)

lemma carries_trans:
  assumes ab: "carries g m a m1 b" and bc: "carries g m1 b m2 c"
  shows "carries g m a m2 c"
proof -
  obtain p q where "graph_path g (current (fa_state a)) p (current (fa_state b))"
    "graph_path g (current (fa_state b)) q (current (fa_state c))"
    using ab bc by (auto simp: carries_def)
  then have "graph_path g (current (fa_state a)) (p @ q) (current (fa_state c))"
    by (auto simp: graph_path_append)
  then show ?thesis
    using ab bc by (intro carriesI) (auto simp: carries_def intro: same_config_trans)
qed

lemma carries_still:
  "same_config a a' \<Longrightarrow> name (fa_state a') = name (fa_state a) \<Longrightarrow> current (fa_state a') = current (fa_state a) \<Longrightarrow>
     carries g m a m a'"
  by (auto simp: carries_def intro: exI [of _ "[]"])

locale durable = steady_backend P stored
  for P :: "('w, 's, 'p) Persistency" and stored +
  fixes F :: "('f, 'w, 's, 'e, 'p) Finitomata" and sv :: "('w, 's, 'e, 'p) FinitomataSupervisor"
  assumes backend: "sup_persistency sv = Some P"
    and callbacks: "callbacks_keep stored F"
    and listener: "listener_keeps stored (sup_listener sv)"
    and graph: "graph_inv (sup_graph sv)"

text \<open>The actors of a supervisor have its configuration.\<close>

definition child_of :: "('w, 's, 'e, 'p) FinitomataSupervisor \<Rightarrow> ('f, 'w, 's, 'e, 'p) FsmActor \<Rightarrow> bool" where
  "child_of sv a \<longleftrightarrow> fa_graph a = sup_graph sv \<and> fa_persistency a = sup_persistency sv \<and>
     fa_listener a = sup_listener sv \<and> name (fa_state a) = fa_name a"

lemma child_of_carried: "carries g m a m' a' \<Longrightarrow> child_of sv a \<Longrightarrow> child_of sv a'"
  by (simp add: carries_def child_of_def same_config_def)

context durable
begin

lemma engine_for: "child_of sv a \<Longrightarrow> persistent_engine P stored F (actor_ctx a)"
  using persistency_axioms backend callbacks listener
  by (simp add: persistent_engine_def persistent_engine_axioms_def actor_ctx_def child_of_def)

lemma turn_carries:
  assumes a: "child_of sv a" and t: "turn F D a ev ep en = (r, a', en')"
  shows "carries (sup_graph sv) (stored (en_world en)) a (stored (en_world en')) a'"
proof -
  let ?g = "sup_graph sv" and ?nm = "name (fa_state a)"
  note tr = turn_result [OF t]
  have g: "fa_graph a = ?g" using a by (simp add: child_of_def)
  obtain p where run: "fsm_run ?g (fa_auto_terminate a) (fa_state a) p (fa_state a')"
    using fsm_run_step [OF tr(2)] g by auto
  obtain fsm st w where
    eng: "transit F (fa_fsm a) (fa_graph a) (fa_state a) ev ep (actor_ctx a) (en_world en) = (r, fsm, st, w)"
    and st: "fa_state a' = st" and w: "en_world en' = w"
    using t by (auto simp: turn_def split: prod.splits)
  have still: "current st = current (fa_state a)" if "r = Inr SoftSkipped \<or> isl r"
    using fsm_step_stays [OF tr(2) that] st by simp
  have "stored w = stored (en_world en) \<and> current st = current (fa_state a) \<or>
      (\<exists>lc q. stored w = (stored (en_world en))(?nm \<mapsto> (lc, current st, q)))"
  proof (cases r)
    case (Inl err)
    have "stored w = stored (en_world en)"
      using persistent_engine.engine_stores [OF engine_for [OF a] eng] Inl by (auto dest: store_fails)
    with still Inl show ?thesis by simp
  next
    case (Inr oc)
    with persistent_engine.engine_stores [OF engine_for [OF a] eng] still show ?thesis
      by (cases "oc = SoftSkipped") auto
  qed
  then have "(\<forall>nm. nm \<noteq> ?nm \<longrightarrow> stored w nm = stored (en_world en) nm) \<and>
      (resume_state ?g (stored (en_world en)) ?nm = current (fa_state a) \<longrightarrow> resume_state ?g (stored w) ?nm = current st)"
    by auto
  with run tr(1) st w show ?thesis
    unfolding carries_def by (auto intro: fsm_run_frame fsm_run_path [OF graph])
qed

lemma do_transition_carries:
  assumes "do_transition F D a ev ep en = Some (b, en2)" "child_of sv a"
  shows "carries (sup_graph sv) (stored (en_world en)) a (stored (en_world en2)) b"
  using assms
proof (induction rule: do_transition_induct)
  case (Last a ev ep en r a' en')
  then show ?case by (simp add: turn_carries chain_end_def)
next
  case (Chain a ev ep en a' en' evt b en2)
  note t = turn_carries [OF Chain.prems Chain.hyps(1)]
  from carries_trans [OF t Chain.IH [OF child_of_carried [OF t Chain.prems]]] show ?case .
qed

lemma actor_hook_keeps:
  "actor_hook h a en = (a', en') \<Longrightarrow> hook_keeps stored h \<Longrightarrow> stored (en_world en') = stored (en_world en)"
  by (auto simp: actor_hook_def split: prod.splits dest: run_hook_keeps)

lemma handle_message_carries:
  assumes run: "handle_message F D pid msg a en = Some (a', en')" and a: "child_of sv a"
  shows "carries (sup_graph sv) (stored (en_world en)) a (stored (en_world en')) a'"
proof (cases msg)
  case (TransitionMsg ev ep)
  with run a show ?thesis by (auto simp: handle_message_def intro: do_transition_carries)
next
  case TimerTickMsg
  with run obtain en1 where tick: "handle_timer_tick F D a en = Some (a', en1)"
    and w: "en_world en' = en_world en1"
    by (auto elim!: tick_result split: option.splits)
  obtain res f p w1 where
    ti: "on_timer F (current (fa_state a)) (fa_fsm a, payload (fa_state a), en_world en) = (res, f, p, w1)"
    using prod_cases4 by blast
  let ?a = "a\<lparr>fa_fsm := f, fa_state := (fa_state a)\<lparr>payload := p\<rparr>\<rparr>" and ?en = "en\<lparr>en_world := w1\<rparr>"
  have w1: "stored w1 = stored (en_world en)" by (rule callbacks_keepD(7) [OF callbacks ti])
  have c: "carries (sup_graph sv) (stored (en_world en)) a (stored (en_world ?en)) ?a"
    unfolding w1 [symmetric] by (simp add: carries_still same_config_def)
  show ?thesis
  proof (cases res)
    case None
    with tick ti c w show ?thesis by (auto simp: handle_timer_tick_def)
  next
    case (Some ee)
    with tick ti have "do_transition F D ?a (fst ee) (snd ee) ?en = Some (a', en1)"
      by (auto simp: handle_timer_tick_def split: prod.splits)
    from carries_trans [OF c do_transition_carries [OF this child_of_carried [OF c a]]] w show ?thesis by simp
  qed
next
  case ShutdownMsg
  with run have sd: "handle_message F D pid ShutdownMsg a en = Some (a', en')" by simp
  obtain a1 en1 where h: "actor_hook (on_terminate F) (set_lifecycle Terminating a) en = (a1, en1)" by fastforce
  with sd have "en_world en' = en_world en1" by (auto simp: handle_message_def)
  with actor_hook_keeps [OF h callbacks_keepD(5) [OF callbacks]]
  have "stored (en_world en') = stored (en_world en)" by simp
  with shutdown_result [OF sd] show ?thesis by (simp add: carries_still)
next
  case OtherMsg
  with run show ?thesis by (simp add: handle_message_def carries_refl)
qed

lemma stopped_keeps:
  assumes run: "stopped F D a en = (a', en')"
  shows "stored (en_world en') = stored (en_world en)"
proof -
  obtain a1 en1 where h: "actor_hook (on_terminate F) (set_lifecycle Terminated a) en = (a1, en1)" by fastforce
  from actor_hook_keeps [OF this callbacks_keepD(5) [OF callbacks]] run h
  show ?thesis by (auto simp: stopped_def split: if_splits)
qed

text \<open>What \<open>started\<close> begins with: the stored state, if the actor recovers and there is one.\<close>

lemma recover_keeps:
  assumes "recover F D rs rp a en = (b, en')"
  shows "stored (en_world en') = stored (en_world en)"
proof -
  let ?a0 = "set_lifecycle Loaded (a\<lparr>fa_state := FsmState_new (fa_name a) rs rp\<rparr>)"
  obtain a1 en1 where h1: "actor_hook (on_start F) ?a0 en = (a1, en1)" by fastforce
  obtain a2 en2 where h2: "actor_hook (on_enter F (current (fa_state a1))) a1 en1 = (a2, en2)" by fastforce
  from assms h1 h2 have "en_world en' = en_world en2" by (auto simp: recover_def)
  with actor_hook_keeps [OF h1 callbacks_keepD(1) [OF callbacks]]
    actor_hook_keeps [OF h2 callbacks_keepD(2) [OF callbacks]] show ?thesis by simp
qed

lemma started_recover_entry:
  assumes run: "started_recover F D pid a en = (b, en')" and a: "child_of sv a"
  shows "stored (en_world en') = stored (en_world en) \<and> child_of sv b \<and> same_config a b \<and>
    current (fa_state b) = (case stored (en_world en) (fa_name a) of
        Some (lc, s, p) \<Rightarrow> if fa_recover_on_start a then s else current (fa_state a)
      | None \<Rightarrow> current (fa_state a))"
proof (cases "fa_recover_on_start a")
  case False
  with run a show ?thesis by (auto simp: started_recover_def split: option.split)
next
  case True
  have P: "fa_persistency a = Some P" using a backend by (simp add: child_of_def)
  obtain res w where l: "load P (fa_name a) (en_world en) = (res, w)" by (meson surj_pair)
  note ld = loaded [OF l]
  show ?thesis
  proof (cases "stored (en_world en) (fa_name a)")
    case None
    with run True P l ld have "b = a" "en_world en' = w"
      by (auto simp: started_recover_def split: option.splits)
    with None ld a show ?thesis by simp
  next
    case (Some entry)
    obtain lc s p where e: "entry = (lc, s, p)" by (cases entry)
    obtain c en1 where r: "recover F D s p a (en\<lparr>en_world := w\<rparr>) = (c, en1)" by fastforce
    from run True P l ld Some e r have "b = c" "en_world en' = en_world en1"
      by (auto simp: started_recover_def split: option.splits)
    with recover_keeps [OF r] recover_result(1,2) [OF r] Some e ld True a
    have "stored (en_world en') = stored (en_world en)" "same_config a b"
      "fa_state b = (FsmState_new (fa_name a) s (payload (fa_state b)))\<lparr>lifecycle := Running\<rparr>" by simp_all
    with fresh_running_simps(1,2) [OF this(3)] Some e True a show ?thesis
      by (simp add: child_of_def same_config_def)
  qed
qed

text \<open>An actor that comes up is where its entry says, and gets there along a path from where it said.\<close>

lemma started_entry:
  assumes run: "started F D pid a en = Some (a', en')" and a: "child_of sv a"
  shows "\<exists>b. same_config a b \<and> name (fa_state b) = fa_name a \<and>
    (current (fa_state a) = (if fa_recover_on_start a then initial (sup_graph sv)
        else resume_state (sup_graph sv) (stored (en_world en)) (fa_name a)) \<longrightarrow>
     current (fa_state b) = resume_state (sup_graph sv) (stored (en_world en)) (fa_name a)) \<and>
    carries (sup_graph sv) (stored (en_world en)) b (stored (en_world en')) a'"
proof -
  let ?g = "sup_graph sv"
  obtain b en1 where sr: "started_recover F D pid a en = (b, en1)" by fastforce
  let ?en = "case fa_timer_interval b of None \<Rightarrow> en1 | Some interval \<Rightarrow> env_request (ReqSendTick pid interval) en1"
  note e = started_recover_entry [OF sr a]
  have w: "en_world ?en = en_world en1" by (simp split: option.split)
  have b: "child_of sv b" "name (fa_state b) = fa_name a" using e by (simp_all add: child_of_def same_config_def)
  have cur': "current (fa_state b) = resume_state ?g (stored (en_world en)) (fa_name a)"
    if "current (fa_state a) = (if fa_recover_on_start a then initial ?g
      else resume_state ?g (stored (en_world en)) (fa_name a))"
    using e that by (auto simp: resume_state_def split: option.splits if_splits)
  have "carries ?g (stored (en_world en)) b (stored (en_world en')) a'"
  proof (cases "hard_event (fa_graph b) (current (fa_state b))")
    case None
    with run sr have "a' = b" "en' = ?en" by (auto simp: started_def)
    with e w show ?thesis by (simp add: carries_refl)
  next
    case (Some evt)
    with run sr have dt: "do_transition F D b evt (payload (fa_state b)) ?en = Some (a', en')"
      by (simp add: started_def)
    from do_transition_carries [OF dt b(1)] e w show ?thesis by simp
  qed
  with e b cur' show ?thesis by blast
qed

end

subsection \<open>Handlers that panic\<close>

text \<open>
  The worlds a panic can leave, as far as the entries go. In \<open>transit\<close> it strikes before the target
  is stored (in \<open>on_exit\<close>, \<open>on_transition\<close>, \<open>on_failure\<close> or the backend), or after it (in the listener,
  \<open>on_enter\<close> or \<open>on_terminate\<close>).
\<close>

definition chosen_target :: "('s, 'p) TransitionResult \<Rightarrow> 'p \<Rightarrow> ('s \<times> 'p) option" where
  "chosen_target res p =
     (case res of Ok target \<Rightarrow> Some (target, p) | OkWithPayload target q \<Rightarrow> Some (target, q) | Error err \<Rightarrow> None)"

inductive transit_panics ::
    "('w \<Rightarrow> string \<Rightarrow> (Lifecycle \<times> 's \<times> 'p) option) \<Rightarrow> ('f, 'w, 's, 'e, 'p) Finitomata \<Rightarrow> 'f \<Rightarrow>
     ('s, 'e) TransitionGraph \<Rightarrow> ('s, 'p) FsmState \<Rightarrow> 'e \<Rightarrow> 'p \<Rightarrow> ('w, 's, 'e, 'p) TransitContext \<Rightarrow> 'w \<Rightarrow> 'w \<Rightarrow> bool"
  for stored F fsm g st ev ep ctx w where
  before_store: "stored w' = stored w \<Longrightarrow> transit_panics stored F fsm g st ev ep ctx w w'"
| after_store: "allowed g (current st) ev = Some (tos, kind) \<Longrightarrow>
     run_hook (on_exit F (current st)) fsm st w = (f1, st1, w1) \<Longrightarrow>
     on_transition F (current st) ev ep (f1, payload st1, w1) = (res, f2, p2, w2) \<Longrightarrow>
     chosen_target res p2 = Some (target, q) \<Longrightarrow> target \<in> set tos \<Longrightarrow>
     tc_persistency ctx = Some P \<Longrightarrow> store P (name st) target q w2 = (Inr u, w3) \<Longrightarrow> stored w' = stored w3 \<Longrightarrow>
     transit_panics stored F fsm g st ev ep ctx w w'"

text \<open>\<open>do_transition\<close> panics in its first \<open>transit\<close>, or in that of a hard event it follows.\<close>

inductive transition_panics ::
    "('w \<Rightarrow> string \<Rightarrow> (Lifecycle \<times> 's \<times> 'p) option) \<Rightarrow> ('f, 'w, 's, 'e, 'p) Finitomata \<Rightarrow> ('m, 's, 'p) cache_map \<Rightarrow>
     ('f, 'w, 's, 'e, 'p) FsmActor \<Rightarrow> 'e \<Rightarrow> 'p \<Rightarrow> ('m, 'w) env \<Rightarrow> 'w \<Rightarrow> bool" for stored F D where
  first_panics: "transit_panics stored F (fa_fsm a) (fa_graph a) (fa_state a) ev ep (actor_ctx a) (en_world en) w' \<Longrightarrow>
     transition_panics stored F D a ev ep en w'"
| hard_panics: "turn F D a ev ep en = (r, a1, en1) \<Longrightarrow> chain_next r a1 = Some evt \<Longrightarrow>
     transition_panics stored F D a1 evt (payload (fa_state a1)) en1 w' \<Longrightarrow> transition_panics stored F D a ev ep en w'"

text \<open>An actor crashes between two handlers, in a callback that is called by none of its transitions, or in a transition.\<close>

inductive crash_leaves ::
    "('w \<Rightarrow> string \<Rightarrow> (Lifecycle \<times> 's \<times> 'p) option) \<Rightarrow> ('f, 'w, 's, 'e, 'p) Finitomata \<Rightarrow> ('m, 's, 'p) cache_map \<Rightarrow>
     Pid \<Rightarrow> ('f, 'w, 's, 'e, 'p) hosted \<Rightarrow> ('m, 'w) env \<Rightarrow> 'w \<Rightarrow> bool" for stored F D pid h en where
  crash_idle: "stored w' = stored (en_world en) \<Longrightarrow> crash_leaves stored F D pid h en w'"
| crash_in_transition: "h_started h \<Longrightarrow> transition_panics stored F D (h_actor h) ev ep en w' \<Longrightarrow>
     crash_leaves stored F D pid h en w'"
| crash_in_tick: "h_started h \<Longrightarrow> a = h_actor h \<Longrightarrow>
     on_timer F (current (fa_state a)) (fa_fsm a, payload (fa_state a), en_world en) = (Some (ev, ep), f, p, w1) \<Longrightarrow>
     transition_panics stored F D (a\<lparr>fa_fsm := f, fa_state := (fa_state a)\<lparr>payload := p\<rparr>\<rparr>) ev ep (en\<lparr>en_world := w1\<rparr>) w' \<Longrightarrow>
     crash_leaves stored F D pid h en w'"
| crash_in_boot: "\<not> h_started h \<Longrightarrow> started_recover F D pid (h_actor h) en = (b, en1) \<Longrightarrow>
     hard_event (fa_graph b) (current (fa_state b)) = Some evt \<Longrightarrow>
     transition_panics stored F D b evt (payload (fa_state b))
       (case fa_timer_interval b of None \<Rightarrow> en1 | Some interval \<Rightarrow> env_request (ReqSendTick pid interval) en1) w' \<Longrightarrow>
     crash_leaves stored F D pid h en w'"

lemma allowed_path:
  "graph_inv g \<Longrightarrow> allowed g s ev = Some (tos, kind) \<Longrightarrow> x \<in> set tos \<Longrightarrow> graph_path g s [(ev, x)] x"
  by (auto simp: graph_edge_def elim!: allowed_SomeD)

context durable
begin

lemma transit_panics_entry:
  assumes "transit_panics stored F (fa_fsm a) (fa_graph a) (fa_state a) ev ep (actor_ctx a) w w'" "child_of sv a"
  shows "(\<forall>nm. nm \<noteq> fa_name a \<longrightarrow> stored w' nm = stored w nm) \<and>
    (resume_state (sup_graph sv) (stored w) (fa_name a) = current (fa_state a) \<longrightarrow>
     (\<exists>p. graph_path (sup_graph sv) (current (fa_state a)) p (resume_state (sup_graph sv) (stored w') (fa_name a))))"
  using assms(1)
proof cases
  case before_store
  then show ?thesis by (auto intro: exI [of _ "[]"])
next
  case (after_store tos kind f1 st1 w1 res f2 p2 w2 target q Q u w3)
  have Q: "Q = P" and g: "fa_graph a = sup_graph sv" and nm: "name (fa_state a) = fa_name a"
    using after_store(6) assms(2) backend by (simp_all add: actor_ctx_def child_of_def)
  have "stored w2 = stored w"
    using run_hook_keeps [OF callbacks_keepD(3) [OF callbacks] after_store(2)]
      callbacks_keepD(6) [OF callbacks after_store(3)] by simp
  moreover obtain lc where "stored w3 = (stored w2)(fa_name a \<mapsto> (lc, target, q))"
    using store_result [of "fa_name a" target q w2 w3] after_store(7) Q nm by (cases u) auto
  moreover have "\<exists>p. graph_path (sup_graph sv) (current (fa_state a)) p target"
    using allowed_path [OF graph _ after_store(5)] after_store(1) unfolding g by blast
  ultimately show ?thesis using after_store(8) by simp
qed

lemma transition_panics_entry:
  assumes "transition_panics stored F D a ev ep en w'" "child_of sv a"
  shows "(\<forall>nm. nm \<noteq> fa_name a \<longrightarrow> stored w' nm = stored (en_world en) nm) \<and>
    (resume_state (sup_graph sv) (stored (en_world en)) (fa_name a) = current (fa_state a) \<longrightarrow>
     (\<exists>p. graph_path (sup_graph sv) (current (fa_state a)) p (resume_state (sup_graph sv) (stored w') (fa_name a))))"
  using assms
proof (induction rule: transition_panics.induct)
  case (first_panics a ev ep en w')
  then show ?case by (rule transit_panics_entry)
next
  case (hard_panics a ev ep en r a1 en1 evt w')
  note t = turn_carries [OF hard_panics.prems hard_panics.hyps(1)]
  note ih = hard_panics.IH [OF child_of_carried [OF t hard_panics.prems]]
  have nm: "name (fa_state a) = fa_name a" "fa_name a1 = fa_name a"
    using t hard_panics.prems by (simp_all add: carries_def child_of_def same_config_def)
  obtain p where p: "graph_path (sup_graph sv) (current (fa_state a)) p (current (fa_state a1))"
    using t by (auto simp: carries_def)
  have "\<exists>p. graph_path (sup_graph sv) (current (fa_state a)) p (resume_state (sup_graph sv) (stored w') (fa_name a))"
    if "resume_state (sup_graph sv) (stored (en_world en)) (fa_name a) = current (fa_state a)"
  proof -
    have "resume_state (sup_graph sv) (stored (en_world en1)) (fa_name a) = current (fa_state a1)"
      using t that nm by (simp add: carries_def)
    with ih nm obtain q where "graph_path (sup_graph sv) (current (fa_state a1)) q
        (resume_state (sup_graph sv) (stored w') (fa_name a))" by auto
    with p show ?thesis by (auto simp: graph_path_append intro!: exI [of _ "p @ q"])
  qed
  with ih t nm show ?case by (simp add: carries_def)
qed

end

subsection \<open>The system over the backend\<close>

text \<open>
  The steps of \<open>sys_step\<close>, with what they may do to the entries. \<open>spawn_supervised\<close>, as \<open>start_fsm\<close>,
  may be called for any name. A crash leaves the entries as the handler it interrupts has left them
  by then.
\<close>

abbreviation entries_of :: "('w \<Rightarrow> string \<Rightarrow> (Lifecycle \<times> 's \<times> 'p) option) \<Rightarrow>
    ('f, 'm, 'w, 's, 'e, 'p, 'j) fsm_system \<Rightarrow> string \<Rightarrow> (Lifecycle \<times> 's \<times> 'p) option" where
  "entries_of stored s \<equiv> stored (se_world (sy_env s))"

definition entry_moves :: "('s, 'e) TransitionGraph \<Rightarrow> (string \<Rightarrow> (Lifecycle \<times> 's \<times> 'p) option) \<Rightarrow>
    (string \<Rightarrow> (Lifecycle \<times> 's \<times> 'p) option) \<Rightarrow> string \<Rightarrow> bool" where
  "entry_moves g m m' nm \<longleftrightarrow> (\<exists>p. graph_path g (resume_state g m nm) p (resume_state g m' nm))"

inductive durable_step ::
    "('j, ('f, 'w, 's, 'e, 'p) FsmActor, ('e, 'p) Message,
       ('strat, 'int, ('f, 'w, 's, 'e, 'p) FsmActor) ChildTree) Joerl \<Rightarrow> ('m, 's, 'p) cache_map \<Rightarrow>
     ('f, 'w, 's, 'e, 'p) Finitomata \<Rightarrow> ('w, 's, 'e, 'p) FinitomataSupervisor \<Rightarrow>
     ('w \<Rightarrow> string \<Rightarrow> (Lifecycle \<times> 's \<times> 'p) option) \<Rightarrow>
     ('f, 'm, 'w, 's, 'e, 'p, 'j) fsm_system \<Rightarrow> ('f, 'm, 'w, 's, 'e, 'p, 'j) fsm_system \<Rightarrow> bool"
  for J D F sv stored where
  dur_start: "start_actor D F sv nm fsm p (sy_env s) = (actor, cache, w) \<Longrightarrow>
     j_spawn J (sup_system sv) actor (se_system (sy_env s)) = (pid, j1) \<Longrightarrow>
     start_fsm J D F sv nm fsm p (sy_env s) = (res, env') \<Longrightarrow> sy_live s pid = None \<Longrightarrow>
     durable_step J D F sv stored s ((note_name nm s)\<lparr>sy_env := env',
       sy_live := (sy_live s)(pid \<mapsto> \<lparr>h_actor = actor, h_requests = [], h_started = False\<rparr>)\<rparr>)"
| dur_spawn: "spawn_supervised_with_intensity J dflt sv nm fsm p strategy intensity (sy_env s) = (res, env') \<Longrightarrow>
     durable_step J D F sv stored s (s\<lparr>sy_env := env'\<rparr>)"
| dur_child: "sy_live s pid = None \<Longrightarrow>
     durable_step J D F sv stored s ((note_name nm s)\<lparr>sy_live := (sy_live s)(pid \<mapsto>
       \<lparr>h_actor = supervised_child sv nm dflt p, h_requests = [], h_started = False\<rparr>)\<rparr>)"
| dur_outside: "se_cache env' = se_cache (sy_env s) \<Longrightarrow> stored (se_world env') = entries_of stored s \<Longrightarrow>
     durable_step J D F sv stored s (s\<lparr>sy_env := env'\<rparr>)"
| dur_boot: "sy_live s pid = Some h \<Longrightarrow> \<not> h_started h \<Longrightarrow>
     started F D pid (h_actor h) (hosted_env s h) = Some r \<Longrightarrow>
     durable_step J D F sv stored s (after_handler s pid r)"
| dur_message: "sy_live s pid = Some h \<Longrightarrow> h_started h \<Longrightarrow> ReqStopNormal \<notin> set (h_requests h) \<Longrightarrow>
     handle_message F D pid msg (h_actor h) (hosted_env s h) = Some r \<Longrightarrow>
     durable_step J D F sv stored s (after_handler s pid r)"
| dur_stop: "sy_live s pid = Some h \<Longrightarrow> stopped F D (h_actor h) (hosted_env s h) = r \<Longrightarrow>
     durable_step J D F sv stored s ((after_handler s pid r)\<lparr>sy_live := (sy_live s)(pid := None)\<rparr>)"
| dur_crash: "sy_live s pid = Some h \<Longrightarrow>
     \<forall>nm. nm \<noteq> fa_name (h_actor h) \<longrightarrow> StateCache_get D c nm = StateCache_get D (se_cache (sy_env s)) nm \<Longrightarrow>
     crash_leaves stored F D pid h (hosted_env s h) w \<Longrightarrow>
     durable_step J D F sv stored s (s\<lparr>sy_env := (sy_env s)\<lparr>se_cache := c, se_world := w\<rparr>,
       sy_live := (sy_live s)(pid := None), sy_lost := insert (fa_name (h_actor h)) (sy_lost s)\<rparr>)"

lemma durable_step_sys:
  "durable_step J D F sv stored s s' \<Longrightarrow> sys_step J D F sv s s'"
proof (induction rule: durable_step.induct)
  case (dur_spawn dflt nm fsm p strategy intensity s res env')
  then have "se_cache env' = se_cache (sy_env s)"
    by (auto simp: spawn_supervised_with_intensity_def split: prod.splits)
  then show ?case by (rule sys_outside)
qed (auto intro: sys_step.intros)

text \<open>
  It starts with no actor, over a backend whose entries, if it holds any from before, are in states
  that a path leads to from the initial state.
\<close>

inductive durable_reach ::
    "('j, ('f, 'w, 's, 'e, 'p) FsmActor, ('e, 'p) Message,
       ('strat, 'int, ('f, 'w, 's, 'e, 'p) FsmActor) ChildTree) Joerl \<Rightarrow> ('m, 's, 'p) cache_map \<Rightarrow>
     ('f, 'w, 's, 'e, 'p) Finitomata \<Rightarrow> ('w, 's, 'e, 'p) FinitomataSupervisor \<Rightarrow>
     ('w \<Rightarrow> string \<Rightarrow> (Lifecycle \<times> 's \<times> 'p) option) \<Rightarrow>
     ('f, 'm, 'w, 's, 'e, 'p, 'j) fsm_system \<Rightarrow> bool"
  for J D F sv stored where
  durable_new: "\<forall>nm. entry_moves (sup_graph sv) Map.empty (stored w) nm \<Longrightarrow>
     durable_reach J D F sv stored (system_new D w j)"
| durable_next: "durable_reach J D F sv stored s \<Longrightarrow> durable_step J D F sv stored s s' \<Longrightarrow>
     durable_reach J D F sv stored s'"

lemma durable_reach_sys: "durable_reach J D F sv stored s \<Longrightarrow> sys_reach J D F sv s"
  by (induction rule: durable_reach.induct) (auto intro: sys_reach.intros durable_step_sys)

subsection \<open>Its invariant\<close>

definition seated :: "('w, 's, 'e, 'p) FinitomataSupervisor \<Rightarrow> (string \<Rightarrow> (Lifecycle \<times> 's \<times> 'p) option) \<Rightarrow>
    ('f, 'w, 's, 'e, 'p) hosted \<Rightarrow> bool" where
  "seated sv m h \<longleftrightarrow> child_of sv (h_actor h) \<and>
     (if h_started h \<or> \<not> fa_recover_on_start (h_actor h)
      then current (fa_state (h_actor h)) = resume_state (sup_graph sv) m (fa_name (h_actor h))
      else current (fa_state (h_actor h)) = initial (sup_graph sv) \<and> lifecycle (fa_state (h_actor h)) = Created)"

definition durable_inv :: "('w, 's, 'e, 'p) FinitomataSupervisor \<Rightarrow> ('w \<Rightarrow> string \<Rightarrow> (Lifecycle \<times> 's \<times> 'p) option) \<Rightarrow>
    ('f, 'm, 'w, 's, 'e, 'p, 'j) fsm_system \<Rightarrow> bool" where
  "durable_inv sv stored s \<longleftrightarrow>
     (\<forall>pid h. sy_live s pid = Some h \<longrightarrow> child_of sv (h_actor h)) \<and>
     (\<forall>pid h. sy_live s pid = Some h \<longrightarrow> fa_name (h_actor h) \<notin> sy_shared s \<longrightarrow> seated sv (entries_of stored s) h) \<and>
     (\<forall>pid h pid' h'. sy_live s pid = Some h \<longrightarrow> sy_live s pid' = Some h' \<longrightarrow>
        fa_name (h_actor h) = fa_name (h_actor h') \<longrightarrow> fa_name (h_actor h) \<notin> sy_shared s \<longrightarrow> pid = pid') \<and>
     (\<forall>nm. nm \<notin> sy_shared s \<longrightarrow> entry_moves (sup_graph sv) Map.empty (entries_of stored s) nm)"

lemma durable_invD:
  assumes "durable_inv sv stored s"
  shows "sy_live s pid = Some h \<Longrightarrow> child_of sv (h_actor h)"
    "sy_live s pid = Some h \<Longrightarrow> fa_name (h_actor h) \<notin> sy_shared s \<Longrightarrow> seated sv (entries_of stored s) h"
    "sy_live s pid = Some h \<Longrightarrow> sy_live s pid' = Some h' \<Longrightarrow> fa_name (h_actor h) = fa_name (h_actor h') \<Longrightarrow>
       fa_name (h_actor h) \<notin> sy_shared s \<Longrightarrow> pid = pid'"
    "nm \<notin> sy_shared s \<Longrightarrow> entry_moves (sup_graph sv) Map.empty (entries_of stored s) nm"
  using assms unfolding durable_inv_def by blast+

text \<open>What every step comes to: the invariant, and the entries of the names that are not shared have moved on.\<close>

definition durably :: "('w, 's, 'e, 'p) FinitomataSupervisor \<Rightarrow> ('w \<Rightarrow> string \<Rightarrow> (Lifecycle \<times> 's \<times> 'p) option) \<Rightarrow>
    ('f, 'm, 'w, 's, 'e, 'p, 'j) fsm_system \<Rightarrow> ('f, 'm, 'w, 's, 'e, 'p, 'j) fsm_system \<Rightarrow> bool" where
  "durably sv stored s s' \<longleftrightarrow> durable_inv sv stored s' \<and> sy_shared s \<subseteq> sy_shared s' \<and>
     (\<forall>nm. nm \<notin> sy_shared s' \<longrightarrow> entry_moves (sup_graph sv) (entries_of stored s) (entries_of stored s') nm)"

lemma entry_moves_refl [simp]: "entry_moves g m m nm"
  by (auto simp: entry_moves_def intro: exI [of _ "[]"])

lemma entry_moves_trans: "entry_moves g m m1 nm \<Longrightarrow> entry_moves g m1 m2 nm \<Longrightarrow> entry_moves g m m2 nm"
  unfolding entry_moves_def by (metis graph_path_append)

lemma entry_moves_same: "m' nm = m nm \<Longrightarrow> entry_moves g m m' nm"
  unfolding entry_moves_def by (intro exI [of _ "[]"]) (simp add: resume_state_def)

lemma seated_same: "m' (fa_name (h_actor h)) = m (fa_name (h_actor h)) \<Longrightarrow> seated sv m' h = seated sv m h"
  by (simp add: seated_def resume_state_def)

text \<open>A step changes at most one entry, and the actors of other names stay.\<close>

lemma durable_update:
  assumes inv: "durable_inv sv stored s"
    and other: "\<And>n. n \<noteq> nm \<Longrightarrow> stored (se_world env') n = entries_of stored s n"
    and moves: "nm \<notin> sy_shared s' \<Longrightarrow> entry_moves (sup_graph sv) (entries_of stored s) (stored (se_world env')) nm"
    and live: "\<And>pid h. live pid = Some h \<Longrightarrow> fa_name (h_actor h) \<noteq> nm \<Longrightarrow> sy_live s pid = Some h"
    and cfg: "\<And>pid h. live pid = Some h \<Longrightarrow> fa_name (h_actor h) = nm \<Longrightarrow> child_of sv (h_actor h)"
    and own: "\<And>pid h. live pid = Some h \<Longrightarrow> fa_name (h_actor h) = nm \<Longrightarrow> nm \<notin> sy_shared s' \<Longrightarrow>
      pid = own \<and> seated sv (stored (se_world env')) h"
    and s': "sy_env s' = env'" "sy_live s' = live" and sh: "sy_shared s \<subseteq> sy_shared s'"
  shows "durably sv stored s s'"
proof -
  have mv: "entry_moves (sup_graph sv) (entries_of stored s) (entries_of stored s') n" if "n \<notin> sy_shared s'" for n
    using moves entry_moves_same [of "stored (se_world env')" n "entries_of stored s"] other s' that
    by (cases "n = nm") auto
  have "child_of sv (h_actor h)" if "sy_live s' pid = Some h" for pid h
    using that live [of pid h] cfg [of pid h] durable_invD(1) [OF inv, of pid h] s' by auto
  moreover have "seated sv (entries_of stored s') h"
    if l: "sy_live s' pid = Some h" "fa_name (h_actor h) \<notin> sy_shared s'" for pid h
  proof (cases "fa_name (h_actor h) = nm")
    case True
    with own l s' show ?thesis by simp
  next
    case False
    with live l s' have "sy_live s pid = Some h" by simp
    from seated_same [of "entries_of stored s'" h "entries_of stored s"] other False s'
      durable_invD(2) [OF inv this] l(2) sh show ?thesis by auto
  qed
  moreover have "pid = pid'"
    if l: "sy_live s' pid = Some h" "sy_live s' pid' = Some h'" "fa_name (h_actor h) = fa_name (h_actor h')"
      "fa_name (h_actor h) \<notin> sy_shared s'" for pid h pid' h'
  proof (cases "fa_name (h_actor h) = nm")
    case True
    with own [of pid h] own [of pid' h'] l s' show ?thesis by simp
  next
    case False
    with live l s' have "sy_live s pid = Some h" "sy_live s pid' = Some h'" by auto
    with durable_invD(3) [OF inv] l(3,4) sh show ?thesis by blast
  qed
  moreover have "entry_moves (sup_graph sv) Map.empty (entries_of stored s') n" if "n \<notin> sy_shared s'" for n
    using entry_moves_trans [OF durable_invD(4) [OF inv] mv [OF that]] that sh by blast
  ultimately show ?thesis using mv sh unfolding durably_def durable_inv_def by blast
qed

text \<open>Work of the supervisor that leaves every name where it would resume.\<close>

lemma durable_respite:
  assumes inv: "durable_inv sv stored s"
    and same: "\<And>n. resume_state (sup_graph sv) (stored (se_world env')) n = resume_state (sup_graph sv) (entries_of stored s) n"
    and s': "s' = s\<lparr>sy_env := env'\<rparr>"
  shows "durably sv stored s s'"
proof -
  have "seated sv (entries_of stored s') h = seated sv (entries_of stored s) h" if "sy_live s pid = Some h" for pid h
    using same s' by (simp add: seated_def)
  moreover have "entry_moves (sup_graph sv) m (entries_of stored s') n = entry_moves (sup_graph sv) m (entries_of stored s) n" for m n
    using same s' by (simp add: entry_moves_def)
  ultimately show ?thesis using inv unfolding durably_def durable_inv_def s' by simp
qed

text \<open>A new actor: if its name was free it is the only one of it.\<close>

lemma durable_spawn:
  assumes inv: "durable_inv sv stored s" and same: "stored (se_world env') = entries_of stored s"
    and seat: "seated sv (entries_of stored s) \<lparr>h_actor = a, h_requests = [], h_started = False\<rparr>"
  shows "durably sv stored s ((note_name (fa_name a) s)\<lparr>sy_env := env',
    sy_live := (sy_live s)(pid \<mapsto> \<lparr>h_actor = a, h_requests = [], h_started = False\<rparr>)\<rparr>)" (is "durably sv stored s ?s'")
proof (rule durable_update [OF inv, where nm = "fa_name a" and own = pid])
  have sh: "n \<notin> sy_shared s" "n = fa_name a \<Longrightarrow> free_name (fa_name a) s" if "n \<notin> sy_shared ?s'" for n
    using that note_name_shared(1) [of n "fa_name a" s] note_name_shared(2) [of "fa_name a" s] by simp_all
  then show "sy_shared s \<subseteq> sy_shared ?s'" by blast
  show "pid' = pid \<and> seated sv (stored (se_world env')) h"
    if l: "((sy_live s)(pid \<mapsto> \<lparr>h_actor = a, h_requests = [], h_started = False\<rparr>)) pid' = Some h"
      "fa_name (h_actor h) = fa_name a" "fa_name a \<notin> sy_shared ?s'" for pid' h
    using l(1,2) sh(2) [OF l(3)] seat same by (auto simp: free_name_def split: if_splits)
  show "child_of sv (h_actor h)"
    if "((sy_live s)(pid \<mapsto> \<lparr>h_actor = a, h_requests = [], h_started = False\<rparr>)) pid' = Some h" for pid' h
    using that seat durable_invD(1) [OF inv, of pid' h] by (auto simp: seated_def split: if_splits)
qed (use same in \<open>auto split: if_splits\<close>)

text \<open>An actor that is gone.\<close>

lemma durable_removal:
  assumes inv: "durable_inv sv stored s" and h: "sy_live s pid = Some h"
    and other: "\<And>n. n \<noteq> fa_name (h_actor h) \<Longrightarrow> stored (se_world env') n = entries_of stored s n"
    and moves: "fa_name (h_actor h) \<notin> sy_shared s \<Longrightarrow>
      entry_moves (sup_graph sv) (entries_of stored s) (stored (se_world env')) (fa_name (h_actor h))"
    and s': "sy_env s' = env'" "sy_live s' = (sy_live s)(pid := None)" "sy_shared s' = sy_shared s"
  shows "durably sv stored s s'"
proof (rule durable_update [OF inv other _ _ _ _ s'(1,2), where own = pid])
  show "pid' = pid \<and> seated sv (stored (se_world env')) h'"
    if l: "((sy_live s)(pid := None)) pid' = Some h'" "fa_name (h_actor h') = fa_name (h_actor h)"
      "fa_name (h_actor h) \<notin> sy_shared s'" for pid' h'
  proof -
    from l(1) have "sy_live s pid' = Some h'" "pid' \<noteq> pid" by (simp_all split: if_splits)
    with durable_invD(3) [OF inv this(1) h l(2)] l(2,3) s'(3) show ?thesis by simp
  qed
qed (use moves s'(3) durable_invD(1) [OF inv] in \<open>auto split: if_splits\<close>)

subsection \<open>Every step keeps it\<close>

context durable
begin

lemma start_actor_entry:
  assumes run: "start_actor D F sv nm fsm p env = (actor, cache, w)"
  shows "stored w = stored (se_world env) \<and> child_of sv actor \<and> fa_name actor = nm \<and> \<not> fa_recover_on_start actor \<and>
    current (fa_state actor) = resume_state (sup_graph sv) (stored (se_world env)) nm"
proof -
  obtain res w1 where l: "load P nm (se_world env) = (res, w1)" by (meson surj_pair)
  note ld = loaded [OF l]
  from run show ?thesis
  proof (rule start_actor_result)
    fix s q lc w2
    assume e: "initial_entry sv nm p (se_world env) = ((s, q, lc), w2)"
      and st: "fa_state actor = (FsmState_new nm s (payload (fa_state actor)))\<lparr>lifecycle := Running\<rparr>"
      and cfg: "fa_graph actor = sup_graph sv" "fa_recover_on_start actor = False" "fa_name actor = nm"
        "fa_persistency actor = sup_persistency sv" "fa_listener actor = sup_listener sv"
    let ?st = "(FsmState_new nm s q)\<lparr>lifecycle := lc\<rparr>"
    obtain f2 st2 w3 where h1: "run_hook (on_start F) fsm ?st w2 = (f2, st2, w3)" using prod_cases3 by blast
    obtain f3 st3 w4 where h2: "run_hook (on_enter F (current st2)) f2 st2 w3 = (f3, st3, w4)"
      using prod_cases3 by blast
    from run e h1 h2 have "w = w4" by (simp add: start_actor_def Let_def)
    moreover have "w2 = w1" using e l ld backend by (auto simp: initial_entry_def split: option.splits)
    ultimately have "stored w = stored (se_world env)"
      using run_hook_keeps [OF callbacks_keepD(1) [OF callbacks] h1]
        run_hook_keeps [OF callbacks_keepD(2) [OF callbacks] h2] ld by simp
    moreover have "s = resume_state (sup_graph sv) (stored (se_world env)) nm"
      using e l ld backend by (auto simp: initial_entry_def resume_state_def split: option.splits)
    ultimately show ?thesis using cfg fresh_running_simps(1,2) [OF st] by (simp add: child_of_def)
  qed
qed

lemma ensure_stored_entry:
  "(\<forall>n. n \<noteq> nm \<longrightarrow> stored (ensure_stored sv nm p w) n = stored w n) \<and>
   resume_state (sup_graph sv) (stored (ensure_stored sv nm p w)) nm = resume_state (sup_graph sv) (stored w) nm"
proof -
  obtain res w1 where l: "load P nm w = (res, w1)" by (meson surj_pair)
  note ld = loaded [OF l]
  obtain res2 w2 where st: "store P nm (initial (sup_graph sv)) p w1 = (res2, w2)" by (meson surj_pair)
  show ?thesis
  proof (cases "stored w nm")
    case (Some entry)
    with l ld backend have "ensure_stored sv nm p w = w1" by (simp add: ensure_stored_def)
    with ld show ?thesis by simp
  next
    case None
    with l ld backend st have e: "ensure_stored sv nm p w = w2" by (simp add: ensure_stored_def)
    show ?thesis
    proof (cases res2)
      case (Inl err)
      with store_fails st ld e show ?thesis by simp
    next
      case (Inr u)
      with store_result [of nm _ p w1 w2] st obtain lc where
        "stored w2 = (stored w1)(nm \<mapsto> (lc, initial (sup_graph sv), p))" by auto
      with ld e None show ?thesis by (simp add: resume_state_def)
    qed
  qed
qed

text \<open>A handler of one actor.\<close>

lemma handler_durable:
  assumes inv: "durable_inv sv stored s" and h: "sy_live s pid = Some h"
    and c: "carries (sup_graph sv) (entries_of stored s) b (stored (en_world (snd r))) (fst r)"
    and b: "child_of sv b" "name (fa_state b) = fa_name (h_actor h)"
      "fa_name (h_actor h) \<notin> sy_shared s \<Longrightarrow>
        current (fa_state b) = resume_state (sup_graph sv) (entries_of stored s) (fa_name (h_actor h))"
  shows "durably sv stored s (after_handler s pid r)" (is "durably sv stored s ?s'")
proof (rule durable_update [OF inv, where nm = "fa_name (h_actor h)" and own = pid])
  let ?m' = "stored (en_world (snd r))"
  have w: "se_world (sy_env ?s') = en_world (snd r)" by (simp add: after_handler_def)
  show "stored (se_world (sy_env ?s')) n = entries_of stored s n" if "n \<noteq> fa_name (h_actor h)" for n
    using that c b(2) w by (simp add: carries_def)
  have r: "resume_state (sup_graph sv) ?m' (fa_name (h_actor h)) = current (fa_state (fst r))"
    if "fa_name (h_actor h) \<notin> sy_shared s" using c b(2) b(3) [OF that] by (simp add: carries_def)
  have "\<exists>p. graph_path (sup_graph sv) (current (fa_state b)) p (current (fa_state (fst r)))"
    using c by (simp add: carries_def)
  then show "entry_moves (sup_graph sv) (entries_of stored s) (stored (se_world (sy_env ?s'))) (fa_name (h_actor h))"
    if "fa_name (h_actor h) \<notin> sy_shared ?s'"
    using b(3) r that w by (simp add: entry_moves_def)
  have nm: "fa_name (fst r) = fa_name (h_actor h)" "child_of sv (fst r)"
    using child_of_carried [OF c b(1)] b(2) c by (auto simp: child_of_def carries_def)
  show "sy_live s pid' = Some h'" if "sy_live ?s' pid' = Some h'" "fa_name (h_actor h') \<noteq> fa_name (h_actor h)" for pid' h'
    using that nm by (cases "pid' = pid") auto
  show "child_of sv (h_actor h')" if "sy_live ?s' pid' = Some h'" "fa_name (h_actor h') = fa_name (h_actor h)" for pid' h'
    using that nm durable_invD(1) [OF inv, of pid' h'] by (cases "pid' = pid") auto
  show "pid' = pid \<and> seated sv (stored (se_world (sy_env ?s'))) h'"
    if l: "sy_live ?s' pid' = Some h'" "fa_name (h_actor h') = fa_name (h_actor h)" "fa_name (h_actor h) \<notin> sy_shared ?s'" for pid' h'
  proof (cases "pid' = pid")
    case True
    with l nm r w show ?thesis by (auto simp: seated_def)
  next
    case False
    with l have "sy_live s pid' = Some h'" by simp
    with durable_invD(3) [OF inv this h] l False show ?thesis by simp
  qed
qed (simp_all add: fun_eq_iff)

text \<open>A crash of one actor.\<close>

lemma crash_entry:
  assumes c: "crash_leaves stored F D pid h en w'" and a: "child_of sv (h_actor h)"
  shows "(\<forall>nm. nm \<noteq> fa_name (h_actor h) \<longrightarrow> stored w' nm = stored (en_world en) nm) \<and>
    (seated sv (stored (en_world en)) h \<longrightarrow>
     entry_moves (sup_graph sv) (stored (en_world en)) (stored w') (fa_name (h_actor h)))"
proof -
  have at: "current (fa_state (h_actor h)) = resume_state (sup_graph sv) (stored (en_world en)) (fa_name (h_actor h))"
    if "h_started h" "seated sv (stored (en_world en)) h" using that by (simp add: seated_def)
  from c show ?thesis
  proof cases
    case crash_idle
    then show ?thesis by simp
  next
    case (crash_in_transition ev ep)
    with transition_panics_entry [OF crash_in_transition(2) a] at [OF crash_in_transition(1)] show ?thesis
      by (auto simp: entry_moves_def)
  next
    case (crash_in_tick b ev ep f p w1)
    have w1: "stored w1 = stored (en_world en)" by (rule callbacks_keepD(7) [OF callbacks crash_in_tick(3)])
    have "child_of sv (b\<lparr>fa_fsm := f, fa_state := (fa_state b)\<lparr>payload := p\<rparr>\<rparr>)"
      using a crash_in_tick(2) by (simp add: child_of_def)
    from transition_panics_entry [OF crash_in_tick(4) this] at [OF crash_in_tick(1)] crash_in_tick(2) w1
    show ?thesis by (auto simp: entry_moves_def)
  next
    case (crash_in_boot b en1 evt)
    note e = started_recover_entry [OF crash_in_boot(2) a]
    have "current (fa_state b) = resume_state (sup_graph sv) (stored (en_world en)) (fa_name (h_actor h))"
      if "seated sv (stored (en_world en)) h"
      using e that crash_in_boot(1) by (auto simp: seated_def resume_state_def split: option.splits if_splits)
    moreover have "fa_name b = fa_name (h_actor h)" using e by (simp add: same_config_def)
    moreover have "en_world (case fa_timer_interval b of None \<Rightarrow> en1
        | Some interval \<Rightarrow> env_request (ReqSendTick pid interval) en1) = en_world en1" by (simp split: option.split)
    ultimately show ?thesis
      using transition_panics_entry [OF crash_in_boot(4)] e by (auto simp: entry_moves_def)
  qed
qed

lemma durable_step_keeps:
  assumes "durable_step J D F sv stored s s'" "durable_inv sv stored s"
  shows "durably sv stored s s'"
  using assms
proof (induction rule: durable_step.induct)
  case (dur_start nm fsm p s actor cache w pid j1 res env')
  note a = start_actor_entry [OF dur_start.hyps(1)]
  have w: "se_world env' = w" using dur_start.hyps(1-3) by (auto simp: start_fsm_def split: prod.splits)
  have st: "stored (se_world env') = entries_of stored s" using a w by simp
  have seat: "seated sv (entries_of stored s) \<lparr>h_actor = actor, h_requests = [], h_started = False\<rparr>"
    unfolding seated_def using a by simp
  show ?case using durable_spawn [OF dur_start.prems st seat] a by simp
next
  case (dur_spawn dflt nm fsm p strategy intensity s res env')
  then have w: "se_world env' = ensure_stored sv nm p (se_world (sy_env s))"
    by (auto simp: spawn_supervised_with_intensity_def split: prod.splits)
  show ?case proof (rule durable_respite [OF dur_spawn.prems])
    show "resume_state (sup_graph sv) (stored (se_world env')) n = resume_state (sup_graph sv) (entries_of stored s) n" for n
      using ensure_stored_entry [of nm p "se_world (sy_env s)"] w by (cases "n = nm") (simp_all add: resume_state_def)
  qed simp
next
  case (dur_child s pid nm dflt p)
  let ?a = "supervised_child sv nm dflt p"
  have nm: "fa_name ?a = nm" by (simp add: supervised_child_def)
  have "seated sv (entries_of stored s) \<lparr>h_actor = ?a, h_requests = [], h_started = False\<rparr>"
    by (simp_all add: seated_def supervised_child_def child_of_def FsmState_new_def)
  from durable_spawn [OF dur_child.prems refl this, of pid] nm show ?case by simp
next
  case (dur_outside env' s)
  then show ?case by (simp add: durable_inv_def durably_def)
next
  case (dur_boot s pid h r)
  obtain a' en' where r: "r = (a', en')" by fastforce
  note a = durable_invD(1) [OF dur_boot.prems dur_boot.hyps(1)]
  have run: "started F D pid (h_actor h) (hosted_env s h) = Some (a', en')" using dur_boot.hyps(3) r by simp
  have w: "en_world (hosted_env s h) = se_world (sy_env s)" by (simp add: hosted_env_def)
  have at: "current (fa_state (h_actor h)) = (if fa_recover_on_start (h_actor h) then initial (sup_graph sv)
        else resume_state (sup_graph sv) (entries_of stored s) (fa_name (h_actor h)))"
    if "fa_name (h_actor h) \<notin> sy_shared s"
    using durable_invD(2) [OF dur_boot.prems dur_boot.hyps(1) that] dur_boot.hyps(2) by (auto simp: seated_def)
  obtain b where b: "same_config (h_actor h) b" "name (fa_state b) = fa_name (h_actor h)"
    "fa_name (h_actor h) \<notin> sy_shared s \<longrightarrow>
       current (fa_state b) = resume_state (sup_graph sv) (entries_of stored s) (fa_name (h_actor h))"
    "carries (sup_graph sv) (entries_of stored s) b (stored (en_world en')) a'"
    using started_entry [OF run a] at unfolding w by metis
  then have "child_of sv b" using a by (simp add: child_of_def same_config_def)
  from handler_durable [OF dur_boot.prems dur_boot.hyps(1) _ this b(2)] b(3,4) r show ?case by simp
next
  case (dur_message s pid h msg r)
  obtain a' en' where r: "r = (a', en')" by fastforce
  note a = durable_invD(1) [OF dur_message.prems dur_message.hyps(1)]
  have at: "current (fa_state (h_actor h)) = resume_state (sup_graph sv) (entries_of stored s) (fa_name (h_actor h))"
    if "fa_name (h_actor h) \<notin> sy_shared s"
    using durable_invD(2) [OF dur_message.prems dur_message.hyps(1) that] dur_message.hyps(2) by (simp add: seated_def)
  have w: "en_world (hosted_env s h) = se_world (sy_env s)" by (simp add: hosted_env_def)
  have "handle_message F D pid msg (h_actor h) (hosted_env s h) = Some (a', en')" using dur_message.hyps(4) r by simp
  from handle_message_carries [OF this a] r
  have "carries (sup_graph sv) (entries_of stored s) (h_actor h) (stored (en_world (snd r))) (fst r)" by (simp add: w)
  from handler_durable [OF dur_message.prems dur_message.hyps(1) this a _ at] a
  show ?case by (simp add: child_of_def)
next
  case (dur_stop s pid h r)
  obtain a' en' where r: "r = (a', en')" by fastforce
  then have st: "stopped F D (h_actor h) (hosted_env s h) = (a', en')" using dur_stop.hyps(2) by simp
  have w: "stored (en_world en') = entries_of stored s" using stopped_keeps [OF st] by (simp add: hosted_env_def)
  show ?case by (rule durable_removal [OF dur_stop.prems dur_stop.hyps(1)]) (use w r in \<open>simp_all add: after_handler_def\<close>)
next
  case (dur_crash s pid h c w)
  have en: "stored (en_world (hosted_env s h)) = entries_of stored s" by (simp add: hosted_env_def)
  from crash_entry [OF dur_crash.hyps(3) durable_invD(1) [OF dur_crash.prems dur_crash.hyps(1)]]
    durable_invD(2) [OF dur_crash.prems dur_crash.hyps(1)]
  have "(\<forall>nm. nm \<noteq> fa_name (h_actor h) \<longrightarrow> stored w nm = entries_of stored s nm) \<and>
    (fa_name (h_actor h) \<notin> sy_shared s \<longrightarrow>
     entry_moves (sup_graph sv) (entries_of stored s) (stored w) (fa_name (h_actor h)))" unfolding en by blast
  then show ?case by (intro durable_removal [OF dur_crash.prems dur_crash.hyps(1)]) simp_all
qed

lemma durable_reach_inv: "durable_reach J D F sv stored s \<Longrightarrow> durable_inv sv stored s"
proof (induction rule: durable_reach.induct)
  case (durable_new w j)
  then show ?case by (simp add: durable_inv_def system_new_def sup_env_new_def)
next
  case (durable_next s s')
  then show ?case using durable_step_keeps unfolding durably_def by blast
qed

text \<open>Over many steps.\<close>

lemma durable_steps_keep:
  "rtranclp (durable_step J D F sv stored) s s' \<Longrightarrow> durable_inv sv stored s \<Longrightarrow> durably sv stored s s'"
proof (induction rule: rtranclp_induct)
  case base
  then show ?case by (simp add: durably_def)
next
  case (step s1 s2)
  with durable_step_keeps [OF step.hyps(2)] show ?case
    unfolding durably_def by (blast intro: entry_moves_trans)
qed

text \<open>
  A child that is started: in a state without a hard event it stays there, otherwise it moves on and
  the backend with it.
\<close>

lemma child_comes_up_quietly:
  assumes "hard_event (sup_graph sv) (resume_state (sup_graph sv) (stored (en_world en)) nm) = None"
  shows "\<exists>a' en'. started F D pid (supervised_child sv nm dflt p) en = Some (a', en') \<and>
    current (fa_state a') = resume_state (sup_graph sv) (stored (en_world en)) nm \<and> stored (en_world en') = stored (en_world en)"
proof -
  let ?a = "supervised_child sv nm dflt p"
  have a: "child_of sv ?a" "fa_recover_on_start ?a" "fa_name ?a = nm" "current (fa_state ?a) = initial (sup_graph sv)"
    by (simp_all add: child_of_def supervised_child_def FsmState_new_def)
  obtain b en1 where sr: "started_recover F D pid ?a en = (b, en1)" by fastforce
  let ?en = "case fa_timer_interval b of None \<Rightarrow> en1 | Some interval \<Rightarrow> env_request (ReqSendTick pid interval) en1"
  note e = started_recover_entry [OF sr a(1)]
  have cur: "current (fa_state b) = resume_state (sup_graph sv) (stored (en_world en)) nm"
    using e a by (simp add: resume_state_def split: option.splits)
  have "fa_graph b = sup_graph sv" using e by (simp add: child_of_def)
  with sr cur assms have "started F D pid ?a en = Some (b, ?en)" by (simp add: started_def)
  moreover have "stored (en_world ?en) = stored (en_world en)" using e by (simp split: option.split)
  ultimately show ?thesis using cur by blast
qed

lemma child_moves_on:
  assumes run: "started F D pid (supervised_child sv nm dflt p) en = Some (a', en')"
  shows "(\<exists>path. graph_path (sup_graph sv) (resume_state (sup_graph sv) (stored (en_world en)) nm) path (current (fa_state a'))) \<and>
    current (fa_state a') = resume_state (sup_graph sv) (stored (en_world en')) nm"
proof -
  let ?a = "supervised_child sv nm dflt p"
  have a: "child_of sv ?a" "fa_recover_on_start ?a" "fa_name ?a = nm" "current (fa_state ?a) = initial (sup_graph sv)"
    by (simp_all add: child_of_def supervised_child_def FsmState_new_def)
  then obtain b where b: "name (fa_state b) = nm" "current (fa_state b) = resume_state (sup_graph sv) (stored (en_world en)) nm"
    "carries (sup_graph sv) (stored (en_world en)) b (stored (en_world en')) a'"
    using started_entry [OF run a(1)] by auto
  then show ?thesis by (auto simp: carries_def)
qed

end

end
