(* ===== verification/Fsm_Network.thy ===== *)
theory Fsm_Network
  imports Fsm_System
begin

section \<open>Names, mailboxes and timers\<close>

text \<open>
  The system of \<open>Fsm_System\<close> with the ways a message takes in \<open>supervisor.rs\<close>: \<open>transition\<close> and
  \<open>shutdown\<close> resolve a name to a pid and \<open>joerl\<close> puts the message into the mailbox of that actor,
  from where the actor takes one message after another; a tick that a handler has asked for is put
  there later. The registrations that \<open>started\<close> asks for are performed when it runs. A letter
  records the name it was sent to, which no step reads.
\<close>

datatype ('e, 'p) letter =
    Sent (addressee: string) (content: "('e, 'p) Message")
  | Tick

definition letter_message :: "('e, 'p) letter \<Rightarrow> ('e, 'p) Message" where
  "letter_message l = (case l of Sent nm msg \<Rightarrow> msg | Tick \<Rightarrow> TimerTickMsg)"

record ('f, 'm, 'w, 's, 'e, 'p, 'j) network =
  nt_sys :: "('f, 'm, 'w, 's, 'e, 'p, 'j) fsm_system"
  nt_boxes :: "Pid \<Rightarrow> ('e, 'p) letter list"
  nt_ticks :: "Pid \<Rightarrow> nat" \<comment> \<open>how many of the ticks an actor asked for have been put into its mailbox\<close>

abbreviation nt_env :: "('f, 'm, 'w, 's, 'e, 'p, 'j) network \<Rightarrow> ('m, 'w, 'j) sup_env" where
  "nt_env n \<equiv> sy_env (nt_sys n)"

abbreviation nt_live :: "('f, 'm, 'w, 's, 'e, 'p, 'j) network \<Rightarrow> Pid \<rightharpoonup> ('f, 'w, 's, 'e, 'p) hosted" where
  "nt_live n \<equiv> sy_live (nt_sys n)"

definition network_new :: "('m, 's, 'p) cache_map \<Rightarrow> 'w \<Rightarrow> 'j \<Rightarrow> ('f, 'm, 'w, 's, 'e, 'p, 'j) network" where
  "network_new D w j = \<lparr>nt_sys = system_new D w j, nt_boxes = (\<lambda>pid. []), nt_ticks = (\<lambda>pid. 0)\<rparr>"

definition host :: "Pid \<Rightarrow> ('f, 'w, 's, 'e, 'p) FsmActor \<Rightarrow> ('m, 'w, 'j) sup_env \<Rightarrow>
    ('f, 'm, 'w, 's, 'e, 'p, 'j) network \<Rightarrow> ('f, 'm, 'w, 's, 'e, 'p, 'j) network" where
  "host pid a env n = n\<lparr>nt_sys := (nt_sys n)\<lparr>sy_env := env,
     sy_live := (nt_live n)(pid \<mapsto> \<lparr>h_actor = a, h_requests = [], h_started = False\<rparr>)\<rparr>\<rparr>"

subsection \<open>The operations\<close>

definition net_start ::
    "('j, ('f, 'w, 's, 'e, 'p) FsmActor, ('e, 'p) Message, 'spec) Joerl \<Rightarrow> ('m, 's, 'p) cache_map \<Rightarrow>
     ('f, 'w, 's, 'e, 'p) Finitomata \<Rightarrow> ('w, 's, 'e, 'p) FinitomataSupervisor \<Rightarrow> string \<Rightarrow> 'f \<Rightarrow> 'p \<Rightarrow>
     ('f, 'm, 'w, 's, 'e, 'p, 'j) network \<Rightarrow> ('f, 'm, 'w, 's, 'e, 'p, 'j) network" where
  "net_start J D F sv nm fsm p n =
     (let (actor, cache, w) = start_actor D F sv nm fsm p (nt_env n);
          (pid, j) = j_spawn J (sup_system sv) actor (se_system (nt_env n));
          (res, env) = start_fsm J D F sv nm fsm p (nt_env n)
      in host pid actor env n)"

text \<open>A supervisor of \<open>joerl\<close> starts its child: it calls the factory and spawns the actor.\<close>

definition net_child ::
    "('j, ('f, 'w, 's, 'e, 'p) FsmActor, ('e, 'p) Message, 'spec) Joerl \<Rightarrow>
     ('w, 's, 'e, 'p) FinitomataSupervisor \<Rightarrow> string \<Rightarrow> 'f \<Rightarrow> 'p \<Rightarrow>
     ('f, 'm, 'w, 's, 'e, 'p, 'j) network \<Rightarrow> ('f, 'm, 'w, 's, 'e, 'p, 'j) network" where
  "net_child J sv nm dflt p n =
     (let a = supervised_child sv nm dflt p;
          (pid, j) = j_spawn J (sup_system sv) a (se_system (nt_env n))
      in host pid a ((nt_env n)\<lparr>se_system := j\<rparr>) n)"

definition net_send ::
    "('j, 'a, ('e, 'p) Message, 'spec) Joerl \<Rightarrow> ('w, 's, 'e, 'p) FinitomataSupervisor \<Rightarrow> string \<Rightarrow> ('e, 'p) Message \<Rightarrow>
     ('f, 'm, 'w, 's, 'e, 'p, 'j) network \<Rightarrow> (FinitomataError + unit) \<times> ('f, 'm, 'w, 's, 'e, 'p, 'j) network" where
  "net_send J sv nm msg n =
     (case send_to J sv nm msg (nt_env n) of
        (res, env) \<Rightarrow>
          (res, n\<lparr>nt_sys := (nt_sys n)\<lparr>sy_env := env\<rparr>,
             nt_boxes := (case (res, resolve_pid J sv nm (nt_env n)) of
                 (Inr u, Inr pid) \<Rightarrow> (nt_boxes n)(pid := nt_boxes n pid @ [Sent nm msg])
               | _ \<Rightarrow> nt_boxes n)\<rparr>))"

definition net_transition ::
    "('j, 'a, ('e, 'p) Message, 'spec) Joerl \<Rightarrow> ('w, 's, 'e, 'p) FinitomataSupervisor \<Rightarrow> string \<Rightarrow> 'e \<Rightarrow> 'p \<Rightarrow>
     ('f, 'm, 'w, 's, 'e, 'p, 'j) network \<Rightarrow> (FinitomataError + unit) \<times> ('f, 'm, 'w, 's, 'e, 'p, 'j) network" where
  "net_transition J sv nm ev ep n = net_send J sv nm (TransitionMsg ev ep) n"

definition net_shutdown ::
    "('j, 'a, ('e, 'p) Message, 'spec) Joerl \<Rightarrow> ('w, 's, 'e, 'p) FinitomataSupervisor \<Rightarrow> string \<Rightarrow>
     ('f, 'm, 'w, 's, 'e, 'p, 'j) network \<Rightarrow> (FinitomataError + unit) \<times> ('f, 'm, 'w, 's, 'e, 'p, 'j) network" where
  "net_shutdown J sv nm n = net_send J sv nm ShutdownMsg n"

text \<open>The registrations a handler has asked for, in the order it asked.\<close>

fun perform :: "('j, 'a, 'msg, 'spec) Joerl \<Rightarrow> request list \<Rightarrow> 'j \<Rightarrow> 'j" where
  "perform J [] j = j"
| "perform J (ReqUnregister sys nm # qs) j = perform J qs (snd (j_unregister J sys nm j))"
| "perform J (ReqRegister sys nm pid # qs) j = perform J qs (snd (j_register J sys nm pid j))"
| "perform J (q # qs) j = perform J qs j"

definition with_sys :: "('f, 'm, 'w, 's, 'e, 'p, 'j) fsm_system \<Rightarrow> ('f, 'm, 'w, 's, 'e, 'p, 'j) network \<Rightarrow>
    ('f, 'm, 'w, 's, 'e, 'p, 'j) network" where
  "with_sys s n = n\<lparr>nt_sys := s\<rparr>"

definition net_boot ::
    "('j, ('f, 'w, 's, 'e, 'p) FsmActor, ('e, 'p) Message, 'spec) Joerl \<Rightarrow> ('m, 's, 'p) cache_map \<Rightarrow>
     ('f, 'w, 's, 'e, 'p) Finitomata \<Rightarrow> Pid \<Rightarrow>
     ('f, 'm, 'w, 's, 'e, 'p, 'j) network \<Rightarrow> ('f, 'm, 'w, 's, 'e, 'p, 'j) network option" where
  "net_boot J D F pid n =
     (case nt_live n pid of
        None \<Rightarrow> None
      | Some h \<Rightarrow>
          if h_started h then None
          else map_option (\<lambda>r. let s = after_handler (nt_sys n) pid r
               in with_sys (s\<lparr>sy_env := (sy_env s)\<lparr>se_system :=
                    perform J (en_requests (snd r)) (se_system (sy_env s))\<rparr>\<rparr>) n)
             (started F D pid (h_actor h) (hosted_env (nt_sys n) h)))"

definition net_handle ::
    "('m, 's, 'p) cache_map \<Rightarrow> ('f, 'w, 's, 'e, 'p) Finitomata \<Rightarrow> Pid \<Rightarrow>
     ('f, 'm, 'w, 's, 'e, 'p, 'j) network \<Rightarrow> ('f, 'm, 'w, 's, 'e, 'p, 'j) network option" where
  "net_handle D F pid n =
     (case (nt_live n pid, nt_boxes n pid) of
        (Some h, l # ls) \<Rightarrow>
          if \<not> h_started h \<or> ReqStopNormal \<in> set (h_requests h) then None
          else map_option (\<lambda>r. (with_sys (after_handler (nt_sys n) pid r) n)\<lparr>nt_boxes := (nt_boxes n)(pid := ls)\<rparr>)
             (handle_message F D pid (letter_message l) (h_actor h) (hosted_env (nt_sys n) h))
      | _ \<Rightarrow> None)"

fun asked_ticks :: "request list \<Rightarrow> nat" where
  "asked_ticks [] = 0"
| "asked_ticks (ReqSendTick pid i # qs) = Suc (asked_ticks qs)"
| "asked_ticks (q # qs) = asked_ticks qs"

definition net_tick :: "Pid \<Rightarrow> ('f, 'm, 'w, 's, 'e, 'p, 'j) network \<Rightarrow> ('f, 'm, 'w, 's, 'e, 'p, 'j) network option" where
  "net_tick pid n =
     (case nt_live n pid of
        None \<Rightarrow> None
      | Some h \<Rightarrow>
          if nt_ticks n pid < asked_ticks (h_requests h) then
            Some (n\<lparr>nt_boxes := (nt_boxes n)(pid := nt_boxes n pid @ [Tick]), nt_ticks := (nt_ticks n)(pid := Suc (nt_ticks n pid))\<rparr>)
          else None)"

definition net_stop ::
    "('m, 's, 'p) cache_map \<Rightarrow> ('f, 'w, 's, 'e, 'p) Finitomata \<Rightarrow> Pid \<Rightarrow>
     ('f, 'm, 'w, 's, 'e, 'p, 'j) network \<Rightarrow> ('f, 'm, 'w, 's, 'e, 'p, 'j) network option" where
  "net_stop D F pid n =
     (case nt_live n pid of
        None \<Rightarrow> None
      | Some h \<Rightarrow>
          Some ((with_sys ((after_handler (nt_sys n) pid (stopped F D (h_actor h) (hosted_env (nt_sys n) h)))
             \<lparr>sy_live := (nt_live n)(pid := None)\<rparr>) n)\<lparr>nt_boxes := (nt_boxes n)(pid := [])\<rparr>))"

text \<open>What it takes for each of the actor's steps to happen, and what it leaves.\<close>

lemma net_bootE:
  assumes "net_boot J D F pid n = Some n'"
  obtains h a' en' s where "nt_live n pid = Some h" "\<not> h_started h"
    "started F D pid (h_actor h) (hosted_env (nt_sys n) h) = Some (a', en')"
    "s = after_handler (nt_sys n) pid (a', en')"
    "n' = with_sys (s\<lparr>sy_env := (sy_env s)\<lparr>se_system := perform J (en_requests en') (se_system (sy_env s))\<rparr>\<rparr>) n"
  using assms by (auto simp: net_boot_def Let_def split: option.splits if_splits)

lemma net_handleE:
  assumes "net_handle D F pid n = Some n'"
  obtains h l ls a' en' where "nt_live n pid = Some h" "nt_boxes n pid = l # ls" "h_started h"
    "ReqStopNormal \<notin> set (h_requests h)"
    "handle_message F D pid (letter_message l) (h_actor h) (hosted_env (nt_sys n) h) = Some (a', en')"
    "n' = (with_sys (after_handler (nt_sys n) pid (a', en')) n)\<lparr>nt_boxes := (nt_boxes n)(pid := ls)\<rparr>"
  using assms by (auto simp: net_handle_def split: option.splits list.splits if_splits)

lemma net_tickE:
  assumes "net_tick pid n = Some n'"
  obtains h where "nt_live n pid = Some h" "nt_ticks n pid < asked_ticks (h_requests h)" "nt_sys n' = nt_sys n"
    "nt_boxes n' = (nt_boxes n)(pid := nt_boxes n pid @ [Tick])" "nt_ticks n' = (nt_ticks n)(pid := Suc (nt_ticks n pid))"
  using assms by (auto simp: net_tick_def split: option.splits if_splits)

lemma net_stopE:
  assumes "net_stop D F pid n = Some n'"
  obtains h a' en' where "nt_live n pid = Some h"
    "stopped F D (h_actor h) (hosted_env (nt_sys n) h) = (a', en')"
    "n' = (with_sys ((after_handler (nt_sys n) pid (a', en'))\<lparr>sy_live := (nt_live n)(pid := None)\<rparr>) n)
             \<lparr>nt_boxes := (nt_boxes n)(pid := [])\<rparr>"
proof -
  from assms obtain h where h: "nt_live n pid = Some h" by (auto simp: net_stop_def split: option.splits)
  obtain a' en' where "stopped F D (h_actor h) (hosted_env (nt_sys n) h) = (a', en')" by fastforce
  with assms h that show thesis by (auto simp: net_stop_def)
qed

subsection \<open>Steps\<close>

text \<open>
  Outside of these operations anything may happen that leaves the cache and the supervisor's table
  alone and gives no name to an actor: registrations may be dropped, pids may be taken. \<open>used\<close> are
  the pids that have been given out. A start under any name is a step; that the name was taken is
  noted in \<open>sy_shared\<close>.
\<close>

definition noted :: "string \<Rightarrow> ('f, 'm, 'w, 's, 'e, 'p, 'j) network \<Rightarrow> ('f, 'm, 'w, 's, 'e, 'p, 'j) network" where
  "noted nm n = with_sys (note_name nm (nt_sys n)) n"

lemma noted_simps [simp]:
  "nt_sys (noted nm n) = note_name nm (nt_sys n)" "nt_boxes (noted nm n) = nt_boxes n" "nt_ticks (noted nm n) = nt_ticks n"
  "free_name nm (nt_sys n) \<Longrightarrow> noted nm n = n"
  by (simp_all add: noted_def with_sys_def)

inductive net_step ::
    "('j, ('f, 'w, 's, 'e, 'p) FsmActor, ('e, 'p) Message,
       ('strat, 'int, ('f, 'w, 's, 'e, 'p) FsmActor) ChildTree) Joerl \<Rightarrow> ('j \<Rightarrow> Pid set) \<Rightarrow> ('m, 's, 'p) cache_map \<Rightarrow>
     ('f, 'w, 's, 'e, 'p) Finitomata \<Rightarrow> ('w, 's, 'e, 'p) FinitomataSupervisor \<Rightarrow>
     ('f, 'm, 'w, 's, 'e, 'p, 'j) network \<Rightarrow> ('f, 'm, 'w, 's, 'e, 'p, 'j) network \<Rightarrow> bool"
  for J used D F sv where
  nt_start: "net_step J used D F sv n (net_start J D F sv nm fsm p (noted nm n))"
| nt_spawn: "spawn_supervised_with_intensity J dflt sv nm fsm p strategy intensity (nt_env n) = (res, env) \<Longrightarrow>
     net_step J used D F sv n (with_sys ((nt_sys n)\<lparr>sy_env := env\<rparr>) n)"
| nt_child: "net_step J used D F sv n (net_child J sv nm dflt p (noted nm n))"
| nt_transition: "net_transition J sv nm ev ep n = (res, n') \<Longrightarrow> net_step J used D F sv n n'"
| nt_shutdown: "net_shutdown J sv nm n = (res, n') \<Longrightarrow> net_step J used D F sv n n'"
| nt_outside: "se_cache env = se_cache (nt_env n) \<Longrightarrow> se_actors env = se_actors (nt_env n) \<Longrightarrow>
     \<forall>nm. j_whereis J (sup_system sv) nm (se_system env) \<in> {None, j_whereis J (sup_system sv) nm (se_system (nt_env n))} \<Longrightarrow>
     used (se_system (nt_env n)) \<subseteq> used (se_system env) \<Longrightarrow>
     net_step J used D F sv n (with_sys ((nt_sys n)\<lparr>sy_env := env\<rparr>) n)"
| nt_boot: "net_boot J D F pid n = Some n' \<Longrightarrow> net_step J used D F sv n n'"
| nt_handle: "net_handle D F pid n = Some n' \<Longrightarrow> net_step J used D F sv n n'"
| nt_tick: "net_tick pid n = Some n' \<Longrightarrow> net_step J used D F sv n n'"
| nt_stop: "net_stop D F pid n = Some n' \<Longrightarrow> net_step J used D F sv n n'"
| nt_crash: "nt_live n pid = Some h \<Longrightarrow>
     \<forall>nm. nm \<noteq> fa_name (h_actor h) \<longrightarrow> StateCache_get D (se_cache env) nm = StateCache_get D (se_cache (nt_env n)) nm \<Longrightarrow>
     se_actors env = se_actors (nt_env n) \<Longrightarrow>
     \<forall>nm. j_whereis J (sup_system sv) nm (se_system env) \<in> {None, j_whereis J (sup_system sv) nm (se_system (nt_env n))} \<or>
       nm = fa_name (h_actor h) \<and> j_whereis J (sup_system sv) nm (se_system env) = Some pid \<Longrightarrow>
     used (se_system (nt_env n)) \<subseteq> used (se_system env) \<Longrightarrow>
     net_step J used D F sv n ((with_sys ((nt_sys n)\<lparr>sy_env := env, sy_live := (nt_live n)(pid := None),
         sy_lost := insert (fa_name (h_actor h)) (sy_lost (nt_sys n))\<rparr>) n)\<lparr>nt_boxes := (nt_boxes n)(pid := [])\<rparr>)"

inductive net_reach ::
    "('j, ('f, 'w, 's, 'e, 'p) FsmActor, ('e, 'p) Message,
       ('strat, 'int, ('f, 'w, 's, 'e, 'p) FsmActor) ChildTree) Joerl \<Rightarrow> ('j \<Rightarrow> Pid set) \<Rightarrow> ('m, 's, 'p) cache_map \<Rightarrow>
     ('f, 'w, 's, 'e, 'p) Finitomata \<Rightarrow> ('w, 's, 'e, 'p) FinitomataSupervisor \<Rightarrow>
     ('f, 'm, 'w, 's, 'e, 'p, 'j) network \<Rightarrow> bool"
  for J used D F sv where
  net_new: "\<forall>nm pid. j_whereis J (sup_system sv) nm j = Some pid \<longrightarrow> pid \<in> used j \<Longrightarrow>
     net_reach J used D F sv (network_new D w j)"
| net_next: "net_reach J used D F sv n \<Longrightarrow> net_step J used D F sv n n' \<Longrightarrow> net_reach J used D F sv n'"

subsection \<open>The supply of pids\<close>

text \<open>
  What \<open>joerl\<close> promises of pids, besides the laws of the registry: a new one has not been given
  out before, and sending, registering and unregistering give out none.
\<close>

locale pid_supply = actor_registry J
  for J :: "('j, 'a, 'msg, 'spec) Joerl" +
  fixes used :: "'j \<Rightarrow> Pid set"
  assumes spawn_fresh: "j_spawn J sys a j = (pid, j') \<Longrightarrow> pid \<notin> used j \<and> used j' = insert pid (used j)"
    and pid_new_fresh: "j_pid_new J j = (pid, j') \<Longrightarrow> pid \<notin> used j \<and> used j' = insert pid (used j)"
    and pid_new_keeps: "j_whereis J sys nm (snd (j_pid_new J j)) = j_whereis J sys nm j"
    and tree_used: "used j \<subseteq> used (j_spawn_supervisor J sys spec j)"
    and tree_keeps: "j_whereis J sys' nm (j_spawn_supervisor J sys spec j) = j_whereis J sys' nm j"
    and send_used: "used (snd (j_send J sys pid msg j)) = used j"
    and send_keeps: "j_whereis J sys' nm (snd (j_send J sys pid msg j)) = j_whereis J sys' nm j"
    and register_used: "used (snd (j_register J sys nm pid j)) = used j"
    and unregister_used: "used (snd (j_unregister J sys nm j)) = used j"

definition test_used :: "'msg test_system \<Rightarrow> Pid set" where
  "test_used = (\<lambda>(reg, n, live, log). {..<n})"

interpretation test_pids: pid_supply test_joerl test_used
  by unfold_locales (auto simp: test_joerl_def test_used_def split: prod.splits if_splits)

subsection \<open>Names lead to their actors\<close>

text \<open>
  The pid of a live actor was given out, and an actor that is not up has asked for nothing; the pid a name leads to, through the registry or the table of the
  supervisor, is not that of a live actor of another name; and the letters in the mailbox of a live
  actor were sent to its name.
\<close>

definition leads :: "('j, 'a, 'msg, 'spec) Joerl \<Rightarrow> ('w, 's, 'e, 'p) FinitomataSupervisor \<Rightarrow> ('m, 'w, 'j) sup_env \<Rightarrow>
    string \<Rightarrow> Pid \<Rightarrow> bool" where
  "leads J sv env nm pid \<longleftrightarrow> j_whereis J (sup_system sv) nm (se_system env) = Some pid \<or> se_actors env nm = Some pid"

definition letter_ok :: "string \<Rightarrow> ('e, 'p) letter \<Rightarrow> bool" where
  "letter_ok nm l = (case l of Sent addr msg \<Rightarrow> addr = nm \<and> msg \<noteq> TimerTickMsg | Tick \<Rightarrow> True)"

definition names_inv :: "('j, 'a, 'msg, 'spec) Joerl \<Rightarrow> ('j \<Rightarrow> Pid set) \<Rightarrow> ('w, 's, 'e, 'p) FinitomataSupervisor \<Rightarrow>
    ('f, 'm, 'w, 's, 'e, 'p, 'j) network \<Rightarrow> bool" where
  "names_inv J used sv n \<longleftrightarrow>
     (\<forall>pid h. nt_live n pid = Some h \<longrightarrow> pid \<in> used (se_system (nt_env n)) \<and> (\<not> h_started h \<longrightarrow> h_requests h = [])) \<and>
     (\<forall>nm pid. leads J sv (nt_env n) nm pid \<longrightarrow> pid \<in> used (se_system (nt_env n)) \<and>
        (\<forall>h. nt_live n pid = Some h \<longrightarrow> fa_name (h_actor h) = nm)) \<and>
     (\<forall>pid l. l \<in> set (nt_boxes n pid) \<longrightarrow> pid \<in> used (se_system (nt_env n)) \<and>
        (\<forall>h. nt_live n pid = Some h \<longrightarrow> letter_ok (fa_name (h_actor h)) l))"

lemma names_inv_noted [simp]: "names_inv J used sv (noted nm n) = names_inv J used sv n"
  by (simp add: names_inv_def)

lemma names_invD:
  assumes "names_inv J used sv n"
  shows "nt_live n pid = Some h \<Longrightarrow> pid \<in> used (se_system (nt_env n))"
    "leads J sv (nt_env n) nm pid \<Longrightarrow> pid \<in> used (se_system (nt_env n))"
    "leads J sv (nt_env n) nm pid \<Longrightarrow> nt_live n pid = Some h \<Longrightarrow> fa_name (h_actor h) = nm"
    "l \<in> set (nt_boxes n pid) \<Longrightarrow> pid \<in> used (se_system (nt_env n))"
    "l \<in> set (nt_boxes n pid) \<Longrightarrow> nt_live n pid = Some h \<Longrightarrow> letter_ok (fa_name (h_actor h)) l"
    "nt_live n pid = Some h \<Longrightarrow> \<not> h_started h \<Longrightarrow> h_requests h = []"
  using assms by (auto simp: names_inv_def)

text \<open>
  What a step may do: a live actor keeps its name or has a pid not given out before, a name leads
  where it led or to an actor of that name, and a new letter fits its mailbox.
\<close>

lemma names_update:
  assumes inv: "names_inv J used sv n"
    and used: "used (se_system (nt_env n)) \<subseteq> used (se_system (nt_env n'))"
    and live: "\<And>pid h. nt_live n' pid = Some h \<Longrightarrow> pid \<in> used (se_system (nt_env n')) \<and> (\<not> h_started h \<longrightarrow> h_requests h = []) \<and>
      ((\<exists>h0. nt_live n pid = Some h0 \<and> fa_name (h_actor h0) = fa_name (h_actor h)) \<or> pid \<notin> used (se_system (nt_env n)))"
    and leads: "\<And>nm pid. leads J sv (nt_env n') nm pid \<Longrightarrow> leads J sv (nt_env n) nm pid \<or>
      pid \<in> used (se_system (nt_env n')) \<and> (\<forall>h. nt_live n' pid = Some h \<longrightarrow> fa_name (h_actor h) = nm)"
    and boxes: "\<And>pid l. l \<in> set (nt_boxes n' pid) \<Longrightarrow> l \<in> set (nt_boxes n pid) \<or>
      pid \<in> used (se_system (nt_env n')) \<and> (\<forall>h. nt_live n' pid = Some h \<longrightarrow> letter_ok (fa_name (h_actor h)) l)"
  shows "names_inv J used sv n'"
proof -
  have old: "\<exists>h0. nt_live n pid = Some h0 \<and> fa_name (h_actor h0) = fa_name (h_actor h)"
    if "nt_live n' pid = Some h" "pid \<in> used (se_system (nt_env n))" for pid h
    using live [OF that(1)] that(2) by blast
  have "pid \<in> used (se_system (nt_env n')) \<and> (\<forall>h. nt_live n' pid = Some h \<longrightarrow> fa_name (h_actor h) = nm)"
    if l: "leads J sv (nt_env n') nm pid" for nm pid
    using leads [OF l]
  proof
    assume l: "leads J sv (nt_env n) nm pid"
    from old [OF _ names_invD(2) [OF inv l]] names_invD(3) [OF inv l] names_invD(2) [OF inv l] used
    show ?thesis by fastforce
  qed
  moreover have "pid \<in> used (se_system (nt_env n')) \<and> (\<forall>h. nt_live n' pid = Some h \<longrightarrow> letter_ok (fa_name (h_actor h)) l)"
    if l: "l \<in> set (nt_boxes n' pid)" for pid l
    using boxes [OF l]
  proof
    assume l: "l \<in> set (nt_boxes n pid)"
    from old [OF _ names_invD(4) [OF inv l]] names_invD(5) [OF inv l] names_invD(4) [OF inv l] used
    show ?thesis by fastforce
  qed
  ultimately show ?thesis using live by (simp add: names_inv_def)
qed

lemma handle_message_name:
  "handle_message F D pid msg a en = Some (a', en') \<Longrightarrow> fa_name a' = fa_name a \<and> fa_timer_interval a' = fa_timer_interval a"
  by (drule handle_message_runs_to) (simp add: runs_to_def same_config_def)

lemma started_name:
  assumes "started F D pid a en = Some (a', en')"
  shows "fa_name a' = fa_name a \<and> fa_timer_interval a' = fa_timer_interval a"
proof -
  obtain b en1 where "started_recover F D pid a en = (b, en1)" by fastforce
  from started_recover_result(1) [OF this] started_runs_to [OF assms] this show ?thesis
    by (simp add: runs_to_def same_config_def)
qed

text \<open>
  The requests of the handlers: \<open>started\<close> asks for registrations of its own name only, and for one
  tick at most; a later handler for one tick, if it has handled one, and for no registration.
\<close>

definition reg_ok :: "string \<Rightarrow> Pid \<Rightarrow> request \<Rightarrow> bool" where
  "reg_ok nm pid q = (case q of ReqRegister sys m p \<Rightarrow> m = nm \<and> p = pid | _ \<Rightarrow> True)"

definition tick_limit :: "('f, 'w, 's, 'e, 'p) FsmActor \<Rightarrow> nat" where
  "tick_limit a = (case fa_timer_interval a of None \<Rightarrow> 0 | Some i \<Rightarrow> 1)"

lemma asked_ticks_append [simp]: "asked_ticks (xs @ ys) = asked_ticks xs + asked_ticks ys"
  by (induction xs rule: asked_ticks.induct) simp_all

lemma do_transition_asks:
  assumes "do_transition F D a ev ep en = Some (b, en2)"
  obtains qs where "en_requests en2 = en_requests en @ qs" "set qs \<subseteq> {ReqStopNormal}" "asked_ticks qs = 0"
proof -
  from do_transition_requests [OF assms] consider "en_requests en2 = en_requests en"
    | "en_requests en2 = en_requests en @ [ReqStopNormal]" by blast
  then show thesis by cases (use that [of "[]"] that [of "[ReqStopNormal]"] in simp_all)
qed

lemma started_recover_asks:
  assumes "started_recover F D pid a en = (b, en')"
  obtains qs where "en_requests en' = en_requests en @ qs" "\<forall>q\<in>set qs. reg_ok (fa_name a) pid q" "asked_ticks qs = 0"
proof (cases "fa_recover_on_start a")
  case False
  with assms that [of "[]"] show thesis by (simp add: started_recover_def)
next
  case True
  let ?load = "case fa_persistency a of None \<Rightarrow> (a, en)
    | Some persist \<Rightarrow> (case load persist (fa_name a) (en_world en) of (res, w) \<Rightarrow>
        (let en = en\<lparr>en_world := w\<rparr>
         in case res of Inr (Some (lc, rs, rp)) \<Rightarrow> recover F D rs rp a en | _ \<Rightarrow> (a, en)))"
  obtain c en1 where l: "?load = (c, en1)" by fastforce
  have c: "en_requests en1 = en_requests en \<and> same_config a c"
  proof (cases "\<exists>rs rp w. recover F D rs rp a (en\<lparr>en_world := w\<rparr>) = (c, en1)")
    case True
    then obtain rs rp w where r: "recover F D rs rp a (en\<lparr>en_world := w\<rparr>) = (c, en1)" by blast
    from recover_result(1,4) [OF r] show ?thesis by simp
  next
    case False
    with l show ?thesis by (auto simp: Let_def split: option.splits prod.splits sum.splits)
  qed
  from assms True l have "en' = (case fa_system c of None \<Rightarrow> en1
    | Some sys \<Rightarrow> env_request (ReqRegister sys (fa_name c) pid) (env_request (ReqUnregister sys (fa_name c)) en1))"
    by (auto simp: started_recover_def)
  with c have en': "en' = (case fa_system a of None \<Rightarrow> en1
    | Some sys \<Rightarrow> env_request (ReqRegister sys (fa_name a) pid) (env_request (ReqUnregister sys (fa_name a)) en1))"
    by (simp add: same_config_def split: option.split)
  show thesis
  proof (cases "fa_system a")
    case None
    with en' c show thesis by (intro that [of "[]"]) simp_all
  next
    case (Some sys)
    with en' conjunct1 [OF c] that [of "[ReqUnregister sys (fa_name a), ReqRegister sys (fa_name a) pid]"] show thesis
      by (simp add: reg_ok_def)
  qed
qed

lemma started_asks:
  assumes run: "started F D pid a en = Some (a', en')"
  obtains qs where "en_requests en' = en_requests en @ qs" "\<forall>q\<in>set qs. reg_ok (fa_name a) pid q"
    "asked_ticks qs = tick_limit a"
proof -
  obtain b en1 where sr: "started_recover F D pid a en = (b, en1)" by fastforce
  then obtain qs where qs: "en_requests en1 = en_requests en @ qs" "\<forall>q\<in>set qs. reg_ok (fa_name a) pid q"
    "asked_ticks qs = 0" by (rule started_recover_asks)
  let ?en = "case fa_timer_interval b of None \<Rightarrow> en1 | Some interval \<Rightarrow> env_request (ReqSendTick pid interval) en1"
  let ?tk = "case fa_timer_interval b of None \<Rightarrow> [] | Some interval \<Rightarrow> [ReqSendTick pid interval]"
  have b: "fa_timer_interval b = fa_timer_interval a"
    using started_recover_result(1) [OF sr] by (simp add: same_config_def)
  have en: "en_requests ?en = en_requests en @ qs @ ?tk" using qs(1) by (simp split: option.split)
  have tk: "asked_ticks ?tk = tick_limit a" "\<forall>q\<in>set ?tk. reg_ok (fa_name a) pid q"
    using b by (auto simp: tick_limit_def reg_ok_def split: option.split)
  show thesis
  proof (cases "hard_event (fa_graph b) (current (fa_state b))")
    case None
    with run sr have "en' = ?en" by (auto simp: started_def)
    with en tk qs show thesis by (intro that [of "qs @ ?tk"]) auto
  next
    case (Some evt)
    with run sr have "do_transition F D b evt (payload (fa_state b)) ?en = Some (a', en')"
      by (simp add: started_def)
    then obtain rs where rs: "en_requests en' = en_requests ?en @ rs" "set rs \<subseteq> {ReqStopNormal}" "asked_ticks rs = 0"
      by (rule do_transition_asks)
    then have "\<forall>q\<in>set rs. reg_ok (fa_name a) pid q" by (auto simp: reg_ok_def)
    with en tk qs rs show thesis by (intro that [of "qs @ ?tk @ rs"]) auto
  qed
qed

lemma handle_message_asks:
  assumes run: "handle_message F D pid msg a en = Some (a', en')"
  obtains qs where "en_requests en' = en_requests en @ qs"
    "asked_ticks qs \<le> (if msg = TimerTickMsg then tick_limit a else 0)"
proof (cases msg)
  case (TransitionMsg ev ep)
  with run have "do_transition F D a ev ep en = Some (a', en')" by (simp add: handle_message_def)
  then show thesis by (rule do_transition_asks) (use that TransitionMsg in simp)
next
  case TimerTickMsg
  with run obtain en1 where tick: "handle_timer_tick F D a en = Some (a', en1)"
    and en': "en' = (case fa_timer_interval a' of
       Some i \<Rightarrow> if lifecycle (fa_state a') = Running then env_request (ReqSendTick pid i) en1 else en1
     | None \<Rightarrow> en1)"
    by (auto elim: tick_result)
  obtain res f p w1 where
    ti: "on_timer F (current (fa_state a)) (fa_fsm a, payload (fa_state a), en_world en) = (res, f, p, w1)"
    using prod_cases4 by blast
  obtain qs where qs: "en_requests en1 = en_requests en @ qs" "asked_ticks qs = 0"
  proof (cases res)
    case None
    with tick ti that [of "[]"] show ?thesis by (auto simp: handle_timer_tick_def)
  next
    case (Some ee)
    with tick ti have "do_transition F D (a\<lparr>fa_fsm := f, fa_state := (fa_state a)\<lparr>payload := p\<rparr>\<rparr>) (fst ee) (snd ee)
        (en\<lparr>en_world := w1\<rparr>) = Some (a', en1)"
      by (auto simp: handle_timer_tick_def split: prod.splits)
    then show ?thesis by (rule do_transition_asks) (use that in simp)
  qed
  have "fa_timer_interval a' = fa_timer_interval a" using handle_message_name [OF run] by simp
  with en' qs TimerTickMsg that [of qs] show thesis
    by (cases "fa_timer_interval a") (auto simp: tick_limit_def split: if_splits intro: that)
next
  case ShutdownMsg
  with run have "handle_message F D pid ShutdownMsg a en = Some (a', en')" by simp
  from shutdown_result(8) [OF this] show thesis by (rule that) simp
next
  case OtherMsg
  with run that [of "[]"] show thesis by (simp add: handle_message_def)
qed

context pid_supply
begin

lemma perform_keeps:
  assumes "\<forall>q\<in>set qs. reg_ok nm pid q"
  shows "used (perform J qs j) = used j"
    "j_whereis J sys m (perform J qs j) = Some p \<Longrightarrow> j_whereis J sys m j = Some p \<or> (m = nm \<and> p = pid)"
proof -
  have "used (perform J qs j) = used j \<and>
    (j_whereis J sys m (perform J qs j) = Some p \<longrightarrow> j_whereis J sys m j = Some p \<or> (m = nm \<and> p = pid))"
    using assms
  proof (induction qs arbitrary: j)
    case (Cons q qs)
    show ?case
    proof (cases q)
      case (ReqUnregister sys' nm')
      with Cons.prems Cons.IH [of "snd (j_unregister J sys' nm' j)"] show ?thesis
        by (auto simp: unregistered unregister_used split: if_splits)
    next
      case (ReqRegister sys' nm' pid')
      with Cons.prems Cons.IH [of "snd (j_register J sys' nm' pid' j)"] show ?thesis
        by (cases "j_whereis J sys' nm' j")
          (auto simp: register_free register_taken register_used reg_ok_def split: if_splits)
    qed (use Cons in simp_all)
  qed simp
  then show "used (perform J qs j) = used j"
    "j_whereis J sys m (perform J qs j) = Some p \<Longrightarrow> j_whereis J sys m j = Some p \<or> (m = nm \<and> p = pid)"
    by simp_all
qed

text \<open>The environments the operations leave.\<close>

lemma spawned_env:
  assumes sp: "j_spawn J (sup_system sv) a (se_system env) = (pid, j)"
    and env': "env' = env\<lparr>se_system := j\<rparr> \<or>
      se_system env' = snd (j_register J (sup_system sv) nm pid j) \<and> se_actors env' = (se_actors env)(nm \<mapsto> pid)"
  shows "pid \<notin> used (se_system env)" "used (se_system env') = insert pid (used (se_system env))"
    "leads J sv env' m p \<Longrightarrow> leads J sv env m p \<or> (m = nm \<and> p = pid)"
proof -
  note fresh = spawn_fresh [OF sp]
  show "pid \<notin> used (se_system env)" using fresh by simp
  show "used (se_system env') = insert pid (used (se_system env))"
    using env' conjunct2 [OF fresh] by (elim disjE) (simp_all add: register_used)
  have j: "j_whereis J (sup_system sv) m' j = j_whereis J (sup_system sv) m' (se_system env)" for m'
    using spawn_keeps [of "sup_system sv" m' "sup_system sv" a "se_system env"] sp by simp
  show "leads J sv env m p \<or> (m = nm \<and> p = pid)" if l: "leads J sv env' m p"
    using env'
  proof
    assume "env' = env\<lparr>se_system := j\<rparr>"
    with l j show ?thesis by (simp add: leads_def)
  next
    assume e: "se_system env' = snd (j_register J (sup_system sv) nm pid j) \<and> se_actors env' = (se_actors env)(nm \<mapsto> pid)"
    show ?thesis
      using l e j register_free [of "sup_system sv" nm j "sup_system sv" m pid]
        register_taken [of "sup_system sv" nm j "sup_system sv" m pid]
      by (cases "j_whereis J (sup_system sv) nm j") (auto simp: leads_def split: if_splits)
  qed
qed

end

lemma send_to_env:
  assumes J: "pid_supply J used" and run: "send_to J sv nm msg env = (res, env')"
  shows "used (se_system env') = used (se_system env)" "leads J sv env' m p = leads J sv env m p"
    "se_cache env' = se_cache env"
proof -
  have "env' = env \<or> (\<exists>pid. env' = env\<lparr>se_system := snd (j_send J (sup_system sv) pid msg (se_system env))\<rparr>)"
    using run by (auto simp: send_to_def split: sum.splits prod.splits) (metis snd_conv)+
  then show "used (se_system env') = used (se_system env)" "leads J sv env' m p = leads J sv env m p"
    "se_cache env' = se_cache env"
    by (auto simp: leads_def pid_supply.send_used [OF J] pid_supply.send_keeps [OF J])
qed

lemma spawn_supervised_env:
  assumes J: "pid_supply J used" and run: "spawn_supervised_with_intensity J dflt sv nm fsm p strategy intensity env = (res, env')"
  shows "used (se_system env) \<subseteq> used (se_system env')" "se_cache env' = se_cache env"
    "leads J sv env' m q \<Longrightarrow> leads J sv env m q \<or>
      (m = nm \<and> q \<notin> used (se_system env) \<and> q \<in> used (se_system env'))"
proof -
  let ?spec = "\<lparr>ss_strategy = strategy, ss_intensity = intensity, ss_children = [(nm, \<lambda>u. supervised_child sv nm dflt p)]\<rparr>"
  let ?j = "j_spawn_supervisor J (sup_system sv) ?spec (se_system env)"
  obtain pid j where pn: "j_pid_new J ?j = (pid, j)" by fastforce
  with run have env': "env' = env\<lparr>se_world := ensure_stored sv nm p (se_world env), se_system := j,
      se_actors := (se_actors env)(nm \<mapsto> pid)\<rparr>"
    by (simp add: spawn_supervised_with_intensity_def Let_def)
  note fresh = pid_supply.pid_new_fresh [OF J, OF pn]
  have u: "used (se_system env) \<subseteq> used ?j" by (rule pid_supply.tree_used [OF J])
  have w: "j_whereis J (sup_system sv) m' j = j_whereis J (sup_system sv) m' (se_system env)" for m'
    using pid_supply.pid_new_keeps [OF J, of "sup_system sv" m' ?j] pid_supply.tree_keeps [OF J, of "sup_system sv" m' "sup_system sv" ?spec "se_system env"] pn
    by simp
  show "used (se_system env) \<subseteq> used (se_system env')" "se_cache env' = se_cache env" using env' fresh u by auto
  show "leads J sv env m q \<or> (m = nm \<and> q \<notin> used (se_system env) \<and> q \<in> used (se_system env'))"
    if "leads J sv env' m q"
    using that env' fresh u w by (auto simp: leads_def split: if_splits)
qed

lemma net_simps [simp]:
  "nt_sys (with_sys s n) = s" "nt_boxes (with_sys s n) = nt_boxes n" "nt_ticks (with_sys s n) = nt_ticks n"
  "nt_env (host pid a env n) = env" "nt_boxes (host pid a env n) = nt_boxes n" "nt_ticks (host pid a env n) = nt_ticks n"
  "nt_live (host pid a env n) = (nt_live n)(pid \<mapsto> \<lparr>h_actor = a, h_requests = [], h_started = False\<rparr>)"
  by (simp_all add: with_sys_def host_def)

lemma after_handler_env [simp]:
  "se_system (sy_env (after_handler s pid r)) = se_system (sy_env s)"
  "se_actors (sy_env (after_handler s pid r)) = se_actors (sy_env s)"
  "leads J sv (sy_env (after_handler s pid r)) nm p = leads J sv (sy_env s) nm p"
  by (simp_all add: after_handler_def leads_def)

lemma host_names:
  assumes J: "pid_supply J used" and inv: "names_inv J used sv n"
    and sp: "j_spawn J (sup_system sv) a (se_system (nt_env n)) = (pid, j)"
    and env': "env' = (nt_env n)\<lparr>se_system := j\<rparr> \<or>
      se_system env' = snd (j_register J (sup_system sv) (fa_name a) pid j) \<and>
      se_actors env' = (se_actors (nt_env n))(fa_name a \<mapsto> pid)"
  shows "names_inv J used sv (host pid a env' n)"
proof (rule names_update [OF inv])
  note e = pid_supply.spawned_env [OF J sp env']
  show "used (se_system (nt_env n)) \<subseteq> used (se_system (nt_env (host pid a env' n)))" using e(2) by auto
  show "pid' \<in> used (se_system (nt_env (host pid a env' n))) \<and> (\<not> h_started h \<longrightarrow> h_requests h = []) \<and>
      ((\<exists>h0. nt_live n pid' = Some h0 \<and> fa_name (h_actor h0) = fa_name (h_actor h)) \<or> pid' \<notin> used (se_system (nt_env n)))"
    if "nt_live (host pid a env' n) pid' = Some h" for pid' h
    using that e names_invD(1,6) [OF inv, of pid' h] by (cases "pid' = pid") auto
  show "leads J sv (nt_env n) nm pid' \<or> pid' \<in> used (se_system (nt_env (host pid a env' n))) \<and>
      (\<forall>h. nt_live (host pid a env' n) pid' = Some h \<longrightarrow> fa_name (h_actor h) = nm)"
    if "leads J sv (nt_env (host pid a env' n)) nm pid'" for nm pid'
    using e(3) [of nm pid'] e(2) that by auto
qed simp

lemma net_send_names:
  assumes J: "pid_supply J used" and inv: "names_inv J used sv n"
    and run: "net_send J sv nm msg n = (res, n')" and msg: "msg \<noteq> TimerTickMsg"
  shows "names_inv J used sv n'"
proof (rule names_update [OF inv])
  obtain env' where send: "send_to J sv nm msg (nt_env n) = (res, env')"
    using run by (auto simp: net_send_def split: prod.splits)
  note e = send_to_env [OF J send]
  with run send have live: "nt_live n' = nt_live n" and env: "nt_env n' = env'" by (auto simp: net_send_def)
  show "l \<in> set (nt_boxes n pid) \<or>
      pid \<in> used (se_system (nt_env n')) \<and> (\<forall>h. nt_live n' pid = Some h \<longrightarrow> letter_ok (fa_name (h_actor h)) l)"
    if "l \<in> set (nt_boxes n' pid)" for pid l
  proof (cases "l \<in> set (nt_boxes n pid)")
    case False
    with that run send have l: "l = Sent nm msg" and r: "resolve_pid J sv nm (nt_env n) = Inr pid"
      by (auto simp: net_send_def split: sum.splits if_splits)
    from r have "leads J sv (nt_env n) nm pid"
      by (auto simp: resolve_pid_def leads_def split: option.splits)
    from names_invD(2,3) [OF inv this] l msg e(1) live env show ?thesis by (auto simp: letter_ok_def)
  qed simp
qed (use run names_invD(1,6) [OF inv] in \<open>auto simp: net_send_def send_to_env [OF J] split: prod.splits\<close>)

text \<open>A handler changes neither the name of its actor nor what the names lead to.\<close>

lemma handler_names:
  assumes inv: "names_inv J used sv n" and h: "nt_live n pid = Some h" and nm: "fa_name (fst r) = fa_name (h_actor h)"
    and n': "nt_live n' = (nt_live n)(pid \<mapsto> \<lparr>h_actor = fst r, h_requests = en_requests (snd r), h_started = True\<rparr>) \<or>
      nt_live n' = (nt_live n)(pid := None)"
    and u: "used (se_system (nt_env n')) = used (se_system (nt_env n))"
    and lead: "\<And>m p. leads J sv (nt_env n') m p \<Longrightarrow> leads J sv (nt_env n) m p \<or> (m = fa_name (h_actor h) \<and> p = pid)"
    and boxes: "\<And>p. set (nt_boxes n' p) \<subseteq> set (nt_boxes n p)"
  shows "names_inv J used sv n'"
proof (rule names_update [OF inv])
  have live: "\<exists>h0. nt_live n p = Some h0 \<and> fa_name (h_actor h0) = fa_name (h_actor h')" if "nt_live n' p = Some h'" for p h'
    using n' that h nm by (cases "p = pid") auto
  have "h_requests h' = []" if "nt_live n' p = Some h'" "\<not> h_started h'" for p h'
    using n' that names_invD(6) [OF inv, of p h'] by (cases "p = pid") auto
  then show "p \<in> used (se_system (nt_env n')) \<and> (\<not> h_started h' \<longrightarrow> h_requests h' = []) \<and>
      ((\<exists>h0. nt_live n p = Some h0 \<and> fa_name (h_actor h0) = fa_name (h_actor h')) \<or>
      p \<notin> used (se_system (nt_env n)))" if "nt_live n' p = Some h'" for p h'
    using live [OF that] names_invD(1) [OF inv] u that by auto
  show "leads J sv (nt_env n) m p \<or> p \<in> used (se_system (nt_env n')) \<and> (\<forall>h. nt_live n' p = Some h \<longrightarrow> fa_name (h_actor h) = m)"
    if "leads J sv (nt_env n') m p" for m p
    using lead [OF that] live [of p] names_invD(1) [OF inv h] h u by auto
qed (use u boxes in auto)

lemma net_step_names:
  assumes J: "pid_supply J used" and step: "net_step J used D F sv n n'" and inv: "names_inv J used sv n"
  shows "names_inv J used sv n'"
  using step
proof (cases rule: net_step.cases)
  case (nt_start nm fsm p)
  obtain a c w where sa: "start_actor D F sv nm fsm p (nt_env n) = (a, c, w)" using prod_cases3 by blast
  obtain pid j where sp: "j_spawn J (sup_system sv) a (se_system (nt_env n)) = (pid, j)" by fastforce
  obtain res env where st: "start_fsm J D F sv nm fsm p (nt_env n) = (res, env)" by fastforce
  have n': "n' = host pid a env (noted nm n)" using nt_start sa sp st by (simp add: net_start_def)
  have nm: "fa_name a = nm" by (rule start_actor_result [OF sa])
  have "se_system env = snd (j_register J (sup_system sv) nm pid j) \<and> se_actors env = (se_actors (nt_env n))(nm \<mapsto> pid)"
    using st sa sp by (auto simp: start_fsm_def split: prod.splits)
  with nm inv sp show ?thesis unfolding n' by (intro host_names [OF J, of sv "noted nm n" a pid j]) simp_all
next
  case (nt_spawn dflt nm fsm p strategy intensity res env)
  note e = spawn_supervised_env [OF J nt_spawn(2)]
  show ?thesis
  proof (rule names_update [OF inv])
    show "leads J sv (nt_env n) m pid \<or> pid \<in> used (se_system (nt_env n')) \<and> (\<forall>h. nt_live n' pid = Some h \<longrightarrow> fa_name (h_actor h) = m)"
      if "leads J sv (nt_env n') m pid" for m pid
      using e(3) [of m pid] that nt_spawn names_invD(1) [OF inv, of pid] by auto
  qed (use nt_spawn e names_invD(1,6) [OF inv] in auto)
next
  case (nt_child nm dflt p)
  obtain pid j where sp: "j_spawn J (sup_system sv) (supervised_child sv nm dflt p) (se_system (nt_env n)) = (pid, j)" by fastforce
  with nt_child have n': "n' = host pid (supervised_child sv nm dflt p) ((nt_env n)\<lparr>se_system := j\<rparr>) (noted nm n)"
    by (simp add: net_child_def)
  show ?thesis unfolding n' by (rule host_names [OF J, where j = j]) (use inv sp in simp_all)
next
  case (nt_transition nm ev ep res)
  then show ?thesis by (intro net_send_names [OF J inv, of nm "TransitionMsg ev ep" res n']) (simp_all add: net_transition_def)
next
  case (nt_shutdown nm res)
  then show ?thesis by (intro net_send_names [OF J inv, of nm ShutdownMsg res n']) (simp_all add: net_shutdown_def)
next
  case (nt_outside env)
  have "leads J sv (nt_env n) m p" if "leads J sv env m p" for m p
    using that nt_outside(3) spec [OF nt_outside(4), of m] by (auto simp: leads_def)
  with nt_outside names_invD(1,6) [OF inv] show ?thesis by (intro names_update [OF inv]) auto
next
  case (nt_boot pid)
  then show ?thesis
  proof (rule net_bootE)
    fix h a' en' s
    assume h: "nt_live n pid = Some h" "\<not> h_started h" and s: "s = after_handler (nt_sys n) pid (a', en')"
      and run: "started F D pid (h_actor h) (hosted_env (nt_sys n) h) = Some (a', en')"
      and n': "n' = with_sys (s\<lparr>sy_env := (sy_env s)\<lparr>se_system := perform J (en_requests en') (se_system (sy_env s))\<rparr>\<rparr>) n"
    have "en_requests (hosted_env (nt_sys n) h) = []" using names_invD(6) [OF inv h] by (simp add: hosted_env_def)
    with run have regs: "\<forall>q\<in>set (en_requests en'). reg_ok (fa_name (h_actor h)) pid q" by (auto elim: started_asks)
    note pk = pid_supply.perform_keeps [OF J regs]
    have "leads J sv (nt_env n) m p \<or> (m = fa_name (h_actor h) \<and> p = pid)" if "leads J sv (nt_env n') m p" for m p
      using that n' s pk(2) [of "sup_system sv" m "se_system (nt_env n)" p] by (auto simp: leads_def)
    then show ?thesis
      by (intro handler_names [OF inv h(1), of "(a', en')"]) (use started_name [OF run] n' s pk(1) in auto)
  qed
next
  case (nt_handle pid)
  then show ?thesis
  proof (rule net_handleE)
    fix h l ls a' en'
    assume h: "nt_live n pid = Some h" and box: "nt_boxes n pid = l # ls"
      and run: "handle_message F D pid (letter_message l) (h_actor h) (hosted_env (nt_sys n) h) = Some (a', en')"
      and n': "n' = (with_sys (after_handler (nt_sys n) pid (a', en')) n)\<lparr>nt_boxes := (nt_boxes n)(pid := ls)\<rparr>"
    show ?thesis
      by (rule handler_names [OF inv h, of "(a', en')"]) (use handle_message_name [OF run] n' box in auto)
  qed
next
  case (nt_tick pid)
  then show ?thesis
    by (rule net_tickE, intro names_update [OF inv])
       (use names_invD(1,6) [OF inv] in \<open>auto simp: letter_ok_def split: if_splits\<close>)
next
  case (nt_stop pid)
  then show ?thesis
  proof (rule net_stopE)
    fix h a' en'
    assume h: "nt_live n pid = Some h" and
      n': "n' = (with_sys ((after_handler (nt_sys n) pid (a', en'))\<lparr>sy_live := (nt_live n)(pid := None)\<rparr>) n)
             \<lparr>nt_boxes := (nt_boxes n)(pid := [])\<rparr>"
    show ?thesis by (rule handler_names [OF inv h, of "(h_actor h, en')"]) (use n' in auto)
  qed
next
  case (nt_crash pid h env)
  have "leads J sv (nt_env n) m p \<or> (m = fa_name (h_actor h) \<and> p = pid)" if "leads J sv env m p" for m p
    using that nt_crash(4) spec [OF nt_crash(5), of m] by (auto simp: leads_def)
  note lead = this
  have n': "nt_env n' = env" "nt_live n' = (nt_live n)(pid := None)" "nt_boxes n' = (nt_boxes n)(pid := [])"
    using nt_crash(1) by simp_all
  show ?thesis
  proof (rule names_update [OF inv])
    show "leads J sv (nt_env n) m p \<or> p \<in> used (se_system (nt_env n')) \<and> (\<forall>h. nt_live n' p = Some h \<longrightarrow> fa_name (h_actor h) = m)"
      if "leads J sv (nt_env n') m p" for m p
      using lead [of m p] that names_invD(1) [OF inv nt_crash(2)] nt_crash(6) n' by auto
    show "p \<in> used (se_system (nt_env n')) \<and> (\<not> h_started h' \<longrightarrow> h_requests h' = []) \<and>
      ((\<exists>h0. nt_live n p = Some h0 \<and> fa_name (h_actor h0) = fa_name (h_actor h')) \<or> p \<notin> used (se_system (nt_env n)))"
      if "nt_live n' p = Some h'" for p h'
    proof -
      from that n'(2) have "nt_live n p = Some h'" by (simp split: if_splits)
      with names_invD(1,6) [OF inv this] nt_crash(6) n'(1) show ?thesis by auto
    qed
    show "used (se_system (nt_env n)) \<subseteq> used (se_system (nt_env n'))" using nt_crash(6) n'(1) by simp
    show "l \<in> set (nt_boxes n p) \<or> p \<in> used (se_system (nt_env n')) \<and> (\<forall>h. nt_live n' p = Some h \<longrightarrow> letter_ok (fa_name (h_actor h)) l)"
      if "l \<in> set (nt_boxes n' p)" for p l
      using that n'(3) by (simp split: if_splits)
  qed
qed

text \<open>In every reachable system.\<close>

lemma net_reach_names:
  assumes "pid_supply J used" "net_reach J used D F sv n"
  shows "names_inv J used sv n"
  using assms(2)
proof (induction rule: net_reach.induct)
  case (net_new j w)
  then show ?case
    by (auto simp: names_inv_def network_new_def system_new_def sup_env_new_def leads_def)
next
  case (net_next n n')
  then show ?case using net_step_names [OF assms(1)] by blast
qed

subsection \<open>The network is a system\<close>

text \<open>Every step is one of the system of \<open>Fsm_System\<close>, or such a step with one outside the actors.\<close>

lemma host_sys_step:
  assumes "sy_live (nt_sys n) pid = None" "se_cache env = se_cache (nt_env n)"
  shows "rtranclp (sys_step J D F sv) (nt_sys n) (nt_sys (host pid (supervised_child sv nm dflt p) env (noted nm n)))"
proof -
  let ?s = "(nt_sys n)\<lparr>sy_env := env\<rparr>"
  have "sys_step J D F sv (nt_sys n) ?s" using assms(2) by (rule sys_outside)
  moreover have "sys_step J D F sv ?s ((note_name nm ?s)\<lparr>sy_live := (sy_live ?s)(pid \<mapsto>
      \<lparr>h_actor = supervised_child sv nm dflt p, h_requests = [], h_started = False\<rparr>)\<rparr>)"
    by (rule sys_child) (simp add: assms(1))
  moreover have "note_name nm ?s = (note_name nm (nt_sys n))\<lparr>sy_env := env\<rparr>"
    by (auto simp: note_name_def free_name_def)
  ultimately show ?thesis by (simp add: host_def)
qed

lemma net_step_sys:
  assumes J: "pid_supply J used" and step: "net_step J used D F sv n n'" and inv: "names_inv J used sv n"
  shows "rtranclp (sys_step J D F sv) (nt_sys n) (nt_sys n')"
proof -
  have fresh: "nt_live n pid = None" if "pid \<notin> used (se_system (nt_env n))" for pid
    using names_invD(1) [OF inv, of pid] that by fastforce
  have outside: "rtranclp (sys_step J D F sv) s (s\<lparr>sy_env := env\<rparr>)" if "se_cache env = se_cache (sy_env s)" for s env
    using sys_outside [OF that] by blast
  from step show ?thesis
  proof (cases rule: net_step.cases)
    case (nt_start nm fsm p)
    obtain a c w where sa: "start_actor D F sv nm fsm p (nt_env n) = (a, c, w)" using prod_cases3 by blast
    obtain pid j where sp: "j_spawn J (sup_system sv) a (se_system (nt_env n)) = (pid, j)" by fastforce
    obtain res env where st: "start_fsm J D F sv nm fsm p (nt_env n) = (res, env)" by fastforce
    have n': "nt_sys n' = (note_name nm (nt_sys n))\<lparr>sy_env := env, sy_live := (nt_live n)(pid \<mapsto> \<lparr>h_actor = a, h_requests = [], h_started = False\<rparr>)\<rparr>"
      using nt_start(1) sa sp st by (simp add: net_start_def host_def)
    have "nt_live n pid = None" using pid_supply.spawn_fresh [OF J sp] fresh by simp
    from sys_start [OF sa sp st this] show ?thesis unfolding n' by blast
  next
    case (nt_spawn dflt nm fsm p strategy intensity res env)
    with outside [of env "nt_sys n"] spawn_supervised_env(2) [OF J nt_spawn(2)] show ?thesis by simp
  next
    case (nt_child nm dflt p)
    obtain pid j where sp: "j_spawn J (sup_system sv) (supervised_child sv nm dflt p) (se_system (nt_env n)) = (pid, j)"
      by fastforce
    then have "n' = host pid (supervised_child sv nm dflt p) ((nt_env n)\<lparr>se_system := j\<rparr>) (noted nm n)"
      using nt_child by (simp add: net_child_def)
    moreover have "nt_live n pid = None" using pid_supply.spawn_fresh [OF J sp] fresh by simp
    ultimately show ?thesis by (simp add: host_sys_step)
  next
    case (nt_transition nm ev ep res)
    then obtain env where e: "send_to J sv nm (TransitionMsg ev ep) (nt_env n) = (res, env)" "nt_sys n' = (nt_sys n)\<lparr>sy_env := env\<rparr>"
      by (auto simp: net_transition_def net_send_def split: prod.splits)
    with outside [of env "nt_sys n"] send_to_env(3) [OF J e(1)] show ?thesis by simp
  next
    case (nt_shutdown nm res)
    then obtain env where e: "send_to J sv nm ShutdownMsg (nt_env n) = (res, env)" "nt_sys n' = (nt_sys n)\<lparr>sy_env := env\<rparr>"
      by (auto simp: net_shutdown_def net_send_def split: prod.splits)
    with outside [of env "nt_sys n"] send_to_env(3) [OF J e(1)] show ?thesis by simp
  next
    case (nt_outside env)
    with outside [of env "nt_sys n"] show ?thesis by simp
  next
    case (nt_boot pid)
    then show ?thesis
    proof (rule net_bootE)
      fix h a' en' s
      assume h: "nt_live n pid = Some h" "\<not> h_started h"
        "started F D pid (h_actor h) (hosted_env (nt_sys n) h) = Some (a', en')"
        and s: "s = after_handler (nt_sys n) pid (a', en')"
        and n': "n' = with_sys (s\<lparr>sy_env := (sy_env s)\<lparr>se_system := perform J (en_requests en') (se_system (sy_env s))\<rparr>\<rparr>) n"
      have "sys_step J D F sv (nt_sys n) s" unfolding s by (rule sys_boot [OF h])
      moreover have "rtranclp (sys_step J D F sv) s (nt_sys n')" unfolding n' net_simps by (rule outside) simp
      ultimately show ?thesis by (rule converse_rtranclp_into_rtranclp)
    qed
  next
    case (nt_handle pid)
    then show ?thesis by (rule net_handleE) (auto intro: sys_message)
  next
    case (nt_tick pid)
    then show ?thesis by (rule net_tickE) simp
  next
    case (nt_stop pid)
    then show ?thesis by (rule net_stopE) (auto intro: sys_stop)
  next
    case (nt_crash pid h env)
    let ?s = "(nt_sys n)\<lparr>sy_env := (nt_env n)\<lparr>se_cache := se_cache env, se_world := se_world env\<rparr>,
       sy_live := (nt_live n)(pid := None), sy_lost := insert (fa_name (h_actor h)) (sy_lost (nt_sys n))\<rparr>"
    have "sys_step J D F sv (nt_sys n) ?s" by (rule sys_crash [OF nt_crash(2,3)])
    moreover have "rtranclp (sys_step J D F sv) ?s (?s\<lparr>sy_env := env\<rparr>)" by (rule outside) simp
    moreover have "?s\<lparr>sy_env := env\<rparr> = nt_sys n'" using nt_crash(1) by simp
    ultimately show ?thesis by (metis converse_rtranclp_into_rtranclp)
  qed
qed

lemma sys_reach_steps: "rtranclp (sys_step J D F sv) s s' \<Longrightarrow> sys_reach J D F sv s \<Longrightarrow> sys_reach J D F sv s'"
  by (induction rule: rtranclp_induct) (auto intro: reach_step)

lemma net_reach_sys:
  assumes J: "pid_supply J used" and reach: "net_reach J used D F sv n"
  shows "sys_reach J D F sv (nt_sys n)"
  using reach
proof (induction rule: net_reach.induct)
  case (net_new j w)
  show ?case by (simp add: network_new_def reach_new)
next
  case (net_next n n')
  from sys_reach_steps [OF net_step_sys [OF J net_next.hyps(2) net_reach_names [OF J net_next.hyps(1)]] net_next.IH]
  show ?case .
qed

subsection \<open>At most one tick is under way\<close>

text \<open>
  The ticks an actor has asked for and those in its mailbox: all but the handled ones. An actor
  without a timer never has any.
\<close>

definition tick_ok :: "('f, 'w, 's, 'e, 'p) hosted \<Rightarrow> ('e, 'p) letter list \<Rightarrow> nat \<Rightarrow> bool" where
  "tick_ok h box t \<longleftrightarrow> t \<le> asked_ticks (h_requests h) \<and>
     asked_ticks (h_requests h) + count_list box Tick \<le> t + tick_limit (h_actor h) \<and>
     (\<not> h_started h \<longrightarrow> h_requests h = [] \<and> Tick \<notin> set box)"

definition ticks_inv :: "('j \<Rightarrow> Pid set) \<Rightarrow> ('f, 'm, 'w, 's, 'e, 'p, 'j) network \<Rightarrow> bool" where
  "ticks_inv used n \<longleftrightarrow> (\<forall>pid. pid \<notin> used (se_system (nt_env n)) \<longrightarrow> nt_ticks n pid = 0) \<and>
     (\<forall>pid h. nt_live n pid = Some h \<longrightarrow> tick_ok h (nt_boxes n pid) (nt_ticks n pid))"

lemma ticks_inv_noted [simp]: "ticks_inv used (noted nm n) = ticks_inv used n"
  by (simp add: ticks_inv_def)

lemma ticks_invD:
  assumes "ticks_inv used n"
  shows "pid \<notin> used (se_system (nt_env n)) \<Longrightarrow> nt_ticks n pid = 0"
    "nt_live n pid = Some h \<Longrightarrow> tick_ok h (nt_boxes n pid) (nt_ticks n pid)"
  using assms by (simp_all add: ticks_inv_def)

lemma ticks_update:
  assumes inv: "ticks_inv used n" and u: "used (se_system (nt_env n)) \<subseteq> used (se_system (nt_env n'))"
    and ticks: "\<And>pid. pid \<notin> used (se_system (nt_env n')) \<Longrightarrow> nt_ticks n' pid = nt_ticks n pid"
    and live: "\<And>pid h. nt_live n' pid = Some h \<Longrightarrow>
      nt_live n pid = Some h \<and> nt_boxes n' pid = nt_boxes n pid \<and> nt_ticks n' pid = nt_ticks n pid \<or>
      tick_ok h (nt_boxes n' pid) (nt_ticks n' pid)"
  shows "ticks_inv used n'"
proof -
  have "nt_ticks n' pid = 0" if "pid \<notin> used (se_system (nt_env n'))" for pid
  proof -
    have "pid \<notin> used (se_system (nt_env n))" using u that by blast
    with ticks [OF that] ticks_invD(1) [OF inv this] show ?thesis by simp
  qed
  moreover have "tick_ok h (nt_boxes n' pid) (nt_ticks n' pid)" if "nt_live n' pid = Some h" for pid h
    using live [OF that] ticks_invD(2) [OF inv, of pid h] by auto
  ultimately show ?thesis by (simp add: ticks_inv_def)
qed

lemma tick_ok_fresh: "tick_ok \<lparr>h_actor = a, h_requests = [], h_started = False\<rparr> [] 0"
  by (simp add: tick_ok_def)

lemma tick_ok_sent:
  "tick_ok h box t \<Longrightarrow> tick_ok h (box @ [Sent nm msg]) t"
  by (simp add: tick_ok_def)

lemma host_ticks:
  assumes inv: "ticks_inv used n" and names: "names_inv J used sv n" and fresh: "pid \<notin> used (se_system (nt_env n))"
    and u: "used (se_system (nt_env n)) \<subseteq> used (se_system env)"
  shows "ticks_inv used (host pid a env n)"
proof (rule ticks_update [OF inv])
  have "nt_boxes n pid = []" using names_invD(4) [OF names, of _ pid] fresh by (cases "nt_boxes n pid") auto
  with ticks_invD(1) [OF inv fresh] show "nt_live n pid' = Some h \<and> nt_boxes (host pid a env n) pid' = nt_boxes n pid' \<and>
        nt_ticks (host pid a env n) pid' = nt_ticks n pid' \<or>
      tick_ok h (nt_boxes (host pid a env n) pid') (nt_ticks (host pid a env n) pid')"
    if "nt_live (host pid a env n) pid' = Some h" for pid' h
    using that tick_ok_fresh [of a] by (auto split: if_splits)
qed (use u in auto)

lemma net_send_ticks:
  assumes J: "pid_supply J used" and inv: "ticks_inv used n" and run: "net_send J sv nm msg n = (res, n')"
  shows "ticks_inv used n'"
proof -
  obtain env' where send: "send_to J sv nm msg (nt_env n) = (res, env')"
    using run by (auto simp: net_send_def split: prod.splits)
  have n': "nt_env n' = env'" "nt_live n' = nt_live n" "nt_ticks n' = nt_ticks n"
    "\<And>pid. nt_boxes n' pid = nt_boxes n pid \<or> nt_boxes n' pid = nt_boxes n pid @ [Sent nm msg]"
    using run send by (auto simp: net_send_def split: sum.splits)
  show ?thesis
  proof (rule ticks_update [OF inv])
    show "nt_live n pid = Some h \<and> nt_boxes n' pid = nt_boxes n pid \<and> nt_ticks n' pid = nt_ticks n pid \<or>
      tick_ok h (nt_boxes n' pid) (nt_ticks n' pid)" if "nt_live n' pid = Some h" for pid h
      using n'(4) [of pid] that n'(1-3) tick_ok_sent [OF ticks_invD(2) [OF inv, of pid h], of nm msg] by fastforce
  qed (simp_all add: n' send_to_env(1) [OF J send])
qed

text \<open>A handler takes one letter, and asks for a tick only if that was one.\<close>

lemma tick_ok_handled:
  assumes ok: "tick_ok h (l # ls) t" and up: "h_started h" and l: "letter_ok nm l"
    and run: "handle_message F D pid (letter_message l) (h_actor h) en = Some (a', en')"
    and en: "en_requests en = h_requests h"
  shows "tick_ok \<lparr>h_actor = a', h_requests = en_requests en', h_started = True\<rparr> ls t"
proof -
  have a': "tick_limit a' = tick_limit (h_actor h)" using handle_message_name [OF run] by (simp add: tick_limit_def)
  from run show ?thesis
  proof (rule handle_message_asks)
    fix qs assume "en_requests en' = en_requests en @ qs"
      and "asked_ticks qs \<le> (if letter_message l = TimerTickMsg then tick_limit (h_actor h) else 0)"
    moreover have "letter_message l = TimerTickMsg \<longleftrightarrow> l = Tick"
      using l by (cases l) (auto simp: letter_message_def letter_ok_def)
    moreover have "tick_limit (h_actor h) \<le> 1" by (simp add: tick_limit_def split: option.split)
    ultimately show ?thesis using ok en a' by (cases "l = Tick") (auto simp: tick_ok_def)
  qed
qed

lemma net_step_ticks:
  assumes J: "pid_supply J used" and step: "net_step J used D F sv n n'"
    and names: "names_inv J used sv n" and inv: "ticks_inv used n"
  shows "ticks_inv used n'"
  using step
proof (cases rule: net_step.cases)
  case (nt_start nm fsm p)
  obtain a c w where sa: "start_actor D F sv nm fsm p (nt_env n) = (a, c, w)" using prod_cases3 by blast
  obtain pid j where sp: "j_spawn J (sup_system sv) a (se_system (nt_env n)) = (pid, j)" by fastforce
  obtain res env where st: "start_fsm J D F sv nm fsm p (nt_env n) = (res, env)" by fastforce
  have n': "n' = host pid a env (noted nm n)" using nt_start sa sp st by (simp add: net_start_def)
  have "se_system env = snd (j_register J (sup_system sv) nm pid j)"
    using st sa sp by (auto simp: start_fsm_def split: prod.splits)
  with pid_supply.spawn_fresh [OF J sp] pid_supply.register_used [OF J]
  show ?thesis unfolding n' by (intro host_ticks [where J = J and sv = sv]) (use inv names in auto)
next
  case (nt_spawn dflt nm fsm p strategy intensity res env)
  with spawn_supervised_env(1) [OF J nt_spawn(2)] show ?thesis by (intro ticks_update [OF inv]) simp_all
next
  case (nt_child nm dflt p)
  obtain pid j where sp: "j_spawn J (sup_system sv) (supervised_child sv nm dflt p) (se_system (nt_env n)) = (pid, j)" by fastforce
  with nt_child have n': "n' = host pid (supervised_child sv nm dflt p) ((nt_env n)\<lparr>se_system := j\<rparr>) (noted nm n)"
    by (simp add: net_child_def)
  from pid_supply.spawn_fresh [OF J sp] show ?thesis
    unfolding n' by (intro host_ticks [where J = J and sv = sv]) (use inv names in auto)
next
  case (nt_transition nm ev ep res)
  then show ?thesis by (intro net_send_ticks [OF J inv, of sv nm "TransitionMsg ev ep" res n']) (simp add: net_transition_def)
next
  case (nt_shutdown nm res)
  then show ?thesis by (intro net_send_ticks [OF J inv, of sv nm ShutdownMsg res n']) (simp add: net_shutdown_def)
next
  case (nt_outside env)
  then show ?thesis by (intro ticks_update [OF inv]) simp_all
next
  case (nt_boot pid)
  then show ?thesis
  proof (rule net_bootE)
    fix h a' en' s
    assume h: "nt_live n pid = Some h" "\<not> h_started h" and s: "s = after_handler (nt_sys n) pid (a', en')"
      and run: "started F D pid (h_actor h) (hosted_env (nt_sys n) h) = Some (a', en')"
      and n': "n' = with_sys (s\<lparr>sy_env := (sy_env s)\<lparr>se_system := perform J (en_requests en') (se_system (sy_env s))\<rparr>\<rparr>) n"
    have r0: "en_requests (hosted_env (nt_sys n) h) = []" using names_invD(6) [OF names h] by (simp add: hosted_env_def)
    from run obtain qs where qs: "en_requests en' = qs" "\<forall>q\<in>set qs. reg_ok (fa_name (h_actor h)) pid q"
      "asked_ticks qs = tick_limit (h_actor h)"
      by (rule started_asks) (use r0 in auto)
    have "tick_limit a' = tick_limit (h_actor h)" using started_name [OF run] by (simp add: tick_limit_def)
    with ticks_invD(2) [OF inv h(1)] h qs
    have "tick_ok \<lparr>h_actor = a', h_requests = qs, h_started = True\<rparr> (nt_boxes n pid) (nt_ticks n pid)"
      by (auto simp: tick_ok_def count_list_0_iff)
    with n' s qs(1) pid_supply.perform_keeps(1) [OF J qs(2)] show ?thesis
      by (intro ticks_update [OF inv]) (auto split: if_splits)
  qed
next
  case (nt_handle pid)
  then show ?thesis
  proof (rule net_handleE)
    fix h l ls a' en'
    assume h: "nt_live n pid = Some h" and box: "nt_boxes n pid = l # ls" and up: "h_started h"
      and run: "handle_message F D pid (letter_message l) (h_actor h) (hosted_env (nt_sys n) h) = Some (a', en')"
      and n': "n' = (with_sys (after_handler (nt_sys n) pid (a', en')) n)\<lparr>nt_boxes := (nt_boxes n)(pid := ls)\<rparr>"
    have l: "letter_ok (fa_name (h_actor h)) l" using names_invD(5) [OF names _ h, of l] box by simp
    from ticks_invD(2) [OF inv h] box have ok: "tick_ok h (l # ls) (nt_ticks n pid)" by simp
    have "tick_ok \<lparr>h_actor = a', h_requests = en_requests en', h_started = True\<rparr> ls (nt_ticks n pid)"
      by (rule tick_ok_handled [OF ok up l run]) (simp add: hosted_env_def)
    with n' show ?thesis by (intro ticks_update [OF inv]) (auto split: if_splits)
  qed
next
  case (nt_tick pid)
  then show ?thesis
  proof (rule net_tickE)
    fix h assume h: "nt_live n pid = Some h" "nt_ticks n pid < asked_ticks (h_requests h)" and sys: "nt_sys n' = nt_sys n"
      and n': "nt_boxes n' = (nt_boxes n)(pid := nt_boxes n pid @ [Tick])" "nt_ticks n' = (nt_ticks n)(pid := Suc (nt_ticks n pid))"
    have "tick_ok h (nt_boxes n pid @ [Tick]) (Suc (nt_ticks n pid))"
      using ticks_invD(2) [OF inv h(1)] h(2) by (auto simp: tick_ok_def)
    with names_invD(1) [OF names h(1)] h(1) sys n' show ?thesis
      by (intro ticks_update [OF inv]) auto
  qed
next
  case (nt_stop pid)
  then show ?thesis by (rule net_stopE, intro ticks_update [OF inv]) (auto split: if_splits)
next
  case (nt_crash pid h env)
  then show ?thesis by (intro ticks_update [OF inv]) (auto split: if_splits)
qed

lemma net_reach_ticks:
  assumes J: "pid_supply J used" and reach: "net_reach J used D F sv n"
  shows "ticks_inv used n"
  using reach
proof (induction rule: net_reach.induct)
  case (net_new j w)
  show ?case by (simp add: ticks_inv_def network_new_def system_new_def)
next
  case (net_next n n')
  from net_step_ticks [OF J net_next.hyps(2) net_reach_names [OF J net_next.hyps(1)] net_next.IH] show ?case .
qed

text \<open>An accepted message goes to the end of the mailbox of the actor the name leads to.\<close>

lemma net_send_enqueues:
  assumes "net_send J sv nm msg n = (Inr (), n')" "resolve_pid J sv nm (nt_env n) = Inr pid"
  shows "nt_boxes n' = (nt_boxes n)(pid := nt_boxes n pid @ [Sent nm msg])" "nt_live n' = nt_live n"
    "se_cache (nt_env n') = se_cache (nt_env n)"
  using assms by (auto simp: net_send_def send_to_def split: sum.splits prod.splits)

lemma resolve_leads: "resolve_pid J sv nm env = Inr pid \<Longrightarrow> leads J sv env nm pid"
  by (auto simp: resolve_pid_def leads_def split: option.splits)

subsection \<open>A scheduler\<close>

text \<open>
  What an actor does next, if it is left to itself: it comes up, stops if it has asked to, takes a
  letter, or is given its tick when it has none. Rounds of it are runs of the network.
\<close>

definition actor_round ::
    "('j, ('f, 'w, 's, 'e, 'p) FsmActor, ('e, 'p) Message, 'spec) Joerl \<Rightarrow> ('m, 's, 'p) cache_map \<Rightarrow>
     ('f, 'w, 's, 'e, 'p) Finitomata \<Rightarrow> Pid \<Rightarrow>
     ('f, 'm, 'w, 's, 'e, 'p, 'j) network \<Rightarrow> ('f, 'm, 'w, 's, 'e, 'p, 'j) network option" where
  "actor_round J D F pid n =
     (case nt_live n pid of
        None \<Rightarrow> Some n
      | Some h \<Rightarrow>
          if \<not> h_started h then net_boot J D F pid n
          else if ReqStopNormal \<in> set (h_requests h) then net_stop D F pid n
          else if nt_boxes n pid \<noteq> [] then net_handle D F pid n
          else (case net_tick pid n of None \<Rightarrow> Some n | Some n' \<Rightarrow> Some n'))"

fun actor_rounds ::
    "('j, ('f, 'w, 's, 'e, 'p) FsmActor, ('e, 'p) Message, 'spec) Joerl \<Rightarrow> ('m, 's, 'p) cache_map \<Rightarrow>
     ('f, 'w, 's, 'e, 'p) Finitomata \<Rightarrow> Pid list \<Rightarrow>
     ('f, 'm, 'w, 's, 'e, 'p, 'j) network \<Rightarrow> ('f, 'm, 'w, 's, 'e, 'p, 'j) network option" where
  "actor_rounds J D F [] n = Some n"
| "actor_rounds J D F (pid # pids) n =
     (case actor_round J D F pid n of None \<Rightarrow> None | Some n' \<Rightarrow> actor_rounds J D F pids n')"

lemma actor_round_step:
  "actor_round J D F pid n = Some n' \<Longrightarrow> n' = n \<or> net_step J used D F sv n n'"
  by (auto simp: actor_round_def split: option.splits if_splits intro: nt_boot nt_stop nt_handle nt_tick)

lemma actor_rounds_steps:
  "actor_rounds J D F pids n = Some n' \<Longrightarrow> rtranclp (net_step J used D F sv) n n'"
proof (induction pids arbitrary: n)
  case (Cons pid pids)
  then obtain n1 where r: "actor_round J D F pid n = Some n1" "actor_rounds J D F pids n1 = Some n'"
    by (auto split: option.splits)
  from actor_round_step [OF r(1), of used sv] Cons.IH [OF r(2)] show ?case
    by (auto intro: converse_rtranclp_into_rtranclp)
qed simp

end
