(* ===== verification/Fsm_Mailbox.thy ===== *)
theory Fsm_Mailbox
  imports Fsm_Network
begin

section \<open>Serving a mailbox\<close>

text \<open>
  What becomes of the letters in the mailbox of one actor when its handlers run one after the other:
  each returns if hard events cannot cycle, and the actor works off what is before a letter unless
  one of the letters makes it ask to be stopped.
\<close>

subsection \<open>Handlers return\<close>

lemma handle_message_returns:
  assumes "graph_inv (fa_graph a)" "hard_acyclic (fa_graph a)"
  shows "handle_message F D pid msg a en \<noteq> None"
proof (cases msg)
  case (TransitionMsg ev ep)
  with do_transition_returns [OF assms] show ?thesis by (simp add: handle_message_def)
next
  case TimerTickMsg
  obtain res f p w where
    ti: "on_timer F (current (fa_state a)) (fa_fsm a, payload (fa_state a), en_world en) = (res, f, p, w)"
    using prod_cases4 by blast
  let ?a = "a\<lparr>fa_fsm := f, fa_state := (fa_state a)\<lparr>payload := p\<rparr>\<rparr>"
  have "do_transition F D ?a ev ep (en\<lparr>en_world := w\<rparr>) \<noteq> None" for ev ep
    by (rule do_transition_returns) (use assms in simp_all)
  with TimerTickMsg ti show ?thesis
    by (simp add: handle_message_def handle_timer_tick_def Let_def split: option.split prod.split)
qed (simp_all add: handle_message_def split: prod.split)

subsection \<open>An event and the hard events after it\<close>

text \<open>
  One event takes the machine a step; a completed hard transition into a state with hard events
  fires the first of them next, and so on until there is none or a step does not go on.
\<close>

inductive hard_chain :: "('s, 'e) TransitionGraph \<Rightarrow> bool \<Rightarrow> ('s, 'p) FsmState \<Rightarrow> 'e \<Rightarrow> ('s, 'p) FsmState \<Rightarrow> bool"
  for g auto where
  chain_last: "fsm_step g auto st ev r st' \<Longrightarrow> r = Inr HardContinue \<longrightarrow> hard_event g (current st') = None \<Longrightarrow>
     hard_chain g auto st ev st'"
| chain_more: "fsm_step g auto st ev (Inr HardContinue) st1 \<Longrightarrow> hard_event g (current st1) = Some evt \<Longrightarrow>
     hard_chain g auto st1 evt st' \<Longrightarrow> hard_chain g auto st ev st'"

lemma do_transition_hard_chain:
  "do_transition F D a ev ep en = Some (b, en2) \<Longrightarrow>
     hard_chain (fa_graph a) (fa_auto_terminate a) (fa_state a) ev (fa_state b)"
proof (induction rule: do_transition_induct)
  case (Last a ev ep en r a' en')
  note tr = turn_result [OF Last(1)]
  from tr(2) show ?case
    by (rule chain_last) (use Last(2) tr(1) in \<open>auto simp: chain_next_def same_config_def split: if_splits\<close>)
next
  case (Chain a ev ep en a' en' evt b en2)
  note tr = turn_result [OF Chain.hyps(1)]
  from tr(2) show ?case
    by (rule chain_more [where evt = evt]) (use Chain.hyps(2) Chain.IH tr(1) in \<open>simp_all add: same_config_def\<close>)
qed

subsection \<open>Handlers one after the other\<close>

fun net_handles ::
    "('m, 's, 'p) cache_map \<Rightarrow> ('f, 'w, 's, 'e, 'p) Finitomata \<Rightarrow> Pid \<Rightarrow> nat \<Rightarrow>
     ('f, 'm, 'w, 's, 'e, 'p, 'j) network \<Rightarrow> ('f, 'm, 'w, 's, 'e, 'p, 'j) network option" where
  "net_handles D F pid 0 n = Some n"
| "net_handles D F pid (Suc k) n =
     (case net_handle D F pid n of None \<Rightarrow> None | Some n' \<Rightarrow> net_handles D F pid k n')"

lemma net_handles_steps:
  "net_handles D F pid k n = Some n' \<Longrightarrow> rtranclp (net_step J used D F sv) n n'"
proof (induction k arbitrary: n)
  case (Suc k)
  then obtain n1 where h: "net_handle D F pid n = Some n1" "net_handles D F pid k n1 = Some n'"
    by (auto split: option.splits)
  from Suc.IH [OF h(2)] nt_handle [OF h(1)] show ?case by (metis converse_rtranclp_into_rtranclp)
qed simp

text \<open>The actor is still there and has gone on, and nobody else has changed in the cache.\<close>

definition served :: "('m, 's, 'p) cache_map \<Rightarrow> Pid \<Rightarrow> ('f, 'm, 'w, 's, 'e, 'p, 'j) network \<Rightarrow> ('f, 'w, 's, 'e, 'p) hosted \<Rightarrow>
    ('f, 'm, 'w, 's, 'e, 'p, 'j) network \<Rightarrow> ('f, 'w, 's, 'e, 'p) hosted \<Rightarrow> bool" where
  "served D pid n h n' h' \<longleftrightarrow> nt_live n' pid = Some h' \<and> h_started h' \<and> runs_to (h_actor h) (h_actor h') \<and>
     (\<forall>other. other \<noteq> name (fa_state (h_actor h)) \<longrightarrow> sup_state D other (nt_env n') = sup_state D other (nt_env n))"

lemma runs_to_same:
  "runs_to a b \<Longrightarrow> fa_graph b = fa_graph a \<and> fa_auto_terminate b = fa_auto_terminate a \<and> name (fa_state b) = name (fa_state a)"
  by (auto simp: runs_to_def same_config_def dest: fsm_run_frame)

lemma served_trans: "served D pid n h n1 h1 \<Longrightarrow> served D pid n1 h1 n2 h2 \<Longrightarrow> served D pid n h n2 h2"
  using runs_to_same [of "h_actor h" "h_actor h1"] by (auto simp: served_def intro: runs_to_trans)

lemma served_refl: "nt_live n pid = Some h \<Longrightarrow> h_started h \<Longrightarrow> served D pid n h n h"
  by (simp add: served_def)

lemma letter_served:
  assumes "state_cache D" "nt_live n pid = Some h" "h_started h" "ReqStopNormal \<notin> set (h_requests h)"
    and "nt_boxes n pid = l # ls" "graph_inv (fa_graph (h_actor h))" "hard_acyclic (fa_graph (h_actor h))"
  shows "\<exists>n' a' en'. net_handle D F pid n = Some n' \<and> nt_boxes n' pid = ls \<and>
    handle_message F D pid (letter_message l) (h_actor h) (hosted_env (nt_sys n) h) = Some (a', en') \<and>
    en_cache en' = se_cache (nt_env n') \<and>
    served D pid n h n' \<lparr>h_actor = a', h_requests = en_requests en', h_started = True\<rparr>"
proof -
  obtain a' en' where run:
    "handle_message F D pid (letter_message l) (h_actor h) (hosted_env (nt_sys n) h) = Some (a', en')"
    using handle_message_returns [OF assms(6,7)] by fastforce
  let ?n' = "(with_sys (after_handler (nt_sys n) pid (a', en')) n)\<lparr>nt_boxes := (nt_boxes n)(pid := ls)\<rparr>"
  have "net_handle D F pid n = Some ?n'" using assms(2-5) run by (simp add: net_handle_def)
  moreover have "sup_state D other (nt_env ?n') = sup_state D other (nt_env n)"
    if "other \<noteq> name (fa_state (h_actor h))" for other
    using state_cache.handle_message_told [OF assms(1) run] that
    by (auto simp: told_def sup_state_def hosted_env_def after_handler_def)
  moreover have "nt_live ?n' pid = Some \<lparr>h_actor = a', h_requests = en_requests en', h_started = True\<rparr>"
    by (simp add: after_handler_def)
  ultimately show ?thesis using run handle_message_runs_to [OF run]
    by (intro exI [of _ ?n'] exI [of _ a'] exI [of _ en']) (simp add: served_def after_handler_def)
qed

lemma backlog_served:
  assumes "state_cache D" "nt_live n pid = Some h" "h_started h" "ReqStopNormal \<notin> set (h_requests h)"
    and "nt_boxes n pid = ls @ rest" "graph_inv (fa_graph (h_actor h))" "hard_acyclic (fa_graph (h_actor h))"
  shows "\<exists>k n' h'. k \<le> length ls \<and> net_handles D F pid k n = Some n' \<and> served D pid n h n' h' \<and>
    nt_boxes n' pid = drop k ls @ rest \<and> (ReqStopNormal \<in> set (h_requests h') \<or> k = length ls)"
  using assms(2-)
proof (induction ls arbitrary: n h)
  case Nil
  then show ?case using served_refl by (intro exI [of _ 0]) fastforce
next
  case (Cons l ls)
  from letter_served [OF assms(1) Cons.prems(1-3) _ Cons.prems(5,6), of l "ls @ rest" F] Cons.prems(4)
  obtain n1 h1 where n1: "net_handle D F pid n = Some n1" "nt_boxes n1 pid = ls @ rest" "served D pid n h n1 h1" by auto
  show ?case
  proof (cases "ReqStopNormal \<in> set (h_requests h1)")
    case True
    with n1 show ?thesis by (intro exI [of _ 1] exI [of _ n1] exI [of _ h1]) simp
  next
    case False
    have live: "nt_live n1 pid = Some h1" "h_started h1" "runs_to (h_actor h) (h_actor h1)"
      using n1(3) by (simp_all add: served_def)
    with Cons.prems runs_to_same have "graph_inv (fa_graph (h_actor h1))" "hard_acyclic (fa_graph (h_actor h1))" by metis+
    from Cons.IH [OF live(1,2) False n1(2) this] obtain k n' h' where
      "k \<le> length ls" "net_handles D F pid k n1 = Some n'" "served D pid n1 h1 n' h'" "nt_boxes n' pid = drop k ls @ rest"
      "ReqStopNormal \<in> set (h_requests h') \<or> k = length ls" by blast
    with n1 served_trans [OF n1(3)] show ?thesis by (intro exI [of _ "Suc k"] exI [of _ n'] exI [of _ h']) simp
  qed
qed

text \<open>An event whose turn has come.\<close>

lemma event_served:
  assumes "state_cache D" "nt_live n pid = Some h" "h_started h" "ReqStopNormal \<notin> set (h_requests h)"
    and "nt_boxes n pid = Sent nm (TransitionMsg ev ep) # ls"
    and "graph_inv (fa_graph (h_actor h))" "hard_acyclic (fa_graph (h_actor h))" "name (fa_state (h_actor h)) = nm"
  shows "\<exists>n' h'. net_handle D F pid n = Some n' \<and> nt_boxes n' pid = ls \<and> served D pid n h n' h' \<and>
    sup_state D nm (nt_env n') = Some (fa_state (h_actor h')) \<and>
    hard_chain (fa_graph (h_actor h)) (fa_auto_terminate (h_actor h)) (fa_state (h_actor h)) ev (fa_state (h_actor h'))"
proof -
  let ?a = "h_actor h" and ?en = "hosted_env (nt_sys n) h"
  obtain n' a2 en2 where n': "net_handle D F pid n = Some n'" "nt_boxes n' pid = ls"
    "handle_message F D pid (TransitionMsg ev ep) ?a ?en = Some (a2, en2)" "en_cache en2 = se_cache (nt_env n')"
    "served D pid n h n' \<lparr>h_actor = a2, h_requests = en_requests en2, h_started = True\<rparr>"
    using letter_served [OF assms(1-7), of F] by (auto simp: letter_message_def)
  then have dt: "do_transition F D ?a ev ep ?en = Some (a2, en2)" by (simp add: handle_message_def)
  have "sup_state D nm (nt_env n') = Some (fa_state a2)"
    using state_cache.do_transition_cache [OF assms(1) dt, of nm] assms(8) n'(4) by (simp add: sup_state_def)
  with n' do_transition_hard_chain [OF dt] show ?thesis
    by (intro exI [of _ n'] exI [of _ "\<lparr>h_actor = a2, h_requests = en_requests en2, h_started = True\<rparr>"]) simp
qed

end
