(* ===== verification/Fsm_Rejoin.thy ===== *)
theory Fsm_Rejoin
  imports Fsm_Mailbox
begin

section \<open>A child that comes back\<close>

text \<open>
  A supervised child from the moment \<open>joerl\<close> spawns it, for the first time or after a crash, until it
  is up: it recovers from the backend, takes over its name, and is where its hard events lead.
\<close>

lemma started_returns:
  assumes "graph_inv (fa_graph a)" "hard_acyclic (fa_graph a)"
  shows "started F D pid a en \<noteq> None"
proof -
  obtain b en1 where sr: "started_recover F D pid a en = (b, en1)" by fastforce
  then have "fa_graph b = fa_graph a" using started_recover_result(1) [OF sr] by (simp add: same_config_def)
  with do_transition_returns [of b F D] assms sr show ?thesis
    by (auto simp: started_def split: option.split)
qed

text \<open>Where an FSM that comes up in a state is led by the hard events.\<close>

definition comes_to :: "('s, 'e) TransitionGraph \<Rightarrow> bool \<Rightarrow> ('s, 'p) FsmState \<Rightarrow> ('s, 'p) FsmState \<Rightarrow> bool" where
  "comes_to g auto st st' \<longleftrightarrow>
     (case hard_event g (current st) of None \<Rightarrow> st' = st | Some evt \<Rightarrow> hard_chain g auto st evt st')"

text \<open>What \<open>started\<close> does to a child that finds an entry, whether or not a hard event follows.\<close>

lemma child_recovers:
  assumes P: "sup_persistency sv = Some P" "load P nm (en_world en) = (Inr (Some (lc, s, q)), w)"
    and D: "state_cache D" and run: "started F D pid (supervised_child sv nm dflt p) en = Some (a', en')"
  obtains st qs rs where "name st = nm" "current st = s" "lifecycle st = Running"
    "comes_to (sup_graph sv) (sup_auto_terminate sv) st (fa_state a')" "fa_name a' = nm"
    "\<forall>other. StateCache_get D (en_cache en') other =
       (if other = nm then Some (fa_state a') else StateCache_get D (en_cache en) other)"
    "en_requests en' = en_requests en @ [ReqUnregister (sup_system sv) nm, ReqRegister (sup_system sv) nm pid] @ rs"
    "set rs \<subseteq> {ReqStopNormal} \<union> range (ReqSendTick pid)"
proof -
  let ?a = "supervised_child sv nm dflt p"
  obtain b en1 where r: "recover F D s q ?a (en\<lparr>en_world := w\<rparr>) = (b, en1)" by fastforce
  note rr = recover_result [OF r]
  let ?en1 = "env_request (ReqRegister (sup_system sv) nm pid) (env_request (ReqUnregister (sup_system sv) nm) en1)"
  let ?en2 = "case fa_timer_interval b of None \<Rightarrow> ?en1 | Some i \<Rightarrow> env_request (ReqSendTick pid i) ?en1"
  have sr: "started_recover F D pid ?a en = (b, ?en1)" by (simp add: started_recover_child [OF P] r)
  have cfg: "fa_graph b = sup_graph sv" "fa_auto_terminate b = sup_auto_terminate sv" "fa_name b = nm" "fa_name ?a = nm"
    using rr(1) by (simp_all add: same_config_def supervised_child_def)
  note st = fresh_running_simps [OF rr(2), unfolded cfg(4)]
  have q2: "\<exists>ts. en_requests ?en2 = en_requests en @ [ReqUnregister (sup_system sv) nm, ReqRegister (sup_system sv) nm pid] @ ts \<and>
      set ts \<subseteq> range (ReqSendTick pid)"
    using rr(4) by (auto simp: split: option.split)
  have c2: "StateCache_get D (en_cache ?en2) other =
      (if other = nm then Some (fa_state b) else StateCache_get D (en_cache en) other)" for other
    using rr(3) st by (auto simp: state_cache.get_update [OF D] split: option.split)
  show thesis
  proof (cases "hard_event (fa_graph b) (current (fa_state b))")
    case None
    with run sr have "a' = b \<and> en' = ?en2" by (auto simp: started_def)
    moreover from this None cfg(1) have "comes_to (sup_graph sv) (sup_auto_terminate sv) (fa_state b) (fa_state a')"
      by (simp add: comes_to_def)
    ultimately show thesis using q2 c2 st cfg that [of "fa_state b"] by blast
  next
    case (Some evt)
    with run sr have dt: "do_transition F D b evt (payload (fa_state b)) ?en2 = Some (a', en')" by (simp add: started_def)
    from q2 obtain ts where ts: "en_requests ?en2 =
        en_requests en @ [ReqUnregister (sup_system sv) nm, ReqRegister (sup_system sv) nm pid] @ ts"
      "set ts \<subseteq> range (ReqSendTick pid)" by blast
    obtain rs where rs: "en_requests en' = en_requests ?en2 @ rs" "set rs \<subseteq> {ReqStopNormal}"
      by (rule do_transition_asks [OF dt]) (rule that)
    have "StateCache_get D (en_cache en') other =
        (if other = nm then Some (fa_state a') else StateCache_get D (en_cache en) other)" for other
      using state_cache.do_transition_cache [OF D dt, of other] c2 st by simp
    moreover have "fa_name a' = nm" using do_transition_run(1) [OF dt] cfg by (simp add: same_config_def)
    moreover have "comes_to (sup_graph sv) (sup_auto_terminate sv) (fa_state b) (fa_state a')"
      using do_transition_hard_chain [OF dt] Some cfg(1,2) by (simp add: comes_to_def)
    moreover have "set (ts @ rs) \<subseteq> {ReqStopNormal} \<union> range (ReqSendTick pid)" using ts(2) rs(2) by auto
    moreover have "en_requests en' = en_requests en @
        [ReqUnregister (sup_system sv) nm, ReqRegister (sup_system sv) nm pid] @ ts @ rs" using ts rs by simp
    ultimately show thesis using st by (intro that [of "fa_state b" "ts @ rs"]) simp_all
  qed
qed

subsection \<open>The registrations\<close>

lemma perform_append: "perform J (xs @ ys) j = perform J ys (perform J xs j)"
  by (induction J xs j rule: perform.induct) simp_all

lemma perform_other: "set rs \<subseteq> {ReqStopNormal} \<union> range (ReqSendTick pid) \<Longrightarrow> perform J rs j = j"
  by (induction rs) auto

text \<open>In a network, the child is new: no letter is waiting for its pid.\<close>

lemma fresh_box: "names_inv J used sv n \<Longrightarrow> pid \<notin> used (se_system (nt_env n)) \<Longrightarrow> nt_boxes n pid = []"
  using names_invD(4) [of J used sv n _ pid] by (cases "nt_boxes n pid") auto

lemma child_rejoins:
  assumes J: "pid_supply J used" and inv: "names_inv J used sv n" and D: "state_cache D"
    and sp: "j_spawn J (sup_system sv) (supervised_child sv nm dflt p) (se_system (nt_env n)) = (pid, j)"
    and P: "sup_persistency sv = Some P" "load P nm (se_world (nt_env n)) = (Inr (Some (lc, s, q)), w)"
    and g: "graph_inv (sup_graph sv)" "hard_acyclic (sup_graph sv)"
  shows "\<exists>n2 h2 st. net_boot J D F pid (net_child J sv nm dflt p n) = Some n2 \<and> nt_live n2 pid = Some h2 \<and>
    h_started h2 \<and> fa_name (h_actor h2) = nm \<and> nt_boxes n2 pid = [] \<and>
    se_system (nt_env n2) = snd (j_register J (sup_system sv) nm pid (snd (j_unregister J (sup_system sv) nm j))) \<and>
    se_actors (nt_env n2) = se_actors (nt_env n) \<and>
    (\<forall>other. sup_state D other (nt_env n2) =
       (if other = nm then Some (fa_state (h_actor h2)) else sup_state D other (nt_env n))) \<and>
    current st = s \<and> lifecycle st = Running \<and>
    comes_to (sup_graph sv) (sup_auto_terminate sv) st (fa_state (h_actor h2))"
proof -
  let ?a = "supervised_child sv nm dflt p" and ?n1 = "net_child J sv nm dflt p n"
  let ?h = "\<lparr>h_actor = ?a, h_requests = [], h_started = False\<rparr>"
  have n1: "?n1 = host pid ?a ((nt_env n)\<lparr>se_system := j\<rparr>) n" using sp by (simp add: net_child_def)
  let ?en = "hosted_env (nt_sys ?n1) ?h"
  have en: "en_world ?en = se_world (nt_env n)" "en_cache ?en = se_cache (nt_env n)" "en_requests ?en = []"
    by (simp_all add: hosted_env_def n1 host_def)
  have "graph_inv (fa_graph ?a)" "hard_acyclic (fa_graph ?a)" using g by (simp_all add: supervised_child_def)
  then obtain a' en' where run: "started F D pid ?a ?en = Some (a', en')" using started_returns by fastforce
  obtain st rs where r: "name st = nm" "current st = s" "lifecycle st = Running" "fa_name a' = nm"
    "comes_to (sup_graph sv) (sup_auto_terminate sv) st (fa_state a')"
    "\<forall>other. StateCache_get D (en_cache en') other =
       (if other = nm then Some (fa_state a') else StateCache_get D (en_cache ?en) other)"
    "en_requests en' = en_requests ?en @ [ReqUnregister (sup_system sv) nm, ReqRegister (sup_system sv) nm pid] @ rs"
    "set rs \<subseteq> {ReqStopNormal} \<union> range (ReqSendTick pid)"
    by (rule child_recovers [OF P(1) _ D run, of lc s q w]) (use P(2) en in auto)
  let ?s = "after_handler (nt_sys ?n1) pid (a', en')"
  let ?n2 = "with_sys (?s\<lparr>sy_env := (sy_env ?s)\<lparr>se_system := perform J (en_requests en') (se_system (sy_env ?s))\<rparr>\<rparr>) ?n1"
  have boot: "net_boot J D F pid ?n1 = Some ?n2"
    using run by (simp add: net_boot_def n1 Let_def)
  have "perform J (en_requests en') j = snd (j_register J (sup_system sv) nm pid (snd (j_unregister J (sup_system sv) nm j)))"
    using r(7) en(3) perform_other [OF r(8)] by (simp add: perform_append)
  moreover have "se_system (sy_env ?s) = j" "se_actors (sy_env ?s) = se_actors (nt_env n)" by (simp_all add: n1)
  moreover have "pid \<notin> used (se_system (nt_env n))" using pid_supply.spawn_fresh [OF J sp] by simp
  then have "nt_boxes ?n2 pid = []" using fresh_box [OF inv] by (simp add: n1)
  moreover have "sup_state D other (nt_env ?n2) = (if other = nm then Some (fa_state a') else sup_state D other (nt_env n))" for other
    using r(6) en(2) by (simp add: sup_state_def after_handler_def)
  moreover have "nt_live ?n2 pid = Some \<lparr>h_actor = a', h_requests = en_requests en', h_started = True\<rparr>"
    by (simp add: after_handler_def)
  ultimately show ?thesis using boot r
    by (intro exI [of _ ?n2] exI [of _ "\<lparr>h_actor = a', h_requests = en_requests en', h_started = True\<rparr>"] exI [of _ st]) simp
qed

end
