(* ===== verification/Props_Restart.thy ===== *)
theory Props_Restart
  imports Fsm_Restart Fsm_Rejoin Props_System
begin

section \<open>Properties of crashes and restarts\<close>

text \<open>
  What a supervisor with a persistence backend promises across crashes and restarts. The
  witnesses are a machine that is started, brought up, moved and crashed.
\<close>

subsection \<open>A concrete run\<close>

abbreviation tree_joerl :: "((test_event, test_payload) Message test_system,
    (unit, (string, (test_state, test_payload) persisted) fmap, test_state, test_event, test_payload) FsmActor,
    (test_event, test_payload) Message, (unit, unit, (unit, (string, (test_state, test_payload) persisted) fmap,
      test_state, test_event, test_payload) FsmActor) ChildTree) Joerl" where
  "tree_joerl \<equiv> test_joerl"

abbreviation test_memory :: "(string, (test_state, test_payload) persisted) fmap \<Rightarrow> string \<Rightarrow>
    (test_state, test_payload) persisted option" where
  "test_memory \<equiv> dm_get fmap_dash_map"

abbreviation test_durable_step where
  "test_durable_step \<equiv> durable_step tree_joerl fmap_dash_map TestFsm test_sup test_memory"

abbreviation test_durable_reach where
  "test_durable_reach \<equiv> durable_reach tree_joerl fmap_dash_map TestFsm test_sup test_memory"

lemma test_sup_listener [simp]: "sup_listener test_sup = None"
  by (simp add: test_sup_def with_persistency_def FinitomataSupervisor_new_def)

interpretation test_durable: durable "InMemoryPersistency fmap_dash_map" test_memory TestFsm test_sup
  by unfold_locales (simp_all add: TestFsm_keeps listener_keeps_def)

text \<open>One turn of the test machine over the backend.\<close>

lemma test_turn_stores:
  assumes "child_of test_sup a" "current (fa_state a) = StIdle"
    and t: "turn TestFsm fmap_dash_map a EvStart 0 en = (r, a', en')"
  shows "r = Inr Transitioned" "current (fa_state a') = StRunning" "same_config a a'"
proof -
  have "fa_graph a = test_graph" "fa_persistency a = Some (InMemoryPersistency fmap_dash_map)" "fa_listener a = None"
    using assms(1) by (simp_all add: child_of_def)
  with assms(2) t have "r = Inr Transitioned \<and> current (fa_state a') = StRunning"
    by (auto simp: turn_def transit_def transit_target_def transit_commit_def actor_ctx_def Let_def run_hook_def
        clear_error_def transition_to_def is_final_def InMemoryPersistency_def)
  then show "r = Inr Transitioned" "current (fa_state a') = StRunning" by simp_all
  show "same_config a a'" by (rule turn_result(1) [OF t])
qed

text \<open>A machine is started and brought up; then it is moved by \<open>Start\<close>, or crashes while it handles it.\<close>

lemma test_durable_started:
  "\<exists>s pid h. test_durable_reach s \<and> sy_shared s = {} \<and> sy_live s pid = Some h \<and> h_started h \<and> h_requests h = [] \<and>
     fa_name (h_actor h) = ''fsm'' \<and> current (fa_state (h_actor h)) = StIdle"
proof -
  obtain s0 :: "(unit, (string, (test_state, test_payload) FsmState) fmap,
    (string, (test_state, test_payload) persisted) fmap, test_state, test_event, test_payload,
    (test_event, test_payload) Message test_system) fsm_system" where
    s0: "s0 = system_new fmap_dash_map fmempty (Map.empty, 1, [], [])" by blast
  obtain actor cache w where
    sa: "start_actor fmap_dash_map TestFsm test_sup ''fsm'' () 0 (sy_env s0) = (actor, cache, w)"
    using prod_cases3 by blast
  obtain pid j1 where sp: "j_spawn tree_joerl (sup_system test_sup) actor (se_system (sy_env s0)) = (pid, j1)"
    by (meson surj_pair)
  obtain res env' where st: "start_fsm tree_joerl fmap_dash_map TestFsm test_sup ''fsm'' () 0 (sy_env s0) = (res, env')"
    by fastforce
  let ?h = "\<lparr>h_actor = actor, h_requests = [], h_started = False\<rparr>"
  obtain s1 where s1: "s1 = s0\<lparr>sy_env := env', sy_live := (sy_live s0)(pid \<mapsto> ?h)\<rparr>" by blast
  have e: "entries_of test_memory s0 = Map.empty"
    by (auto simp: s0 system_new_def sup_env_new_def fmap_dash_map_def)
  have r0: "test_durable_reach s0" unfolding s0
    by (rule durable_new) (simp add: fmap_dash_map_def entry_moves_same)
  have free: "free_name ''fsm'' s0" "sy_live s0 pid = None" "sy_shared s0 = {}"
    by (simp_all add: s0 system_new_def free_name_def)
  have "test_durable_step s0 s1" using dur_start [OF sa sp st free(2)] free(1) s1 by simp
  with r0 have r1: "test_durable_reach s1" by (rule durable_next)
  note a = test_durable.start_actor_entry [OF sa, unfolded e]
  then have c: "child_of test_sup actor" "fa_name actor = ''fsm''" "current (fa_state actor) = StIdle"
    "\<not> fa_recover_on_start actor" "fa_graph actor = test_graph" "fa_timer_interval actor = None"
    using sa by (auto simp: resume_state_def child_of_def start_actor_def Let_def split: prod.splits)
  have l1: "sy_live s1 pid = Some ?h" by (simp add: s1)
  have b: "started TestFsm fmap_dash_map pid (h_actor ?h) (hosted_env s1 ?h) = Some (actor, hosted_env s1 ?h)"
    using c by (simp add: started_def started_recover_def)
  have "test_durable_step s1 (after_handler s1 pid (actor, hosted_env s1 ?h))"
    by (rule dur_boot [OF l1 _ b]) simp
  with r1 have r2: "test_durable_reach (after_handler s1 pid (actor, hosted_env s1 ?h))" by (rule durable_next)
  have "sy_live (after_handler s1 pid (actor, hosted_env s1 ?h)) pid = Some \<lparr>h_actor = actor, h_requests = [], h_started = True\<rparr>"
    by (simp add: hosted_env_def)
  moreover have "sy_shared (after_handler s1 pid (actor, hosted_env s1 ?h)) = {}" using s1 free(3) by simp
  ultimately show ?thesis using r2 c by fastforce
qed

lemma test_durable_moved:
  "\<exists>s s' pid h. test_durable_reach s \<and> test_durable_step s s' \<and> sy_shared s' = {} \<and> sy_live s' pid = Some h \<and> h_started h \<and>
     fa_name (h_actor h) = ''fsm'' \<and> current (fa_state (h_actor h)) = StRunning \<and>
     resume_state test_graph (entries_of test_memory s) ''fsm'' = StIdle"
proof -
  obtain s pid h where s: "test_durable_reach s" "sy_live s pid = Some h" "h_started h" "h_requests h = []"
    "fa_name (h_actor h) = ''fsm''" "current (fa_state (h_actor h)) = StIdle" and sh: "sy_shared s = {}"
    using test_durable_started by blast
  have seat: "child_of test_sup (h_actor h)" "resume_state test_graph (entries_of test_memory s) ''fsm'' = StIdle"
    using durable_invD(2) [OF test_durable.durable_reach_inv [OF s(1)] s(2)] s sh by (simp_all add: seated_def)
  obtain r a' en' where t: "turn TestFsm fmap_dash_map (h_actor h) EvStart 0 (hosted_env s h) = (r, a', en')"
    using prod_cases3 by blast
  note tr = test_turn_stores [OF seat(1) s(6) t]
  have "fa_graph a' = test_graph" "fa_name a' = ''fsm''" using tr(3) seat(1) s(5) by (simp_all add: same_config_def child_of_def)
  with t tr have m: "handle_message TestFsm fmap_dash_map pid (TransitionMsg EvStart 0) (h_actor h) (hosted_env s h) = Some (a', en')"
    by (simp add: handle_message_def do_transition_turn [of _ _ "h_actor h"] chain_next_def chain_end_def)
  have "test_durable_step s (after_handler s pid (a', en'))"
    by (rule dur_message [OF s(2,3) _ m]) (simp add: s(4))
  moreover have "sy_live (after_handler s pid (a', en')) pid = Some \<lparr>h_actor = a', h_requests = en_requests en', h_started = True\<rparr>"
    by simp
  moreover have "sy_shared (after_handler s pid (a', en')) = {}" using sh by simp
  ultimately show ?thesis using s(1) tr \<open>fa_name a' = ''fsm''\<close> seat(2) by fastforce
qed

lemma test_durable_crashed:
  "\<exists>s s' pid. test_durable_reach s \<and> test_durable_step s s' \<and> sy_shared s' = {} \<and>
     sy_live s pid \<noteq> None \<and> sy_live s' pid = None \<and>
     resume_state test_graph (entries_of test_memory s) ''fsm'' = StIdle \<and>
     resume_state test_graph (entries_of test_memory s') ''fsm'' = StRunning"
proof -
  obtain s pid h where s: "test_durable_reach s" "sy_live s pid = Some h" "h_started h" "h_requests h = []"
    "fa_name (h_actor h) = ''fsm''" "current (fa_state (h_actor h)) = StIdle" and sh: "sy_shared s = {}"
    using test_durable_started by blast
  have seat: "child_of test_sup (h_actor h)" "resume_state test_graph (entries_of test_memory s) ''fsm'' = StIdle"
    using durable_invD(2) [OF test_durable.durable_reach_inv [OF s(1)] s(2)] s sh by (simp_all add: seated_def)
  let ?a = "h_actor h" and ?w = "se_world (sy_env s)"
  let ?w' = "fmupd ''fsm'' (Running, StRunning, payload (fa_state ?a) + 1) ?w"
  have a: "fa_graph ?a = test_graph" "fa_persistency ?a = Some (InMemoryPersistency fmap_dash_map)" "name (fa_state ?a) = ''fsm''"
    using seat(1) s(5) by (simp_all add: child_of_def)
  have "transit_panics test_memory TestFsm (fa_fsm ?a) test_graph (fa_state ?a) EvStart 0 (actor_ctx ?a) ?w ?w'"
    by (rule after_store [where tos = "[StRunning]" and ?w3.0 = ?w'])
       (auto simp: s a run_hook_def chosen_target_def actor_ctx_def InMemoryPersistency_def fmap_dash_map_def)
  then have "transition_panics test_memory TestFsm fmap_dash_map ?a EvStart 0 (hosted_env s h) ?w'"
    by (intro first_panics) (simp add: a hosted_env_def)
  with s(3) have c: "crash_leaves test_memory TestFsm fmap_dash_map pid h (hosted_env s h) ?w'" by (rule crash_in_transition)
  let ?s' = "s\<lparr>sy_env := (sy_env s)\<lparr>se_cache := se_cache (sy_env s), se_world := ?w'\<rparr>, sy_live := (sy_live s)(pid := None),
    sy_lost := insert (fa_name ?a) (sy_lost s)\<rparr>"
  from c have "test_durable_step s ?s'" by (intro dur_crash [OF s(2)]) simp_all
  moreover have "resume_state test_graph (entries_of test_memory ?s') ''fsm'' = StRunning"
    by (simp add: resume_state_def fmap_dash_map_def)
  moreover have "sy_live ?s' pid = None" "sy_shared ?s' = {}" using sh by simp_all
  ultimately show ?thesis using s(1,2) seat(2) by blast
qed

subsection \<open>The life of a name\<close>

text \<open>
  C13: what the backend holds for an FSM moves along the transitions of the graph only, across
  crashes (between two handlers or at any point of one), restarts and everything else the system
  does: it is always in a state that a path of transitions leads to from the initial state, and from
  what it holds at one time a path leads to what it holds at any later time. No restart throws an
  FSM back or puts it beside its graph. This is of a backend that answers its loads, whose failed
  stores store nothing and whose entries only the library writes (the callbacks, the listener and
  the world outside leave them), of entries that fit the graph at the beginning, and of a name that
  has not been started while a live actor had it.
\<close>

theorem restarts_follow_graph:
  assumes "durable P stored F sv" "durable_reach J D F sv stored s"
    and "rtranclp (durable_step J D F sv stored) s s'" "nm \<notin> sy_shared s'"
  shows "(\<exists>p. graph_path (sup_graph sv) (initial (sup_graph sv)) p (resume_state (sup_graph sv) (entries_of stored s) nm)) \<and>
    (\<exists>q. graph_path (sup_graph sv) (resume_state (sup_graph sv) (entries_of stored s) nm) q
       (resume_state (sup_graph sv) (entries_of stored s') nm))"
proof -
  note inv = durable.durable_reach_inv [OF assms(1,2)]
  have later: "durably sv stored s s'" by (rule durable.durable_steps_keep [OF assms(1,3) inv])
  then have "nm \<notin> sy_shared s" using assms(4) by (auto simp: durably_def)
  then have "entry_moves (sup_graph sv) Map.empty (entries_of stored s) nm" by (rule durable_invD(4) [OF inv])
  moreover have "entry_moves (sup_graph sv) (entries_of stored s) (entries_of stored s') nm"
    using later assms(4) by (simp add: durably_def)
  moreover have "resume_state (sup_graph sv) Map.empty nm = initial (sup_graph sv)" by (simp add: resume_state_def)
  ultimately show ?thesis by (metis entry_moves_def)
qed

theorem restarts_follow_graph_witness:
  "\<exists>s s' pid q. test_durable_reach s \<and> test_durable_step s s' \<and> sy_live s pid \<noteq> None \<and> sy_live s' pid = None \<and>
     graph_path test_graph StIdle q StRunning"
proof -
  obtain s s' pid where s: "test_durable_reach s" "test_durable_step s s'" "sy_live s pid \<noteq> None" "sy_live s' pid = None"
    "resume_state test_graph (entries_of test_memory s) ''fsm'' = StIdle"
    "resume_state test_graph (entries_of test_memory s') ''fsm'' = StRunning" and sh: "sy_shared s' = {}"
    using test_durable_crashed by blast
  from s(2) have steps: "rtranclp test_durable_step s s'" ..
  from restarts_follow_graph [OF test_durable.durable_axioms s(1) steps, of "''fsm''"] s sh
  have "\<exists>q. graph_path test_graph StIdle q StRunning" by auto
  with s(1-4) show ?thesis by blast
qed

text \<open>
  C14: no completed transition is lost. Over the backend of C13, and for a name that has not been
  started while a live actor had it, in every reachable system: an actor that is up is in the state
  the backend holds for its name (the initial state, if it holds none). If a child is then started
  for that name with the backend as it is, after a crash between two handlers or a stop: in a state
  without a hard event it comes up, in exactly that state, and leaves the backend alone; in any
  state, if it comes up, it is in a state that a path leads to from there and that the backend
  holds; and it does come up if hard events cannot cycle.
\<close>

theorem restart_resumes:
  assumes "durable P stored F sv" "durable_reach J D F sv stored s"
    and "sy_live s pid = Some h" "h_started h \<or> lifecycle (fa_state (h_actor h)) = Running"
    and "fa_name (h_actor h) \<notin> sy_shared s" "stored (en_world en) = entries_of stored s"
  shows "current (fa_state (h_actor h)) = resume_state (sup_graph sv) (entries_of stored s) (fa_name (h_actor h)) \<and>
    (hard_event (sup_graph sv) (current (fa_state (h_actor h))) = None \<longrightarrow>
      (\<exists>a' en'. started F D' pid' (supervised_child sv (fa_name (h_actor h)) dflt p) en = Some (a', en') \<and>
        current (fa_state a') = current (fa_state (h_actor h)) \<and> stored (en_world en') = entries_of stored s)) \<and>
    (\<forall>a' en'. started F D' pid' (supervised_child sv (fa_name (h_actor h)) dflt p) en = Some (a', en') \<longrightarrow>
      (\<exists>path. graph_path (sup_graph sv) (current (fa_state (h_actor h))) path (current (fa_state a'))) \<and>
      current (fa_state a') = resume_state (sup_graph sv) (stored (en_world en')) (fa_name (h_actor h))) \<and>
    (hard_acyclic (sup_graph sv) \<longrightarrow> started F D' pid' (supervised_child sv (fa_name (h_actor h)) dflt p) en \<noteq> None)"
proof -
  let ?g = "sup_graph sv" and ?nm = "fa_name (h_actor h)"
  let ?a = "supervised_child sv ?nm dflt p"
  have cur: "current (fa_state (h_actor h)) = resume_state ?g (entries_of stored s) ?nm"
    using durable_invD(2) [OF durable.durable_reach_inv [OF assms(1,2)] assms(3,5)] assms(4)
    by (auto simp: seated_def split: if_splits)
  have quiet: "\<exists>a' en'. started F D' pid' ?a en = Some (a', en') \<and>
      current (fa_state a') = current (fa_state (h_actor h)) \<and> stored (en_world en') = entries_of stored s"
    if "hard_event ?g (current (fa_state (h_actor h))) = None"
    using durable.child_comes_up_quietly [OF assms(1), of en ?nm D' pid' dflt p] that cur assms(6) by simp
  have path: "(\<exists>path. graph_path ?g (current (fa_state (h_actor h))) path (current (fa_state a'))) \<and>
      current (fa_state a') = resume_state ?g (stored (en_world en')) ?nm"
    if "started F D' pid' ?a en = Some (a', en')" for a' en'
    using durable.child_moves_on [OF assms(1) that] unfolding cur assms(6) .
  have "started F D' pid' ?a en \<noteq> None" if "hard_acyclic ?g"
    by (rule started_returns) (use that durable.graph [OF assms(1)] in \<open>simp_all add: supervised_child_def\<close>)
  with cur quiet path show ?thesis by blast
qed

theorem restart_resumes_witness:
  "\<exists>s a' en'. test_durable_reach s \<and> started TestFsm fmap_dash_map 9 (supervised_child test_sup ''fsm'' () 0)
      \<lparr>en_cache = fmempty, en_world = se_world (sy_env s), en_requests = []\<rparr> = Some (a', en') \<and>
     current (fa_state a') = StRunning"
proof -
  obtain s0 s pid h where "test_durable_reach s0" "test_durable_step s0 s" "sy_shared s = {}" and
    s: "sy_live s pid = Some h" "h_started h" "fa_name (h_actor h) = ''fsm''" "current (fa_state (h_actor h)) = StRunning"
    using test_durable_moved by blast
  then have r: "test_durable_reach s" "fa_name (h_actor h) \<notin> sy_shared s" by (auto intro: durable_next)
  from restart_resumes [OF test_durable.durable_axioms r(1) s(1) _ r(2), of
      "\<lparr>en_cache = fmempty, en_world = se_world (sy_env s), en_requests = []\<rparr>" fmap_dash_map 9 "()" 0] s r
  show ?thesis by auto
qed

end
