(* ===== verification/Props_Network.thy ===== *)
theory Props_Network
  imports Fsm_Rejoin Props_System
begin

section \<open>Properties of names, mailboxes and timers\<close>

text \<open>
  What becomes of a message or a tick on its way to an actor. The witnesses are a network in which
  the test machine has been started and brought up.
\<close>

subsection \<open>A concrete network\<close>

abbreviation letter_joerl :: "((test_event, test_payload) Message test_system,
    (unit, (string, (test_state, test_payload) persisted) fmap, test_state, test_event, test_payload) FsmActor,
    (test_event, test_payload) Message, (unit, unit, (unit, (string, (test_state, test_payload) persisted) fmap,
      test_state, test_event, test_payload) FsmActor) ChildTree) Joerl" where
  "letter_joerl \<equiv> test_joerl"

definition timed_sup :: "((string, (test_state, test_payload) persisted) fmap, test_state, test_event, test_payload)
    FinitomataSupervisor" where
  "timed_sup = with_timer 5 test_sup"

abbreviation test_net_reach where
  "test_net_reach \<equiv> net_reach letter_joerl test_used fmap_dash_map TestFsm timed_sup"

lemma timed_sup_fields [simp]:
  "sup_graph timed_sup = test_graph" "sup_system timed_sup = 0" "sup_timer_interval timed_sup = Some 5"
  "sup_persistency timed_sup = Some (InMemoryPersistency fmap_dash_map)" "sup_listener timed_sup = None"
  "sup_auto_terminate timed_sup = False"
  by (simp_all add: timed_sup_def with_timer_def test_sup_def with_persistency_def FinitomataSupervisor_new_def)

definition test_net0 :: "(unit, (string, (test_state, test_payload) FsmState) fmap,
    (string, (test_state, test_payload) persisted) fmap, test_state, test_event, test_payload,
    (test_event, test_payload) Message test_system) network" where
  "test_net0 = network_new fmap_dash_map fmempty (Map.empty, 1, [], [])"

lemma test_net0_reach: "test_net_reach test_net0"
  unfolding test_net0_def by (rule net_new) (simp add: test_joerl_def)

lemma test_net0_free: "free_name ''fsm'' (nt_sys test_net0)"
  by (simp add: free_name_def test_net0_def network_new_def system_new_def)

text \<open>The network after the start and after \<open>started\<close>, computed.\<close>

definition up_actor :: "(unit, (string, (test_state, test_payload) persisted) fmap, test_state, test_event, test_payload) FsmActor" where
  "up_actor = \<lparr>fa_fsm = (), fa_state = (FsmState_new ''fsm'' StIdle 0)\<lparr>lifecycle := Running\<rparr>, fa_graph = test_graph,
     fa_persistency = Some (InMemoryPersistency fmap_dash_map), fa_listener = None, fa_auto_terminate = False,
     fa_timer_interval = Some 5, fa_name = ''fsm'', fa_recover_on_start = False, fa_system = None\<rparr>"

definition up_env :: "((string, (test_state, test_payload) FsmState) fmap,
    (string, (test_state, test_payload) persisted) fmap, (test_event, test_payload) Message test_system) sup_env" where
  "up_env = \<lparr>se_cache = StateCache_update fmap_dash_map (fa_state up_actor) fmempty, se_world = fmempty,
     se_actors = [''fsm'' \<mapsto> 1], se_system = ([(0, ''fsm'') \<mapsto> 1], 2, [1], [])\<rparr>"

lemma test_cache_new: "StateCache_new fmap_dash_map = fmempty"
  by (simp add: StateCache_new_def fmap_dash_map_def)

lemma test_start_actor:
  "start_actor fmap_dash_map TestFsm timed_sup ''fsm'' () 0 (nt_env test_net0) =
     (up_actor, StateCache_update fmap_dash_map (fa_state up_actor) fmempty, fmempty)"
  by (simp add: start_actor_def initial_entry_def test_net0_def network_new_def system_new_def sup_env_new_def
      up_actor_def run_hook_def FsmState_new_def Let_def test_cache_new)

lemma test_net_start:
  "net_start letter_joerl fmap_dash_map TestFsm timed_sup ''fsm'' () 0 test_net0 = host 1 up_actor up_env test_net0"
  by (simp add: net_start_def test_start_actor start_fsm_def test_joerl_def)
     (simp add: up_env_def test_net0_def network_new_def system_new_def sup_env_new_def numeral_2_eq_2)

lemma test_net_up:
  "\<exists>n h. test_net_reach n \<and> nt_live n 1 = Some h \<and> h_started h \<and> h_requests h = [ReqSendTick 1 5] \<and>
     h_actor h = up_actor \<and> nt_boxes n 1 = [] \<and> nt_ticks n 1 = 0 \<and> nt_env n = up_env"
proof -
  let ?n1 = "host 1 up_actor up_env test_net0"
  have "net_step letter_joerl test_used fmap_dash_map TestFsm timed_sup test_net0
      (net_start letter_joerl fmap_dash_map TestFsm timed_sup ''fsm'' () 0 test_net0)"
    using nt_start [of letter_joerl test_used fmap_dash_map TestFsm timed_sup test_net0 "''fsm''" "()" 0] test_net0_free by simp
  with test_net0_reach have r1: "test_net_reach ?n1" unfolding test_net_start by (rule net_next)
  let ?n2 = "the (net_boot letter_joerl fmap_dash_map TestFsm 1 ?n1)"
  have b: "net_boot letter_joerl fmap_dash_map TestFsm 1 ?n1 = Some ?n2"
    by (simp add: net_boot_def started_def started_recover_def up_actor_def FsmState_new_def)
  have "test_net_reach ?n2" by (rule net_next [OF r1 nt_boot [OF b]])
  moreover have "nt_live ?n2 1 = Some \<lparr>h_actor = up_actor, h_requests = [ReqSendTick 1 5], h_started = True\<rparr> \<and>
    nt_boxes ?n2 1 = [] \<and> nt_ticks ?n2 1 = 0 \<and> nt_env ?n2 = up_env"
    by (simp add: net_boot_def started_def started_recover_def up_actor_def FsmState_new_def Let_def
      hosted_env_def after_handler_def)
      (simp add: test_net0_def network_new_def)
  ultimately show ?thesis by fastforce
qed

lemma up_resolve: "resolve_pid letter_joerl timed_sup ''fsm'' up_env = Inr 1"
  by (simp add: resolve_pid_def up_env_def test_joerl_def)

lemma up_send: "fst (net_transition letter_joerl timed_sup ''fsm'' EvStart 0 n) = Inr ()" if "nt_env n = up_env"
  using that by (simp add: net_transition_def net_send_def send_to_def up_resolve)
    (simp add: up_env_def test_joerl_def)

subsection \<open>Addressing\<close>

text \<open>
  C15: a message never reaches an FSM of another name. In every reachable network, whatever is
  started, restarted, stopped or crashes, also under names that are taken: if a name resolves to the
  pid of a live actor, that actor is an FSM of that name; and every event or shutdown in the mailbox
  of a live actor was sent to the actor's own name.
\<close>

theorem messages_reach_addressee:
  assumes "pid_supply J used" "net_reach J used D F sv n" "nt_live n pid = Some h"
  shows "(resolve_pid J sv nm (nt_env n) = Inr pid \<longrightarrow> fa_name (h_actor h) = nm) \<and>
    (Sent nm msg \<in> set (nt_boxes n pid) \<longrightarrow> fa_name (h_actor h) = nm \<and> msg \<noteq> TimerTickMsg)"
proof -
  note inv = net_reach_names [OF assms(1,2)]
  have "letter_ok (fa_name (h_actor h)) (Sent nm msg)" if "Sent nm msg \<in> set (nt_boxes n pid)"
    by (rule names_invD(5) [OF inv that assms(3)])
  then show ?thesis using names_invD(3) [OF inv resolve_leads assms(3)] by (auto simp: letter_ok_def)
qed

theorem messages_reach_addressee_witness:
  "\<exists>n h. test_net_reach n \<and> nt_live n 1 = Some h \<and> resolve_pid letter_joerl timed_sup ''fsm'' (nt_env n) = Inr 1 \<and>
     fa_name (h_actor h) = ''fsm''"
proof -
  obtain n h where n: "test_net_reach n" "nt_live n 1 = Some h" "nt_env n = up_env" using test_net_up by blast
  from messages_reach_addressee [OF test_pids.pid_supply_axioms n(1,2), of "''fsm''"] n up_resolve show ?thesis by auto
qed

text \<open>
  A name that \<open>spawn_supervised\<close> was called for leads nowhere until its child has registered itself:
  \<open>resolve_pid\<close> finds the pid in the supervisor's table, which \<open>Pid::new\<close> made up there and no actor has.
\<close>

lemma spawned_name_leads_nowhere:
  assumes "pid_supply J used" "spawn_supervised_with_intensity J dflt sv nm fsm p strategy intensity env = (res, env')"
    and "j_whereis J (sup_system sv) nm (se_system env) = None"
  shows "\<exists>pid. resolve_pid J sv nm env' = Inr pid \<and> pid \<notin> used (se_system env)"
proof -
  note J = assms(1)
  let ?spec = "\<lparr>ss_strategy = strategy, ss_intensity = intensity, ss_children = [(nm, \<lambda>u. supervised_child sv nm dflt p)]\<rparr>"
  let ?j = "j_spawn_supervisor J (sup_system sv) ?spec (se_system env)"
  obtain pid j where pn: "j_pid_new J ?j = (pid, j)" by fastforce
  have "pid \<notin> used (se_system env)"
    using pid_supply.pid_new_fresh [OF J pn] pid_supply.tree_used [OF J] by blast
  moreover have "j_whereis J (sup_system sv) nm j = None"
    using pid_supply.pid_new_keeps [OF J, of "sup_system sv" nm ?j] pn assms(3) pid_supply.tree_keeps [OF J] by simp
  ultimately show ?thesis using assms(2) pn
    by (auto simp: spawn_supervised_with_intensity_def resolve_pid_def)
qed

subsection \<open>From the call to the cache\<close>

text \<open>
  C16: an accepted event takes effect where the user looks for it. If \<open>transition\<close> answers \<open>Ok\<close> for
  a name that leads to an actor that is up and has not asked to stop, over a graph in which hard
  events cannot cycle, and the actor is given its turns, then it works off the mailbox before the
  event, every handler returning, until one of these letters makes it ask to be stopped or the
  event's turn has come. In the latter case the handler of the event returns, and after it the cache
  shows, under the name the user gave, the state the actor is in: from where the letters before it
  led, one step of the machine for that event (ignored, refused, aborted or completed to a declared
  target) and then the hard events that follow it. No other name's entry changes.
\<close>

theorem accepted_event_takes_effect:
  assumes "pid_supply J used" "state_cache D" "net_reach J used D F sv n"
    and "net_transition J sv nm ev ep n = (Inr (), n1)" "resolve_pid J sv nm (nt_env n) = Inr pid"
    and "nt_live n pid = Some h" "h_started h" "ReqStopNormal \<notin> set (h_requests h)"
    and "graph_inv (fa_graph (h_actor h))" "hard_acyclic (fa_graph (h_actor h))"
  shows "\<exists>k n2 h2. k \<le> length (nt_boxes n pid) \<and> net_handles D F pid k n1 = Some n2 \<and>
    nt_live n2 pid = Some h2 \<and> runs_to (h_actor h) (h_actor h2) \<and>
    (ReqStopNormal \<in> set (h_requests h2) \<or>
     (k = length (nt_boxes n pid) \<and>
      (\<exists>n3 h3. net_handle D F pid n2 = Some n3 \<and> nt_live n3 pid = Some h3 \<and> nt_boxes n3 pid = [] \<and>
        sup_state D nm (nt_env n3) = Some (fa_state (h_actor h3)) \<and>
        hard_chain (fa_graph (h_actor h)) (fa_auto_terminate (h_actor h))
          (fa_state (h_actor h2)) ev (fa_state (h_actor h3)) \<and>
        (\<forall>other. other \<noteq> nm \<longrightarrow> sup_state D other (nt_env n3) = sup_state D other (nt_env n)))))"
proof -
  let ?a = "h_actor h" and ?box = "nt_boxes n pid"
  note sent = net_send_enqueues [OF assms(4) [unfolded net_transition_def] assms(5)]
  have "fa_name ?a = nm"
    by (rule names_invD(3) [OF net_reach_names [OF assms(1,3)] resolve_leads [OF assms(5)] assms(6)])
  then have nm: "name (fa_state ?a) = nm"
    using sys_invD(1) [OF state_cache.sys_reach_inv [OF assms(2) net_reach_sys [OF assms(1,3)]] assms(6)] by simp
  have box: "nt_boxes n1 pid = ?box @ [Sent nm (TransitionMsg ev ep)]" and live: "nt_live n1 pid = Some h"
    using sent assms(6) by simp_all
  obtain k n2 h2 where b: "k \<le> length ?box" "net_handles D F pid k n1 = Some n2" "served D pid n1 h n2 h2"
    "nt_boxes n2 pid = drop k ?box @ [Sent nm (TransitionMsg ev ep)]"
    "ReqStopNormal \<in> set (h_requests h2) \<or> k = length ?box"
    using backlog_served [OF assms(2) live assms(7,8) box assms(9,10), of F] by blast
  then have h2: "nt_live n2 pid = Some h2" "h_started h2" "runs_to ?a (h_actor h2)" by (simp_all add: served_def)
  note same = runs_to_same [OF h2(3)]
  have turn: "\<exists>n3 h3. net_handle D F pid n2 = Some n3 \<and> nt_live n3 pid = Some h3 \<and> nt_boxes n3 pid = [] \<and>
      sup_state D nm (nt_env n3) = Some (fa_state (h_actor h3)) \<and>
      hard_chain (fa_graph ?a) (fa_auto_terminate ?a) (fa_state (h_actor h2)) ev (fa_state (h_actor h3)) \<and>
      (\<forall>other. other \<noteq> nm \<longrightarrow> sup_state D other (nt_env n3) = sup_state D other (nt_env n))"
    if q: "ReqStopNormal \<notin> set (h_requests h2)"
  proof -
    have l: "nt_boxes n2 pid = [Sent nm (TransitionMsg ev ep)]" using b(4,5) q by simp
    have g: "graph_inv (fa_graph (h_actor h2))" "hard_acyclic (fa_graph (h_actor h2))" "name (fa_state (h_actor h2)) = nm"
      using same assms(9,10) nm by simp_all
    from event_served [OF assms(2) h2(1,2) q l g] obtain n3 h3 where
      e: "net_handle D F pid n2 = Some n3" "nt_boxes n3 pid = []" "served D pid n2 h2 n3 h3"
        "sup_state D nm (nt_env n3) = Some (fa_state (h_actor h3))"
        "hard_chain (fa_graph (h_actor h2)) (fa_auto_terminate (h_actor h2)) (fa_state (h_actor h2)) ev (fa_state (h_actor h3))"
      by blast
    from served_trans [OF b(3) e(3)] sent(3) nm e same show ?thesis
      by (intro exI [of _ n3] exI [of _ h3]) (simp add: served_def sup_state_def)
  qed
  show ?thesis
    by (intro exI [of _ k] exI [of _ n2] exI [of _ h2]) (use b h2 turn in blast)
qed

theorem accepted_event_takes_effect_witness:
  "\<exists>n n2 h2. test_net_reach n \<and> nt_live n2 1 = Some h2 \<and>
     sup_state fmap_dash_map ''fsm'' (nt_env n2) = Some (fa_state (h_actor h2)) \<and>
     net_handle fmap_dash_map TestFsm 1 (snd (net_transition letter_joerl timed_sup ''fsm'' EvStart 0 n)) = Some n2"
proof -
  obtain n h where n: "test_net_reach n" "nt_live n 1 = Some h" "h_started h" "h_requests h = [ReqSendTick 1 5]"
    "h_actor h = up_actor" "nt_boxes n 1 = []" "nt_env n = up_env" using test_net_up by blast
  let ?n1 = "snd (net_transition letter_joerl timed_sup ''fsm'' EvStart 0 n)"
  have g: "fa_graph (h_actor h) = test_graph" using n(5) by (simp add: up_actor_def)
  have t: "net_transition letter_joerl timed_sup ''fsm'' EvStart 0 n = (Inr (), ?n1)"
    using up_send [OF n(7)] by (metis prod.collapse)
  from g test_hard_acyclic have gr: "graph_inv (fa_graph (h_actor h))" "hard_acyclic (fa_graph (h_actor h))" by simp_all
  have r: "resolve_pid letter_joerl timed_sup ''fsm'' (nt_env n) = Inr 1" using n(7) up_resolve by simp
  have q: "ReqStopNormal \<notin> set (h_requests h)" using n(4) by simp
  have live: "nt_live ?n1 1 = Some h"
    using net_send_enqueues(2) [OF t [unfolded net_transition_def] r] n(2) by (simp add: net_transition_def)
  from accepted_event_takes_effect [OF test_pids.pid_supply_axioms fmap_cache.state_cache_axioms n(1) t r n(2,3) q gr]
  show ?thesis using n(1,6) live q by auto
qed

subsection \<open>Coming back\<close>

text \<open>
  C17: a supervised FSM comes back. In every reachable network whose supervisor has a backend that
  answers with an entry for the name, over a graph in which hard events cannot cycle, the child that
  \<open>joerl\<close> starts for that name comes up: \<open>started\<close> returns, and after it the name leads to the new
  actor, whoever held it before, every other name leads where it led, no letter to an earlier
  incarnation is in the mailbox, and the cache shows, under that name only, the FSM \<open>Running\<close> from
  the stored state on, gone where its hard events led. (\<open>noted\<close> only records whether the name was
  taken.)
\<close>

theorem child_comes_back:
  assumes "pid_supply J used" "state_cache D" "net_reach J used D F sv n"
    and "sup_persistency sv = Some P" "load P nm (se_world (nt_env n)) = (Inr (Some (lc, s, q)), w)"
    and "graph_inv (sup_graph sv)" "hard_acyclic (sup_graph sv)"
  shows "\<exists>pid n2 h2 st. net_boot J D F pid (net_child J sv nm dflt p (noted nm n)) = Some n2 \<and>
    net_reach J used D F sv n2 \<and>
    nt_live n2 pid = Some h2 \<and> h_started h2 \<and> fa_name (h_actor h2) = nm \<and> nt_boxes n2 pid = [] \<and>
    (\<forall>other. resolve_pid J sv other (nt_env n2) = (if other = nm then Inr pid else resolve_pid J sv other (nt_env n))) \<and>
    (\<forall>other. sup_state D other (nt_env n2) =
       (if other = nm then Some (fa_state (h_actor h2)) else sup_state D other (nt_env n))) \<and>
    current st = s \<and> lifecycle st = Running \<and>
    comes_to (sup_graph sv) (sup_auto_terminate sv) st (fa_state (h_actor h2))"
proof -
  obtain pid j where sp: "j_spawn J (sup_system sv) (supervised_child sv nm dflt p) (se_system (nt_env n)) = (pid, j)"
    by (meson surj_pair)
  have reg: "actor_registry J" by (rule pid_supply.axioms(1) [OF assms(1)])
  obtain n2 h2 st where c: "net_boot J D F pid (net_child J sv nm dflt p (noted nm n)) = Some n2" "nt_live n2 pid = Some h2"
    "h_started h2" "fa_name (h_actor h2) = nm" "nt_boxes n2 pid = []"
    "se_system (nt_env n2) = snd (j_register J (sup_system sv) nm pid (snd (j_unregister J (sup_system sv) nm j)))"
    "se_actors (nt_env n2) = se_actors (nt_env n)"
    "\<forall>other. sup_state D other (nt_env n2) =
       (if other = nm then Some (fa_state (h_actor h2)) else sup_state D other (nt_env n))"
    "current st = s" "lifecycle st = Running"
    "comes_to (sup_graph sv) (sup_auto_terminate sv) st (fa_state (h_actor h2))"
    using child_rejoins [OF assms(1) _ assms(2), of sv "noted nm n" nm dflt p pid j P lc s q w F, unfolded noted_simps note_name_simps]
      net_reach_names [OF assms(1,3)] sp assms(4-7) names_inv_noted by blast
  have "net_reach J used D F sv n2"
    using net_next [OF net_next [OF assms(3) nt_child] nt_boot [OF c(1)]] .
  moreover have "resolve_pid J sv other (nt_env n2) = (if other = nm then Inr pid else resolve_pid J sv other (nt_env n))" for other
  proof -
    have "resolve_pid J sv other ((nt_env n)\<lparr>se_system := j\<rparr>) = resolve_pid J sv other (nt_env n)"
    proof -
      have "j_whereis J (sup_system sv) other j = j_whereis J (sup_system sv) other (se_system (nt_env n))"
        using actor_registry.spawn_keeps [OF reg, of "sup_system sv" other "sup_system sv" "supervised_child sv nm dflt p"
            "se_system (nt_env n)"] sp by simp
      then show ?thesis by (simp add: resolve_pid_def split: option.split)
    qed
    with restart_takes_name [OF reg, of "nt_env n2" sv nm pid "(nt_env n)\<lparr>se_system := j\<rparr>" other] c(6,7)
    show ?thesis by simp
  qed
  ultimately show ?thesis using c by blast
qed

definition stored_net :: "(unit, (string, (test_state, test_payload) FsmState) fmap,
    (string, (test_state, test_payload) persisted) fmap, test_state, test_event, test_payload,
    (test_event, test_payload) Message test_system) network" where
  "stored_net = network_new fmap_dash_map (fmupd ''fsm'' (Running, StRunning, 1) fmempty) (Map.empty, 1, [], [])"

theorem child_comes_back_witness:
  "\<exists>pid n2 h2. net_boot letter_joerl fmap_dash_map TestFsm pid (net_child letter_joerl timed_sup ''fsm'' () 0 stored_net) = Some n2 \<and>
     test_net_reach n2 \<and> nt_live n2 pid = Some h2 \<and> resolve_pid letter_joerl timed_sup ''fsm'' (nt_env n2) = Inr pid \<and>
     sup_state fmap_dash_map ''fsm'' (nt_env n2) = Some (fa_state (h_actor h2))"
proof -
  have n: "test_net_reach stored_net"
    unfolding stored_net_def by (rule net_new) (simp add: test_joerl_def)
  have free: "noted ''fsm'' stored_net = stored_net"
    by (simp add: free_name_def stored_net_def network_new_def system_new_def)
  let ?w = "fmupd ''fsm'' (Running, StRunning, 1) fmempty"
  have "load (InMemoryPersistency fmap_dash_map) ''fsm'' (se_world (nt_env stored_net)) = (Inr (Some (Running, StRunning, 1)), ?w)"
    by (simp add: stored_net_def network_new_def system_new_def sup_env_new_def InMemoryPersistency_def fmap_dash_map_def)
  note up = child_comes_back [OF test_pids.pid_supply_axioms fmap_cache.state_cache_axioms n timed_sup_fields(4) this,
      where dflt = "()" and p = 0, unfolded free]
  have "graph_inv (sup_graph timed_sup)" "hard_acyclic (sup_graph timed_sup)" using test_hard_acyclic by simp_all
  from up [OF this] show ?thesis
  proof (elim exE conjE)
    fix pid n2 h2
    assume boot: "net_boot letter_joerl fmap_dash_map TestFsm pid (net_child letter_joerl timed_sup ''fsm'' () 0 stored_net) = Some n2"
      and r: "test_net_reach n2" "nt_live n2 pid = Some h2"
      and leads: "\<forall>other. resolve_pid letter_joerl timed_sup other (nt_env n2) =
        (if other = ''fsm'' then Inr pid else resolve_pid letter_joerl timed_sup other (nt_env stored_net))"
      and cached: "\<forall>other. sup_state fmap_dash_map other (nt_env n2) =
        (if other = ''fsm'' then Some (fa_state (h_actor h2)) else sup_state fmap_dash_map other (nt_env stored_net))"
    from leads [rule_format, of "''fsm''"] cached [rule_format, of "''fsm''"] boot r show ?thesis
      by (intro exI [of _ pid] exI [of _ n2] exI [of _ h2]) simp
  qed
qed

subsection \<open>Timers\<close>

text \<open>
  C18: ticks do not pile up. In every reachable network a live actor has at most one tick under way,
  asked for and not yet handled, in its mailbox or still to be put there, and none if it has no
  timer; an actor that has not been brought up has none. However long its handlers take, the timer
  waits for them.
\<close>

theorem one_tick_under_way:
  assumes "pid_supply J used" "net_reach J used D F sv n" "nt_live n pid = Some h"
  shows "(asked_ticks (h_requests h) - nt_ticks n pid) + count_list (nt_boxes n pid) Tick \<le>
      (if h_started h \<and> fa_timer_interval (h_actor h) \<noteq> None then 1 else 0)"
proof -
  have "tick_ok h (nt_boxes n pid) (nt_ticks n pid)" by (rule ticks_invD(2) [OF net_reach_ticks [OF assms(1,2)] assms(3)])
  then show ?thesis by (auto simp: tick_ok_def tick_limit_def count_list_0_iff split: option.splits)
qed

theorem one_tick_under_way_witness:
  "\<exists>n h. test_net_reach n \<and> nt_live n 1 = Some h \<and>
     (asked_ticks (h_requests h) - nt_ticks n 1) + count_list (nt_boxes n 1) Tick = 1"
proof -
  obtain n h where n: "test_net_reach n" "nt_live n 1 = Some h" "h_started h" "h_requests h = [ReqSendTick 1 5]"
    "nt_boxes n 1 = []" "nt_ticks n 1 = 0" using test_net_up by blast
  from one_tick_under_way [OF test_pids.pid_supply_axioms n(1,2)] n show ?thesis by (intro exI [of _ n] exI [of _ h]) simp
qed

end
