(* ===== verification/Props_Data.thy ===== *)
theory Props_Data
  imports Fsm_Example
begin

section \<open>Properties of the graph, the state and the containers\<close>

text \<open>
  What \<open>transition.rs\<close>, \<open>state.rs\<close>, \<open>cache.rs\<close>, \<open>persistency/memory.rs\<close> and \<open>error.rs\<close> promise of
  their own data.
\<close>

subsection \<open>The transition graph\<close>

text \<open>
  C21: the queries of a graph are scans of its transitions in declaration order: \<open>allowed\<close> answers
  with the first transition of the state for the event (a later one with the same pair is never
  reached), \<open>responds\<close> says whether there is one, and \<open>events_for\<close> lists the events of the state
  with their kinds, in order and with repetitions.
\<close>

theorem queries_scan:
  assumes "graph_inv g"
  shows "allowed g s e =
      map_option (\<lambda>t. (t_to t, t_kind t)) (find (\<lambda>t. t_from t = s \<and> t_event t = e) (transitions g)) \<and>
    (responds g s e \<longleftrightarrow> e \<in> fst ` set (events_for g s)) \<and>
    events_for g s = map (\<lambda>t. (t_event t, t_kind t)) (filter (\<lambda>t. t_from t = s) (transitions g))"
  using allowed_scan [OF assms] responds_events_for [OF assms] events_for_scan [OF assms] by simp

theorem queries_scan_witness:
  "allowed test_graph StIdle EvStart = Some ([StRunning], Normal) \<and> events_for test_graph StRunning = [(EvFinish, Normal)]"
  using queries_scan [OF test_graph_inv, of StIdle EvStart] queries_scan [OF test_graph_inv, of StRunning EvStart]
  by (simp add: test_graph_transitions)

text \<open>
  \<open>TransitionGraph::new\<close> builds an index that lists, for every state with outgoing transitions
  and for no other, the positions of exactly its transitions in increasing order; every position
  is in range, so no lookup through the index panics.
\<close>

lemma index_positions:
  "fmlookup (index (TransitionGraph_new ini fins ts)) s =
     (let ps = filter (\<lambda>i. t_from (ts ! i) = s) [0..<length ts] in if ps = [] then None else Some ps)"
  using graph_inv_new [of ini fins ts] by (simp add: graph_inv_def positions_def Let_def)

subsection \<open>Searches\<close>

text \<open>
  \<open>reachable_from\<close> terminates on every graph and its result is exactly the states that a path
  of declared transitions leads to, the start included.
\<close>

lemma reachable_from_correct:
  assumes "graph_inv g"
  shows "x |\<in>| reachable_from g s \<longleftrightarrow> (\<exists>p. graph_path g s p x)"
  using reachable_from_iff [OF assms] by (simp add: reachable_iff_path)

lemma reachable_from_correct_witness: "StIdle |\<in>| reachable_from test_graph StIdle"
  using reachable_from_correct [OF test_graph_inv, of StIdle StIdle] by (auto intro: exI [of _ "[]"])

text \<open>
  C22: \<open>validate\<close> reports exactly a missing final state, first, and then every state that no path
  from the initial state leads to, in the order of the states; it accepts exactly the graphs with
  a final state all of whose states are reachable. It reports nothing else: the other kinds of
  \<open>ValidationError\<close> never come out of it.
\<close>

theorem validate_correct:
  assumes "graph_inv g"
  shows "validate dbg g =
      (let errors = (if finals g = {||} then [NoFinalState] else []) @
         map (\<lambda>s. UnreachableState (dbg s))
           (filter (\<lambda>s. \<not> (\<exists>p. graph_path g (initial g) p s)) (sorted_list_of_fset (all_states g)))
       in if errors = [] then Inr () else Inl errors) \<and>
    (validate dbg g = Inr () \<longleftrightarrow> finals g \<noteq> {||} \<and> (\<forall>s. s |\<in>| all_states g \<longrightarrow> (\<exists>p. graph_path g (initial g) p s)))"
  using validate_report [OF assms, of dbg] validate_ok_iff [OF assms, of dbg] by (simp only: reachable_iff_path)

lemma test_graph_edges: "graph_edge test_graph StIdle EvStart StRunning" "graph_edge test_graph StRunning EvFinish StDone"
  by (simp_all add: graph_edge_def test_graph_transitions)

theorem validate_correct_witness: "validate test_state_debug test_graph = Inr ()"
proof -
  have "\<exists>p. graph_path test_graph StIdle p s" for s
  proof (cases s)
    case StIdle
    then show ?thesis by (intro exI [of _ "[]"]) simp
  next
    case StRunning
    with test_graph_edges show ?thesis by (intro exI [of _ "[(EvStart, StRunning)]"]) simp
  next
    case StDone
    with test_graph_edges show ?thesis by (intro exI [of _ "[(EvStart, StRunning), (EvFinish, StDone)]"]) simp
  qed
  with validate_correct [OF test_graph_inv, of test_state_debug] show ?thesis by simp
qed

text \<open>
  \<open>shortest_path\<close> terminates; it answers \<open>None\<close> exactly if no path leads to the target, and
  otherwise with a path of declared transitions from the start to the target that no other such
  path is shorter than; the path to the start itself is empty.
\<close>

lemma shortest_path_minimal:
  assumes "graph_inv g"
  shows "(shortest_path g s x = None \<longleftrightarrow> \<not> (\<exists>p. graph_path g s p x)) \<and>
    (\<forall>p. shortest_path g s x = Some p \<longrightarrow>
       graph_path g s p x \<and> (\<forall>p'. graph_path g s p' x \<longrightarrow> length p \<le> length p')) \<and>
    shortest_path g s s = Some []"
  using shortest_path_correct [OF assms, of s x]
  by (auto simp: shortest_to_def reachable_iff_path shortest_path_def [of g s s] split: option.splits)

text \<open>
  A path that \<open>shortest_path\<close> finds can be driven through the engine when no state declares
  two transitions for one event: at each step \<open>allowed\<close> answers the path's event with targets that
  contain the path's next state.
\<close>

fun drivable :: "('s, 'e) TransitionGraph \<Rightarrow> 's \<Rightarrow> ('e \<times> 's) list \<Rightarrow> bool" where
  "drivable g s [] \<longleftrightarrow> True"
| "drivable g s ((e, x) # p) \<longleftrightarrow> (\<exists>tos kind. allowed g s e = Some (tos, kind) \<and> x \<in> set tos) \<and> drivable g x p"

lemma find_distinct_map:
  "distinct (map f xs) \<Longrightarrow> t \<in> set xs \<Longrightarrow> find (\<lambda>y. f y = f t) xs = Some t"
  by (induction xs) (auto simp: image_iff)

lemma edge_allowed:
  assumes "graph_inv g" "distinct (map (\<lambda>t. (t_from t, t_event t)) (transitions g))" "graph_edge g s e x"
  shows "\<exists>tos kind. allowed g s e = Some (tos, kind) \<and> x \<in> set tos"
proof -
  from assms(3) obtain t where t: "t \<in> set (transitions g)" "t_from t = s" "t_event t = e" "x \<in> set (t_to t)"
    by (auto simp: graph_edge_def)
  from find_distinct_map [OF assms(2) t(1)] t
  have "find (\<lambda>t. t_from t = s \<and> t_event t = e) (transitions g) = Some t" by simp
  with t show ?thesis by (simp add: allowed_scan [OF assms(1)])
qed

lemma shortest_path_drivable:
  assumes "graph_inv g" "distinct (map (\<lambda>t. (t_from t, t_event t)) (transitions g))"
    and "shortest_path g s x = Some p"
  shows "drivable g s p"
proof -
  have "graph_path g s p x \<Longrightarrow> drivable g s p"
  proof (induction p arbitrary: s)
    case (Cons ex p)
    then show ?case using edge_allowed [OF assms(1,2)] by (cases ex) auto
  qed simp
  with shortest_path_correct [OF assms(1), of s x] assms(3) show ?thesis by (simp add: shortest_to_def)
qed

text \<open>
  C23: \<open>shortest_path\<close> terminates; it answers \<open>None\<close> exactly if no path leads to the target, and
  otherwise with a path of declared transitions from the start to the target that no other such
  path is shorter than; the path to the start itself is empty. Where no state declares two
  transitions for one event the path can be driven through the engine step by step.
\<close>

theorem shortest_path_found:
  assumes "graph_inv g"
  shows "(shortest_path g s x = None \<longleftrightarrow> \<not> (\<exists>p. graph_path g s p x)) \<and>
    (\<forall>p. shortest_path g s x = Some p \<longrightarrow>
       graph_path g s p x \<and> (\<forall>p'. graph_path g s p' x \<longrightarrow> length p \<le> length p') \<and>
       (distinct (map (\<lambda>t. (t_from t, t_event t)) (transitions g)) \<longrightarrow> drivable g s p)) \<and>
    shortest_path g s s = Some []"
  using shortest_path_minimal [OF assms, of s x] shortest_path_drivable [OF assms, of s x] by blast

lemma test_shortest_path: "shortest_path test_graph StIdle StRunning = Some [(EvStart, StRunning)]"
proof -
  have "index_list (index test_graph) StIdle = [0]"
    using test_graph_inv by (simp add: index_list_def index_lookup positions_Cons test_graph_transitions)
  then show ?thesis
    by (simp add: shortest_path_def sp_loop_step test_graph_transitions del: sp_loop.simps(2))
qed

theorem shortest_path_found_witness: "drivable test_graph StIdle [(EvStart, StRunning)]"
  using shortest_path_found [OF test_graph_inv, of StIdle StRunning] test_shortest_path
  by (simp add: test_graph_transitions)

subsection \<open>The state of a machine\<close>

text \<open>
  C24: however many states are pushed on an empty history of a given maximal size, it holds the
  last runs of equal neighbours of that sequence, oldest first, each with its length (modulo 2 to
  the 64, the width of the counter): the last \<open>max_size\<close> of them, and one even when \<open>max_size\<close> is 0.
\<close>

theorem history_holds_last_runs:
  "entries (foldl BoundedHistory_push (BoundedHistory_new n) xs) =
     map (\<lambda>(x, k). \<lparr>he_state = x, he_count = of_nat k\<rparr>) (take_last (max 1 n) (runs xs)) \<and>
   BoundedHistory_len (foldl BoundedHistory_push (BoundedHistory_new n) xs) \<le> max 1 n \<and>
   concat (map (\<lambda>(x, k). replicate k x) (runs xs)) = xs \<and> distinct_adj (map fst (runs xs))"
proof -
  have "map run_entry ys = map (\<lambda>(x, k). \<lparr>he_state = x, he_count = of_nat k\<rparr>) ys" for ys :: "('a \<times> nat) list"
    by (auto simp: run_entry_def)
  then show ?thesis
    using pushes_run_entries [of n xs] runs_decode [of xs] runs_distinct_adj [of xs]
    by (simp add: BoundedHistory_len_def)
qed

text \<open>
  The state invariant (the history is not empty, ends in the current state, has at most 32
  entries and no two equal neighbours) holds of a new state and is kept by every operation of
  \<open>FsmState\<close>.
\<close>

lemma state_operations_keep_inv:
  "state_inv (FsmState_new nm ini p) \<and>
   (state_inv st \<longrightarrow> state_inv (transition_to st s) \<and> state_inv (set_payload st p) \<and>
      state_inv (set_error st err) \<and> state_inv (clear_error st) \<and> state_inv (st\<lparr>lifecycle := l\<rparr>))"
  by (simp add: state_inv_new state_inv_transition_to)

subsection \<open>Containers and errors\<close>

text \<open>
  C25: \<open>InMemoryPersistency\<close> over any map with the laws of \<open>DashMap\<close> keeps the contract of the
  \<open>Persistency\<close> trait without ever failing: a load answers what was stored last under the name,
  with the lifecycle \<open>Running\<close> whatever it was, and no other name is touched; \<open>remove\<close> hands the
  entry out and forgets it.
\<close>

theorem memory_backend_contract:
  assumes "dash_map D"
  shows "persistency (InMemoryPersistency D) (dm_get D) \<and>
    (store (InMemoryPersistency D) i s p m = (res, m') \<longrightarrow> res = Inr () \<and>
       (\<forall>j. fst (load (InMemoryPersistency D) j m') =
          (if j = i then Inr (Some (Running, s, p)) else fst (load (InMemoryPersistency D) j m)))) \<and>
    (InMemoryPersistency_remove D i m = (r, m'') \<longrightarrow> r = dm_get D m i \<and> \<not> InMemoryPersistency_contains D m'' i \<and>
       (\<forall>j. j \<noteq> i \<longrightarrow> dm_get D m'' j = dm_get D m j))"
proof -
  have ms: "memory_store D" using assms by (simp add: memory_store_def)
  have "persistency (InMemoryPersistency D) (dm_get D)"
    using persistency.intro [of "InMemoryPersistency D" "dm_get D"]
    by (simp add: InMemoryPersistency_def fun_eq_iff dash_map.get_insert [OF assms])
  moreover have "store (InMemoryPersistency D) i s p m = (res, m') \<longrightarrow> res = Inr () \<and>
       (\<forall>j. fst (load (InMemoryPersistency D) j m') =
          (if j = i then Inr (Some (Running, s, p)) else fst (load (InMemoryPersistency D) j m)))"
    by (auto simp: InMemoryPersistency_def dash_map.get_insert [OF assms])
  ultimately show ?thesis using memory_store.memory_remove [OF ms, of i m r m''] by blast
qed

theorem memory_backend_contract_witness:
  "fst (load (InMemoryPersistency fmap_dash_map) ''a''
     (fmupd ''a'' (Running, StDone, 1::test_payload) fmempty)) = Inr (Some (Running, StDone, 1))"
proof -
  have st: "store (InMemoryPersistency fmap_dash_map) ''a'' StDone (1::test_payload) fmempty =
      (Inr (), fmupd ''a'' (Running, StDone, 1) fmempty)"
    by (simp add: InMemoryPersistency_def fmap_dash_map_def)
  show ?thesis
    using memory_backend_contract [OF fmap_dm.dash_map_axioms, THEN conjunct2, THEN conjunct1, THEN mp,
        OF st, THEN conjunct2, THEN spec, of "''a''"]
    by (simp only: if_True simp_thms)
qed

text \<open>
  The cache: after \<open>update\<close> the name in the snapshot answers with that snapshot and every other
  name as before, so that every snapshot stays filed under its own name; \<open>remove\<close> forgets one name;
  and \<open>all\<close> lists each cached name once, with the snapshot \<open>get\<close> answers for it.
\<close>

lemma cache_operations:
  assumes "state_cache D"
  shows "StateCache_get D (StateCache_update D st m) nm =
      (if nm = name st then Some st else StateCache_get D m nm) \<and>
    StateCache_get D (StateCache_remove D gone m) nm = (if nm = gone then None else StateCache_get D m nm) \<and>
    (cache_inv D m \<longrightarrow> cache_inv D (StateCache_update D st m) \<and> cache_inv D (StateCache_remove D gone m)) \<and>
    distinct (map fst (StateCache_all D m)) \<and>
    ((nm, st') \<in> set (StateCache_all D m) \<longleftrightarrow> StateCache_get D m nm = Some st')"
  using state_cache.get_update [OF assms] state_cache.get_removed [OF assms] state_cache.inv_update [OF assms]
    state_cache.inv_remove [OF assms] state_cache.all_distinct [OF assms] state_cache.all_entries [OF assms]
  by simp

text \<open>
  The rendering of an error determines its stage and its reason: two errors that are displayed
  alike agree in both.
\<close>

lemma display_determines:
  assumes "FinitomataError_display e = FinitomataError_display e'"
  shows "stage e = stage e' \<and> reason e = reason e'"
  using FinitomataError_display_determines [OF assms] .

end
