(* ===== verification/Fsm_Strings.thy ===== *)
theory Fsm_Strings
  imports Fsm_Prelude "HOL-Library.List_Lexorder" "HOL-Library.Char_ord" "HOL-Library.Sublist"
begin

section \<open>String operations of the Rust standard library\<close>

text \<open>
  The operations on \<open>&str\<close> that the parsers use. A string is a list of characters; the character
  type of HOL has 256 values, read as the first 256 code points, so the model is about texts over
  them. On these code points the order of \<open>BTreeSet<String>\<close>, by UTF-8 bytes, is the
  lexicographic order of the code points. A \<open>BTreeSet<String>\<close> that is built by insertion and
  then drained in order is the sorted list without repetitions, with \<open>insort_insert\<close> as \<open>insert\<close>.
\<close>

subsection \<open>Whitespace and trim\<close>

text \<open>\<open>char::is_whitespace\<close>: U+0009 to U+000D, the space, U+0085 and U+00A0.\<close>

definition is_whitespace :: "char \<Rightarrow> bool" where
  "is_whitespace c =
     (let n = (of_char c :: nat) in (9 \<le> n \<and> n \<le> 13) \<or> n = 32 \<or> n = 133 \<or> n = 160)"

definition trim_start :: "string \<Rightarrow> string" where
  "trim_start s = dropWhile is_whitespace s"

definition trim :: "string \<Rightarrow> string" where
  "trim s = rev (dropWhile is_whitespace (rev (trim_start s)))"

text \<open>\<open>s.split_whitespace().next()\<close>\<close>

definition first_word :: "string \<Rightarrow> string option" where
  "first_word s =
     (case trim_start s of [] \<Rightarrow> None | t \<Rightarrow> Some (takeWhile (\<lambda>c. \<not> is_whitespace c) t))"

definition trim_matches :: "char \<Rightarrow> string \<Rightarrow> string" where
  "trim_matches q s = rev (dropWhile (\<lambda>c. c = q) (rev (dropWhile (\<lambda>c. c = q) s)))"

subsection \<open>Searching\<close>

text \<open>
  The first occurrence of a pattern, with what is before and after it. \<open>s.find(p)\<close> followed by the
  two slices around the match, and \<open>s.splitn(2, p)\<close> when it yields two parts, are both this pair.
\<close>

fun split_once :: "string \<Rightarrow> string \<Rightarrow> (string \<times> string) option" where
  "split_once p s =
     (if prefix p s then Some ([], drop (length p) s)
      else (case s of [] \<Rightarrow> None | c # cs \<Rightarrow> map_option (\<lambda>(a, b). (c # a, b)) (split_once p cs)))"

declare split_once.simps [simp del]

definition str_contains :: "string \<Rightarrow> string \<Rightarrow> bool" where
  "str_contains p s = (split_once p s \<noteq> None)"

definition splitn2 :: "string \<Rightarrow> string \<Rightarrow> string list" where
  "splitn2 p s = (case split_once p s of None \<Rightarrow> [s] | Some (a, b) \<Rightarrow> [a, b])"

definition strip_suffix :: "char \<Rightarrow> string \<Rightarrow> string option" where
  "strip_suffix c s = (if s \<noteq> [] \<and> last s = c then Some (butlast s) else None)"

definition strip_prefix :: "string \<Rightarrow> string \<Rightarrow> string option" where
  "strip_prefix p s = (if prefix p s then Some (drop (length p) s) else None)"

subsection \<open>str::lines\<close>

definition newline :: char where "newline = CHR 0x0A"
definition carriage_return :: char where "carriage_return = CHR 0x0D"

fun split_inclusive :: "string \<Rightarrow> string list" where
  "split_inclusive [] = []"
| "split_inclusive (c # cs) =
     (if c = newline then [c] # split_inclusive cs
      else (case split_inclusive cs of [] \<Rightarrow> [[c]] | l # ls \<Rightarrow> (c # l) # ls))"

definition strip_line_end :: "string \<Rightarrow> string" where
  "strip_line_end l =
     (case strip_suffix newline l of
        None \<Rightarrow> l
      | Some l' \<Rightarrow> (case strip_suffix carriage_return l' of None \<Rightarrow> l' | Some l'' \<Rightarrow> l''))"

definition lines :: "string \<Rightarrow> string list" where
  "lines s = map strip_line_end (split_inclusive s)"

subsection \<open>Decimal rendering of line numbers\<close>

fun nat_display :: "nat \<Rightarrow> string" where
  "nat_display n =
     (let d = [char_of (48 + n mod 10)] in if n < 10 then d else nat_display (n div 10) @ d)"

declare nat_display.simps [simp del]

subsection \<open>Facts about splitting\<close>

lemma split_once_Cons:
  "split_once p (c # cs) =
     (if prefix p (c # cs) then Some ([], drop (length p) (c # cs))
      else map_option (\<lambda>(a, b). (c # a, b)) (split_once p cs))"
  by (subst split_once.simps) simp

lemma split_once_Some:
  "split_once p s = Some (a, b) \<Longrightarrow> s = a @ p @ b"
proof (induction s arbitrary: a b)
  case Nil
  then show ?case by (subst (asm) split_once.simps) (auto split: if_splits)
next
  case (Cons c cs)
  then show ?case
    by (auto simp: split_once_Cons prefix_def split: if_splits)
qed

lemma split_once_char:
  "c \<notin> set a \<Longrightarrow> split_once [c] (a @ c # b) = Some (a, b)"
proof (induction a)
  case Nil
  then show ?case by (simp add: split_once_Cons)
next
  case (Cons x a)
  then show ?case by (auto simp: split_once_Cons)
qed

lemma split_once_char_None: "split_once [c] s = None \<longleftrightarrow> c \<notin> set s"
proof (induction s)
  case Nil
  then show ?case by (subst split_once.simps) simp
next
  case (Cons x s)
  then show ?case by (auto simp: split_once_Cons)
qed

text \<open>The arrow is found right after a text without its first character.\<close>

lemma split_once_fresh:
  "p = x # xs \<Longrightarrow> x \<notin> set a \<Longrightarrow> split_once p (a @ p @ b) = Some (a, b)"
proof (induction a)
  case Nil
  then show ?case by (simp add: split_once_Cons)
next
  case (Cons y a)
  then have "\<not> prefix p ((y # a) @ p @ b)" by auto
  with Cons show ?case by (simp add: split_once_Cons)
qed

subsection \<open>Facts about trim\<close>

lemma trim_start_fresh: "s \<noteq> [] \<Longrightarrow> \<not> is_whitespace (hd s) \<Longrightarrow> trim_start s = s"
  by (cases s) (simp_all add: trim_start_def)

lemma trim_fresh:
  assumes "s = [] \<or> (\<not> is_whitespace (hd s) \<and> \<not> is_whitespace (last s))"
  shows "trim s = s"
proof (cases "s = []")
  case False
  with assms have "trim_start s = s" by (simp add: trim_start_fresh)
  moreover have "dropWhile is_whitespace (rev s) = rev s"
    using assms False by (cases s rule: rev_cases) simp_all
  ultimately show ?thesis by (simp add: trim_def)
qed (simp add: trim_def trim_start_def)

lemma trim_start_spaces: "trim_start (replicate n CHR '' '' @ s) = trim_start s"
  by (induction n) (simp_all add: trim_start_def is_whitespace_def)

text \<open>Whitespace around a text that has none at its ends is trimmed away.\<close>

lemma trim_padded:
  assumes "\<forall>c\<in>set ls. is_whitespace c" "\<forall>c\<in>set rs. is_whitespace c"
    and "s = [] \<or> (\<not> is_whitespace (hd s) \<and> \<not> is_whitespace (last s))"
  shows "trim (ls @ s @ rs) = s"
proof (cases "s = []")
  case True
  then have "\<forall>x\<in>set (ls @ s @ rs). is_whitespace x" using assms(1,2) by auto
  then have "dropWhile is_whitespace (ls @ s @ rs) = []" by (simp only: dropWhile_eq_Nil_conv)
  with True show ?thesis by (simp only: trim_def trim_start_def) simp
next
  case False
  then obtain c cs where s: "s = c # cs" by (cases s) auto
  have "trim_start (ls @ s @ rs) = s @ rs"
    using assms False s by (simp add: trim_start_def dropWhile_append2)
  moreover have "dropWhile is_whitespace (rev (s @ rs)) = rev s"
  proof -
    have "dropWhile is_whitespace (rev (s @ rs)) = dropWhile is_whitespace (rev s)"
      unfolding rev_append using assms(2) by (intro dropWhile_append2) simp
    also have "\<dots> = rev s"
      using assms(3) False by (cases s rule: rev_cases) simp_all
    finally show ?thesis .
  qed
  ultimately show ?thesis by (simp add: trim_def)
qed

subsection \<open>Facts about lines\<close>

lemma split_inclusive_line:
  "newline \<notin> set l \<Longrightarrow> split_inclusive (l @ newline # s) = (l @ [newline]) # split_inclusive s"
  by (induction l) auto

lemma strip_line_end_newline:
  "carriage_return \<notin> set l \<Longrightarrow> strip_line_end (l @ [newline]) = l"
  by (auto simp: strip_line_end_def strip_suffix_def split: option.split dest: in_set_butlastD)
     (metis last_in_set)

lemma lines_concat:
  assumes "\<forall>l\<in>set ls. newline \<notin> set l \<and> carriage_return \<notin> set l"
  shows "lines (concat (map (\<lambda>l. l @ [newline]) ls)) = ls"
  using assms
proof (induction ls)
  case (Cons l ls)
  then show ?case by (simp add: lines_def split_inclusive_line strip_line_end_newline)
qed (simp add: lines_def)

end
