(* ===== verification/Fsm_Parser.thy ===== *)
theory Fsm_Parser
  imports Fsm_Strings Fsm_Graph
begin

section \<open>The runtime parsers (finitomata/src/parser)\<close>

text \<open>
  \<open>MermaidParser\<close> and \<open>PlantUmlParser\<close>. Both run over the trimmed lines of the text: a line is
  ignored, recorded, or a syntax error that ends the run. What a line is is a function of its text
  alone (\<open>mermaid_action\<close>, \<open>plantuml_action\<close>); what it does to the four collections of the parser
  is \<open>record_line\<close>, which the code has three copies of.
\<close>

subsection \<open>Data\<close>

record ParsedTransition =
  pt_from :: string
  pt_to :: string
  pt_event :: string
  pt_kind :: EventKind

record ParsedFsm =
  pf_initial :: string
  pf_finals :: "string list"
  pf_transitions :: "ParsedTransition list"
  pf_states :: "string list"

datatype ParseError =
    SyntaxError nat string
  | ParseNoInitialState
  | EmptyDefinition

fun ParseError_display :: "ParseError \<Rightarrow> string" where
  "ParseError_display (SyntaxError n m) = ''syntax error at line '' @ nat_display n @ '': '' @ m"
| "ParseError_display ParseNoInitialState = ''no initial state found''"
| "ParseError_display EmptyDefinition = ''empty FSM definition''"

text \<open>The enums \<open>ParsedLine\<close> and \<open>PlantUmlLine\<close> have the same three variants.\<close>

datatype ParsedLine =
    LineTransition string string string
  | InitialTransition string
  | FinalTransition string

type_synonym PlantUmlLine = ParsedLine

text \<open>The trait of the two parsers: one function from the text.\<close>

type_synonym FsmParser = "string \<Rightarrow> ParseError + ParsedFsm"

definition classify_event :: "string \<Rightarrow> string \<times> EventKind" where
  "classify_event raw =
     (case strip_suffix CHR ''!'' raw of
        Some stripped \<Rightarrow> (stripped, Hard)
      | None \<Rightarrow>
          (case strip_suffix CHR ''?'' raw of
             Some stripped \<Rightarrow> (stripped, Soft)
           | None \<Rightarrow> (raw, Normal)))"

subsection \<open>The collections of a run\<close>

record parse_state =
  ps_initial :: "string option"
  ps_finals :: "string list"
  ps_states :: "string list"
  ps_transitions :: "ParsedTransition list"

definition parse_start :: parse_state where
  "parse_start = \<lparr>ps_initial = None, ps_finals = [], ps_states = [], ps_transitions = []\<rparr>"

definition star :: string where "star = ''[*]''"
definition terminal :: string where "terminal = ''__terminal__''"

definition insert_state :: "string \<Rightarrow> parse_state \<Rightarrow> parse_state" where
  "insert_state s ps = ps\<lparr>ps_states := insort_insert s (ps_states ps)\<rparr>"

definition record_initial :: "string \<Rightarrow> parse_state \<Rightarrow> parse_state" where
  "record_initial to ps =
     insert_state to (if ps_initial ps = None then ps\<lparr>ps_initial := Some to\<rparr> else ps)"

definition record_final :: "string \<Rightarrow> parse_state \<Rightarrow> parse_state" where
  "record_final frm ps = insert_state frm (ps\<lparr>ps_finals := insort_insert frm (ps_finals ps)\<rparr>)"

definition push_transition :: "string \<Rightarrow> string \<Rightarrow> string \<times> EventKind \<Rightarrow> parse_state \<Rightarrow> parse_state" where
  "push_transition frm to ek ps =
     ps\<lparr>ps_transitions := ps_transitions ps @
       [\<lparr>pt_from = frm, pt_to = to, pt_event = fst ek, pt_kind = snd ek\<rparr>]\<rparr>"

fun record_line :: "ParsedLine \<Rightarrow> parse_state \<Rightarrow> parse_state" where
  "record_line (LineTransition frm to ev) ps =
     (let ek = classify_event ev in
      if frm = star then record_initial to ps
      else if to = star then push_transition frm terminal ek (record_final frm ps)
      else push_transition frm to ek (insert_state to (insert_state frm ps)))"
| "record_line (InitialTransition to) ps = record_initial to ps"
| "record_line (FinalTransition frm) ps = record_final frm ps"

subsection \<open>Mermaid lines\<close>

text \<open>\<open>state1 --> |event| state2\<close>\<close>

definition parse_flowchart_line :: "string \<Rightarrow> ParsedLine option" where
  "parse_flowchart_line line =
     (case splitn2 ''-->'' line of
        [part0, part1] \<Rightarrow>
          (let frm = trim part0;
               rest = trim part1;
               bare = (let to = rest in
                 if to \<noteq> [] then
                   (if frm = star then Some (InitialTransition to)
                    else if to = star then Some (FinalTransition frm)
                    else None)
                 else None)
           in case split_once ''|'' rest of
                None \<Rightarrow> bare
              | Some (_, after_first_pipe) \<Rightarrow>
                  (case split_once ''|'' after_first_pipe of
                     None \<Rightarrow> bare
                   | Some (ev, to) \<Rightarrow>
                       (let ev = trim ev; to = trim to
                        in if ev = [] \<or> to = [] then None else Some (LineTransition frm to ev))))
      | _ \<Rightarrow> None)"

text \<open>\<open>state1 --> state2 : event\<close>\<close>

definition parse_state_diagram_line :: "string \<Rightarrow> ParsedLine option" where
  "parse_state_diagram_line line =
     (case splitn2 ''-->'' line of
        [part0, part1] \<Rightarrow>
          (let frm = trim part0;
               rest = trim part1
           in case split_once '':'' rest of
                Some (to, ev) \<Rightarrow>
                  (let to = trim to; ev = trim ev
                   in if to = [] \<or> ev = [] then None else Some (LineTransition frm to ev))
              | None \<Rightarrow>
                  (let to = rest in
                   if frm = star \<and> to \<noteq> [] then Some (InitialTransition to)
                   else if to = star \<and> frm \<noteq> [] then Some (FinalTransition frm)
                   else None))
      | _ \<Rightarrow> None)"

datatype line_action = Ignore | Take ParsedLine | Declare string

definition mermaid_action :: "string \<Rightarrow> line_action option" where
  "mermaid_action line =
     (if line = [] \<or> prefix ''%%'' line \<or> prefix ''graph'' line \<or> prefix ''stateDiagram'' line \<or>
         prefix ''---'' line
      then Some Ignore
      else (case parse_flowchart_line line of
              Some parsed \<Rightarrow> Some (Take parsed)
            | None \<Rightarrow> map_option Take (parse_state_diagram_line line)))"

subsection \<open>PlantUML lines\<close>

definition parse_plantuml_transition :: "string \<Rightarrow> PlantUmlLine option" where
  "parse_plantuml_transition line =
     (case (if str_contains ''-->'' line then Some ''-->''
            else if str_contains ''->'' line then Some ''->'' else None) of
        None \<Rightarrow> None
      | Some arrow \<Rightarrow>
          (case splitn2 arrow line of
             [part0, part1] \<Rightarrow>
               (let frm = trim part0;
                    rest = trim part1
                in case split_once '':'' rest of
                     Some (to, ev) \<Rightarrow>
                       (let to = trim to; ev = trim ev
                        in if to = [] then None
                           else if frm = star then Some (InitialTransition to)
                           else if to = star then
                             (if ev = [] then Some (FinalTransition frm)
                              else Some (LineTransition frm star ev))
                           else if ev = [] then None
                           else Some (LineTransition frm to ev))
                   | None \<Rightarrow>
                       (let to = rest in
                        if frm = star \<and> to \<noteq> [] then Some (InitialTransition to)
                        else if to = star \<and> frm \<noteq> [] then Some (FinalTransition frm)
                        else None))
           | _ \<Rightarrow> None))"

text \<open>A line \<open>state ...\<close> that is no transition declares the state named by its second word.\<close>

definition declared_state :: "string \<Rightarrow> string option" where
  "declared_state line =
     map_option (trim_matches CHR 0x22) (Option.bind (strip_prefix ''state '' line) first_word)"

definition plantuml_action :: "string \<Rightarrow> line_action option" where
  "plantuml_action line =
     (if line = [] \<or> prefix [CHR 0x27] line \<or> prefix ''@startuml'' line \<or> prefix ''@enduml'' line \<or>
         prefix ''hide'' line \<or> prefix ''skin'' line
      then Some Ignore
      else (case parse_plantuml_transition line of
              Some parsed \<Rightarrow> Some (Take parsed)
            | None \<Rightarrow>
                if prefix ''state '' line then
                  Some (case declared_state line of Some nm \<Rightarrow> Declare nm | None \<Rightarrow> Ignore)
                else None))"

subsection \<open>The loop over the lines and the final checks\<close>

fun do_action :: "line_action \<Rightarrow> parse_state \<Rightarrow> parse_state" where
  "do_action Ignore ps = ps"
| "do_action (Take parsed) ps = record_line parsed ps"
| "do_action (Declare nm) ps = insert_state nm ps"

definition cannot_parse :: "string \<Rightarrow> string" where
  "cannot_parse line = ''cannot parse: `'' @ line @ ''`''"

fun parse_loop :: "(string \<Rightarrow> line_action option) \<Rightarrow> nat \<Rightarrow> string list \<Rightarrow> parse_state \<Rightarrow>
    ParseError + parse_state" where
  "parse_loop action line_num [] ps = Inr ps"
| "parse_loop action line_num (line # ls) ps =
     (case action (trim line) of
        None \<Rightarrow> Inl (SyntaxError (line_num + 1) (cannot_parse (trim line)))
      | Some act \<Rightarrow> parse_loop action (Suc line_num) ls (do_action act ps))"

definition parse_finish :: "parse_state \<Rightarrow> ParseError + ParsedFsm" where
  "parse_finish ps =
     (case ps_initial ps of
        None \<Rightarrow> Inl ParseNoInitialState
      | Some ini \<Rightarrow>
          if ps_transitions ps = [] \<and> length (ps_states ps) \<le> 1 then Inl EmptyDefinition
          else Inr \<lparr>pf_initial = ini, pf_finals = ps_finals ps, pf_transitions = ps_transitions ps,
                    pf_states = ps_states ps\<rparr>)"

definition parse_with :: "(string \<Rightarrow> line_action option) \<Rightarrow> string \<Rightarrow> ParseError + ParsedFsm" where
  "parse_with action input =
     (case parse_loop action 0 (lines input) parse_start of
        Inl err \<Rightarrow> Inl err
      | Inr ps \<Rightarrow> parse_finish ps)"

definition MermaidParser_parse :: FsmParser where
  "MermaidParser_parse input = parse_with mermaid_action input"

definition PlantUmlParser_parse :: FsmParser where
  "PlantUmlParser_parse input = parse_with plantuml_action input"

subsection \<open>The invariant of the collections\<close>

definition parse_inv :: "parse_state \<Rightarrow> bool" where
  "parse_inv ps \<longleftrightarrow>
     sorted (ps_states ps) \<and> distinct (ps_states ps) \<and> sorted (ps_finals ps) \<and> distinct (ps_finals ps) \<and>
     set (ps_finals ps) \<subseteq> set (ps_states ps) \<and>
     (\<forall>ini. ps_initial ps = Some ini \<longrightarrow> ini \<in> set (ps_states ps)) \<and>
     (\<forall>t\<in>set (ps_transitions ps). pt_from t \<in> set (ps_states ps) \<and> pt_from t \<noteq> star \<and>
        (pt_to t \<in> set (ps_states ps) \<and> pt_to t \<noteq> star \<or> pt_to t = terminal \<and> pt_from t \<in> set (ps_finals ps)))"

lemma parse_inv_start: "parse_inv parse_start"
  by (simp add: parse_inv_def parse_start_def)

lemma parse_inv_insert_state: "parse_inv ps \<Longrightarrow> parse_inv (insert_state s ps)"
  by (fastforce simp: parse_inv_def insert_state_def sorted_insort_insert distinct_insort_insert set_insort_insert)

lemma insert_state_sel [simp]:
  "set (ps_states (insert_state s ps)) = insert s (set (ps_states ps))"
  "ps_finals (insert_state s ps) = ps_finals ps" "ps_initial (insert_state s ps) = ps_initial ps"
  "ps_transitions (insert_state s ps) = ps_transitions ps"
  by (simp_all add: insert_state_def set_insort_insert)

lemma parse_inv_record_initial: "parse_inv ps \<Longrightarrow> parse_inv (record_initial s ps)"
  by (fastforce simp: parse_inv_def record_initial_def insert_state_def sorted_insort_insert
      distinct_insort_insert set_insort_insert)

lemma parse_inv_record_final: "parse_inv ps \<Longrightarrow> parse_inv (record_final s ps)"
  by (fastforce simp: parse_inv_def record_final_def insert_state_def sorted_insort_insert
      distinct_insort_insert set_insort_insert)

lemma record_final_sel [simp]:
  "s \<in> set (ps_finals (record_final s ps))" "s \<in> set (ps_states (record_final s ps))"
  by (simp_all add: record_final_def set_insort_insert)

lemma parse_inv_push:
  assumes "parse_inv ps" "frm \<in> set (ps_states ps)" "frm \<noteq> star"
    and "to \<in> set (ps_states ps) \<and> to \<noteq> star \<or> to = terminal \<and> frm \<in> set (ps_finals ps)"
  shows "parse_inv (push_transition frm to ek ps)"
  using assms by (auto simp: parse_inv_def push_transition_def)

lemma parse_inv_record_line: "parse_inv ps \<Longrightarrow> parse_inv (record_line l ps)"
proof (cases l)
  case (LineTransition frm to ev)
  assume inv: "parse_inv ps"
  consider "frm = star" | "frm \<noteq> star" "to = star" | "frm \<noteq> star" "to \<noteq> star" by blast
  then show ?thesis
  proof cases
    case 1
    with LineTransition inv show ?thesis by (simp add: Let_def parse_inv_record_initial)
  next
    case 2
    have "parse_inv (push_transition frm terminal (classify_event ev) (record_final frm ps))"
      using 2 inv by (intro parse_inv_push parse_inv_record_final) simp_all
    with 2 LineTransition show ?thesis by (simp add: Let_def)
  next
    case 3
    have "parse_inv (push_transition frm to (classify_event ev) (insert_state to (insert_state frm ps)))"
      using 3 inv by (intro parse_inv_push parse_inv_insert_state) simp_all
    with 3 LineTransition show ?thesis by (simp add: Let_def)
  qed
qed (simp_all add: parse_inv_record_initial parse_inv_record_final)

lemma parse_inv_do_action: "parse_inv ps \<Longrightarrow> parse_inv (do_action act ps)"
  by (cases act) (simp_all add: parse_inv_record_line parse_inv_insert_state)

lemma parse_inv_loop: "parse_loop action n ls ps = Inr ps' \<Longrightarrow> parse_inv ps \<Longrightarrow> parse_inv ps'"
  by (induction action n ls ps rule: parse_loop.induct)
     (auto simp: parse_inv_do_action split: option.splits)

definition well_formed :: "ParsedFsm \<Rightarrow> bool" where
  "well_formed fsm \<longleftrightarrow>
     pf_initial fsm \<in> set (pf_states fsm) \<and> set (pf_finals fsm) \<subseteq> set (pf_states fsm) \<and>
     sorted (pf_states fsm) \<and> distinct (pf_states fsm) \<and> sorted (pf_finals fsm) \<and> distinct (pf_finals fsm) \<and>
     (pf_transitions fsm \<noteq> [] \<or> length (pf_states fsm) \<ge> 2) \<and>
     (\<forall>t\<in>set (pf_transitions fsm). pt_from t \<in> set (pf_states fsm) \<and> pt_from t \<noteq> star \<and>
        (pt_to t \<in> set (pf_states fsm) \<and> pt_to t \<noteq> star \<or> pt_to t = terminal \<and> pt_from t \<in> set (pf_finals fsm)))"

lemma parse_with_well_formed: "parse_with action input = Inr fsm \<Longrightarrow> well_formed fsm"
  using parse_inv_loop [OF _ parse_inv_start, of action 0 "lines input"]
  by (auto simp: parse_with_def parse_finish_def well_formed_def parse_inv_def split: sum.splits option.splits if_splits)

end
