(* ===== verification/Fsm_Render.thy ===== *)
theory Fsm_Render
  imports Fsm_Parser
begin

section \<open>Rendering a parsed machine back to text\<close>

text \<open>
  The inverse of the parsers, for their round trip: a machine is written as its initial line, its
  transitions in order and its final states. The three line syntaxes (Mermaid flowcharts, Mermaid
  state diagrams, PlantUML) differ in the text of a line only; what the round trip needs of a
  syntax is the locale \<open>line_syntax\<close>, proved once and interpreted for each.
\<close>

subsection \<open>Names\<close>

text \<open>Letters, digits and the underscore.\<close>

definition name_char :: "char \<Rightarrow> bool" where
  "name_char c =
     (let n = (of_char c :: nat) in (48 \<le> n \<and> n \<le> 57) \<or> (65 \<le> n \<and> n \<le> 90) \<or> n = 95 \<or> (97 \<le> n \<and> n \<le> 122))"

definition plain :: "string \<Rightarrow> bool" where
  "plain s \<longleftrightarrow> s \<noteq> [] \<and> list_all name_char s \<and> s \<noteq> terminal"

definition kind_suffix :: "EventKind \<Rightarrow> string" where
  "kind_suffix k = (case k of Hard \<Rightarrow> ''!'' | Soft \<Rightarrow> ''?'' | Normal \<Rightarrow> '''')"

definition event_label :: "string \<Rightarrow> bool" where
  "event_label raw \<longleftrightarrow> (\<exists>e k. e \<noteq> [] \<and> list_all name_char e \<and> raw = e @ kind_suffix k)"

lemma name_char_not_special:
  assumes "name_char c"
  shows "\<not> is_whitespace c" "c \<noteq> CHR ''-''" "c \<noteq> CHR ''|''" "c \<noteq> CHR '':''" "c \<noteq> CHR ''!''" "c \<noteq> CHR ''?''"
    "c \<noteq> CHR ''[''" "c \<noteq> newline" "c \<noteq> carriage_return" "c \<noteq> CHR ''%''" "c \<noteq> CHR ''@''" "c \<noteq> CHR 0x27"
  using assms by (auto simp: name_char_def is_whitespace_def newline_def carriage_return_def Let_def)

lemma plain_facts:
  assumes "plain s"
  shows "s \<noteq> []" "s \<noteq> star" "s \<noteq> terminal" "\<not> is_whitespace (hd s)" "\<not> is_whitespace (last s)"
    "CHR ''-'' \<notin> set s" "CHR ''|'' \<notin> set s" "CHR '':'' \<notin> set s" "newline \<notin> set s" "carriage_return \<notin> set s"
proof -
  from assms have s: "s \<noteq> []" "\<forall>c\<in>set s. name_char c" "s \<noteq> terminal"
    by (simp_all add: plain_def list_all_iff)
  show "s \<noteq> []" "s \<noteq> terminal" by fact+
  show "s \<noteq> star" using s(2) name_char_not_special(7) by (force simp: star_def)
  show "\<not> is_whitespace (hd s)" "\<not> is_whitespace (last s)"
    using s(1,2) name_char_not_special(1) by simp_all
  show "CHR ''-'' \<notin> set s" using s(2) name_char_not_special(2) by blast
  show "CHR ''|'' \<notin> set s" using s(2) name_char_not_special(3) by blast
  show "CHR '':'' \<notin> set s" using s(2) name_char_not_special(4) by blast
  show "newline \<notin> set s" using s(2) name_char_not_special(8) by blast
  show "carriage_return \<notin> set s" using s(2) name_char_not_special(9) by blast
qed

text \<open>A target in a line: a name, or the marker.\<close>

lemma target_facts:
  assumes "plain s \<or> s = star"
  shows "s \<noteq> []" "\<not> is_whitespace (hd s)" "\<not> is_whitespace (last s)" "CHR ''-'' \<notin> set s"
    "CHR ''|'' \<notin> set s" "CHR '':'' \<notin> set s" "newline \<notin> set s" "carriage_return \<notin> set s"
  using assms plain_facts
  by (auto simp: star_def is_whitespace_def newline_def carriage_return_def)

lemma label_facts:
  assumes "event_label s"
  shows "s \<noteq> []" "\<not> is_whitespace (hd s)" "\<not> is_whitespace (last s)"
    "CHR ''|'' \<notin> set s" "CHR '':'' \<notin> set s" "newline \<notin> set s" "carriage_return \<notin> set s"
proof -
  from assms obtain e k where e: "e \<noteq> []" "\<forall>c\<in>set e. name_char c" and s: "s = e @ kind_suffix k"
    by (auto simp: event_label_def list_all_iff)
  show "s \<noteq> []" "\<not> is_whitespace (hd s)" using e s name_char_not_special(1) by auto
  show "\<not> is_whitespace (last s)"
    using e s name_char_not_special(1) by (cases k) (auto simp: kind_suffix_def is_whitespace_def)
  show "CHR ''|'' \<notin> set s" "CHR '':'' \<notin> set s" "newline \<notin> set s" "carriage_return \<notin> set s"
    using e(2) s name_char_not_special(3,4,8,9)
    by (cases k; force simp: kind_suffix_def newline_def carriage_return_def)+
qed

subsection \<open>Event classification\<close>

lemma classify_event_lossless: "raw = fst (classify_event raw) @ kind_suffix (snd (classify_event raw))"
  by (auto simp: classify_event_def strip_suffix_def kind_suffix_def split: option.split)
     (metis append_butlast_last_id)+

lemma classify_event_suffix:
  assumes "k = Normal \<Longrightarrow> ev = [] \<or> last ev \<noteq> CHR ''!'' \<and> last ev \<noteq> CHR ''?''"
  shows "classify_event (ev @ kind_suffix k) = (ev, k)"
  using assms by (cases k) (auto simp: classify_event_def strip_suffix_def kind_suffix_def)

subsection \<open>Printing\<close>

definition shown_target :: "ParsedTransition \<Rightarrow> string" where
  "shown_target t = (if pt_to t = terminal then star else pt_to t)"

definition shown_event :: "ParsedTransition \<Rightarrow> string" where
  "shown_event t = pt_event t @ kind_suffix (pt_kind t)"

definition print_lines :: "(string \<Rightarrow> string \<Rightarrow> string \<Rightarrow> string) \<Rightarrow> ParsedFsm \<Rightarrow> string list" where
  "print_lines render fsm =
     (star @ '' --> '' @ pf_initial fsm) #
     map (\<lambda>t. render (pt_from t) (shown_event t) (shown_target t)) (pf_transitions fsm) @
     map (\<lambda>s. s @ '' --> '' @ star) (pf_finals fsm)"

definition print_fsm :: "(string \<Rightarrow> string \<Rightarrow> string \<Rightarrow> string) \<Rightarrow> ParsedFsm \<Rightarrow> string" where
  "print_fsm render fsm = concat (map (\<lambda>l. l @ [newline]) (print_lines render fsm))"

definition flowchart_line :: "string \<Rightarrow> string \<Rightarrow> string \<Rightarrow> string" where
  "flowchart_line frm ev to = frm @ '' --> |'' @ ev @ ''| '' @ to"

definition diagram_line :: "string \<Rightarrow> string \<Rightarrow> string \<Rightarrow> string" where
  "diagram_line frm ev to = frm @ '' --> '' @ to @ '' : '' @ ev"

text \<open>
  A machine a parse can yield and a text can carry: names and events are plain, the lists are
  those of a parse, and every state is mentioned by a line.
\<close>

definition printable :: "(string \<Rightarrow> bool) \<Rightarrow> ParsedFsm \<Rightarrow> bool" where
  "printable ok fsm \<longleftrightarrow>
     ok (pf_initial fsm) \<and> list_all ok (pf_finals fsm) \<and>
     list_all (\<lambda>t. ok (pt_from t) \<and> pt_event t \<noteq> [] \<and> list_all name_char (pt_event t) \<and>
        (pt_to t = terminal \<and> pt_from t \<in> set (pf_finals fsm) \<or> ok (pt_to t))) (pf_transitions fsm) \<and>
     sorted (pf_states fsm) \<and> distinct (pf_states fsm) \<and> sorted (pf_finals fsm) \<and> distinct (pf_finals fsm) \<and>
     set (pf_states fsm) = insert (pf_initial fsm) (set (pf_finals fsm) \<union>
       (\<Union>t\<in>set (pf_transitions fsm). {pt_from t} \<union> (if pt_to t = terminal then {} else {pt_to t}))) \<and>
     (pf_transitions fsm \<noteq> [] \<or> length (pf_states fsm) \<ge> 2)"

subsection \<open>The round trip, for any line syntax\<close>

text \<open>The fields of a run that reads the lines of a printed machine.\<close>

definition read_transitions :: "ParsedTransition list \<Rightarrow> parse_state \<Rightarrow> parse_state \<Rightarrow> bool" where
  "read_transitions ts ps ps' \<longleftrightarrow>
     ps_initial ps' = ps_initial ps \<and> ps_transitions ps' = ps_transitions ps @ ts \<and>
     set (ps_states ps') = set (ps_states ps) \<union>
       (\<Union>t\<in>set ts. {pt_from t} \<union> (if pt_to t = terminal then {} else {pt_to t})) \<and>
     set (ps_finals ps') = set (ps_finals ps) \<union> {pt_from t |t. t \<in> set ts \<and> pt_to t = terminal}"

definition read_finals :: "string list \<Rightarrow> parse_state \<Rightarrow> parse_state \<Rightarrow> bool" where
  "read_finals fs ps ps' \<longleftrightarrow>
     ps_initial ps' = ps_initial ps \<and> ps_transitions ps' = ps_transitions ps \<and>
     set (ps_states ps') = set (ps_states ps) \<union> set fs \<and> set (ps_finals ps') = set (ps_finals ps) \<union> set fs"

lemma parse_loop_append:
  "parse_loop action n (ls @ ls') ps =
     (case parse_loop action n ls ps of
        Inl err \<Rightarrow> Inl err | Inr ps' \<Rightarrow> parse_loop action (n + length ls) ls' ps')"
  by (induction action n ls ps rule: parse_loop.induct) (auto split: option.split sum.split)

locale line_syntax =
  fixes action :: "string \<Rightarrow> line_action option"
    and render :: "string \<Rightarrow> string \<Rightarrow> string \<Rightarrow> string"
    and ok :: "string \<Rightarrow> bool"
  assumes ok_plain: "ok s \<Longrightarrow> plain s"
    and transition_line: "ok frm \<Longrightarrow> ok to \<or> to = star \<Longrightarrow> event_label ev \<Longrightarrow>
      action (trim (render frm ev to)) = Some (Take (LineTransition frm to ev))"
    and initial_line: "ok to \<Longrightarrow> action (trim (star @ '' --> '' @ to)) = Some (Take (InitialTransition to))"
    and final_line: "ok frm \<Longrightarrow> action (trim (frm @ '' --> '' @ star)) = Some (Take (FinalTransition frm))"
    and one_line: "ok frm \<Longrightarrow> ok to \<or> to = star \<Longrightarrow> event_label ev \<Longrightarrow>
      newline \<notin> set (render frm ev to) \<and> carriage_return \<notin> set (render frm ev to)"
begin

lemma read_one:
  assumes "ok (pt_from t)" "pt_event t \<noteq> []" "list_all name_char (pt_event t)" "pt_to t = terminal \<or> ok (pt_to t)"
  shows "\<exists>ps'. do_action (Take (LineTransition (pt_from t) (shown_target t) (shown_event t))) ps = ps' \<and>
    read_transitions [t] ps ps'"
proof -
  have "name_char (last (pt_event t))" using assms(2,3) by (simp add: list_all_iff)
  from name_char_not_special(5,6) [OF this]
  have ev: "classify_event (shown_event t) = (pt_event t, pt_kind t)"
    unfolding shown_event_def by (intro classify_event_suffix) blast
  have "pt_from t \<noteq> star" using ok_plain [OF assms(1)] plain_facts by blast
  moreover have "pt_to t \<noteq> terminal \<Longrightarrow> pt_to t \<noteq> star" using assms(4) ok_plain plain_facts by blast
  ultimately show ?thesis
    using ev by (auto simp: shown_target_def read_transitions_def push_transition_def record_final_def
        insert_state_def set_insort_insert Let_def)
qed

lemma read_transition_lines:
  assumes "list_all (\<lambda>t. ok (pt_from t) \<and> pt_event t \<noteq> [] \<and> list_all name_char (pt_event t) \<and>
      (pt_to t = terminal \<or> ok (pt_to t))) ts"
  shows "\<exists>ps'. parse_loop action n (map (\<lambda>t. render (pt_from t) (shown_event t) (shown_target t)) ts) ps = Inr ps' \<and>
    read_transitions ts ps ps'"
  using assms
proof (induction ts arbitrary: n ps)
  case Nil
  then show ?case by (simp add: read_transitions_def)
next
  case (Cons t ts)
  then have t: "ok (pt_from t)" "pt_event t \<noteq> []" "list_all name_char (pt_event t)"
    "pt_to t = terminal \<or> ok (pt_to t)" by simp_all
  then have "event_label (shown_event t)" by (auto simp: event_label_def shown_event_def)
  moreover have "ok (shown_target t) \<or> shown_target t = star" using t(4) by (auto simp: shown_target_def)
  ultimately have act: "action (trim (render (pt_from t) (shown_event t) (shown_target t))) =
      Some (Take (LineTransition (pt_from t) (shown_target t) (shown_event t)))"
    using transition_line t(1) by blast
  from read_one [OF t] obtain ps1 where
    one: "do_action (Take (LineTransition (pt_from t) (shown_target t) (shown_event t))) ps = ps1"
    "read_transitions [t] ps ps1" by blast
  from Cons.IH [of "Suc n" ps1] Cons.prems obtain ps2 where
    rest: "parse_loop action (Suc n) (map (\<lambda>t. render (pt_from t) (shown_event t) (shown_target t)) ts) ps1 = Inr ps2"
    "read_transitions ts ps1 ps2" by auto
  have "read_transitions (t # ts) ps ps2"
    using one(2) rest(2) by (auto simp: read_transitions_def)
  with act one(1) rest(1) show ?case by simp
qed

lemma read_final_lines:
  assumes "list_all ok fs"
  shows "\<exists>ps'. parse_loop action n (map (\<lambda>s. s @ '' --> '' @ star) fs) ps = Inr ps' \<and> read_finals fs ps ps'"
  using assms
proof (induction fs arbitrary: n ps)
  case Nil
  then show ?case by (simp add: read_finals_def)
next
  case (Cons f fs)
  from Cons.IH [of "Suc n" "record_final f ps"] Cons.prems obtain ps2 where
    rest: "parse_loop action (Suc n) (map (\<lambda>s. s @ '' --> '' @ star) fs) (record_final f ps) = Inr ps2"
    "read_finals fs (record_final f ps) ps2" by auto
  have "read_finals (f # fs) ps ps2"
    using rest(2) by (simp add: read_finals_def record_final_def insert_state_def set_insort_insert)
  with rest(1) final_line [of f] Cons.prems show ?case by simp
qed

lemma printed_lines:
  assumes "printable ok fsm"
  shows "lines (print_fsm render fsm) = print_lines render fsm"
  unfolding print_fsm_def
proof (rule lines_concat, rule ballI)
  fix l assume "l \<in> set (print_lines render fsm)"
  then consider "l = star @ '' --> '' @ pf_initial fsm"
    | t where "t \<in> set (pf_transitions fsm)" "l = render (pt_from t) (shown_event t) (shown_target t)"
    | f where "f \<in> set (pf_finals fsm)" "l = f @ '' --> '' @ star"
    by (auto simp: print_lines_def)
  then show "newline \<notin> set l \<and> carriage_return \<notin> set l"
  proof cases
    case 1
    have "plain (pf_initial fsm)" using assms ok_plain by (simp add: printable_def)
    with 1 plain_facts(9,10) show ?thesis by (auto simp: star_def newline_def carriage_return_def)
  next
    case (2 t)
    then have t: "ok (pt_from t)" "pt_event t \<noteq> []" "list_all name_char (pt_event t)" "pt_to t = terminal \<or> ok (pt_to t)"
      using assms by (auto simp: printable_def list_all_iff)
    then have "event_label (shown_event t)" by (auto simp: event_label_def shown_event_def)
    moreover have "ok (shown_target t) \<or> shown_target t = star" using t(4) by (auto simp: shown_target_def)
    ultimately show ?thesis using one_line t(1) 2(2) by blast
  next
    case (3 f)
    have "plain f" using 3(1) assms ok_plain by (simp add: printable_def list_all_iff)
    with 3(2) plain_facts(9,10) show ?thesis by (auto simp: star_def newline_def carriage_return_def)
  qed
qed

lemma round_trip:
  assumes pr: "printable ok fsm"
  shows "parse_with action (print_fsm render fsm) = Inr fsm"
proof -
  let ?ini = "pf_initial fsm" and ?ts = "pf_transitions fsm" and ?fs = "pf_finals fsm"
  let ?ps0 = "record_initial ?ini parse_start"
  have ini: "ok ?ini" and fs: "list_all ok ?fs" and ts: "list_all (\<lambda>t. ok (pt_from t) \<and> pt_event t \<noteq> [] \<and>
      list_all name_char (pt_event t) \<and> (pt_to t = terminal \<or> ok (pt_to t))) ?ts"
    using pr by (auto simp: printable_def list_all_iff)
  from read_transition_lines [OF ts, of "Suc 0" ?ps0] obtain ps1 where
    l1: "parse_loop action (Suc 0) (map (\<lambda>t. render (pt_from t) (shown_event t) (shown_target t)) ?ts) ?ps0 = Inr ps1"
    and r1: "read_transitions ?ts ?ps0 ps1" by blast
  from read_final_lines [OF fs, of "Suc 0 + length ?ts" ps1] obtain ps2 where
    l2: "parse_loop action (Suc 0 + length ?ts) (map (\<lambda>s. s @ '' --> '' @ star) ?fs) ps1 = Inr ps2"
    and r2: "read_finals ?fs ps1 ps2" by blast
  have loop: "parse_loop action 0 (print_lines render fsm) parse_start = Inr ps2"
    using initial_line [OF ini] l1 l2 by (simp add: print_lines_def parse_loop_append)
  from parse_inv_loop [OF this parse_inv_start] have inv: "parse_inv ps2" .
  have ps0: "ps_initial ?ps0 = Some ?ini" "set (ps_states ?ps0) = {?ini}" "ps_finals ?ps0 = []" "ps_transitions ?ps0 = []"
    by (simp_all add: record_initial_def parse_start_def)
  have "set (ps_states ps2) = set (pf_states fsm)"
    using r1 r2 ps0 pr by (auto simp: read_transitions_def read_finals_def printable_def)
  then have states: "ps_states ps2 = pf_states fsm"
    using inv pr by (intro sorted_distinct_set_unique) (simp_all add: parse_inv_def printable_def)
  have "{pt_from t |t. t \<in> set ?ts \<and> pt_to t = terminal} \<subseteq> set ?fs"
    using pr ok_plain plain_facts(3) by (fastforce simp: printable_def list_all_iff)
  then have "set (ps_finals ps2) = set ?fs"
    using r1 r2 ps0 by (auto simp: read_transitions_def read_finals_def)
  then have finals: "ps_finals ps2 = ?fs"
    using inv pr by (intro sorted_distinct_set_unique) (simp_all add: parse_inv_def printable_def)
  have trans: "ps_transitions ps2 = ?ts" "ps_initial ps2 = Some ?ini"
    using r1 r2 ps0 by (simp_all add: read_transitions_def read_finals_def)
  have "?ts \<noteq> [] \<or> \<not> length (pf_states fsm) \<le> 1" using pr by (auto simp: printable_def)
  then have "parse_finish ps2 = Inr fsm"
    using states finals trans by (auto simp: parse_finish_def)
  with loop show ?thesis by (simp add: parse_with_def printed_lines [OF pr])
qed

end

subsection \<open>The three syntaxes\<close>

lemma split_arrow:
  "CHR ''-'' \<notin> set frm \<Longrightarrow> split_once ''-->'' (frm @ '' --> '' @ rest) = Some (frm @ '' '', '' '' @ rest)"
  using split_once_fresh [of "''-->''" "CHR ''-''" "''->''" "frm @ '' ''" "'' '' @ rest"] by simp

lemma trim_pad:
  assumes "s = [] \<or> (\<not> is_whitespace (hd s) \<and> \<not> is_whitespace (last s))"
  shows "trim (s @ '' '') = s" "trim ('' '' @ s) = s"
  using trim_padded [OF _ _ assms, of "[]" "'' ''"] trim_padded [OF _ _ assms, of "'' ''" "[]"]
  by (simp_all add: is_whitespace_def)

lemma flowchart_split:
  assumes "plain frm" "plain to \<or> to = star" "event_label ev"
  shows "splitn2 ''-->'' (flowchart_line frm ev to) = [frm @ '' '', '' '' @ ''|'' @ ev @ ''| '' @ to]"
    "trim (frm @ '' '') = frm" "trim ('' '' @ ''|'' @ ev @ ''| '' @ to) = ''|'' @ ev @ ''| '' @ to"
    "split_once ''|'' (''|'' @ ev @ ''| '' @ to) = Some ([], ev @ ''| '' @ to)"
    "split_once ''|'' (ev @ ''| '' @ to) = Some (ev, '' '' @ to)" "trim ev = ev" "trim ('' '' @ to) = to"
proof -
  note f = plain_facts [OF assms(1)] and t = target_facts [OF assms(2)] and e = label_facts [OF assms(3)]
  show "splitn2 ''-->'' (flowchart_line frm ev to) = [frm @ '' '', '' '' @ ''|'' @ ev @ ''| '' @ to]"
    using split_arrow [OF f(6), of "''|'' @ ev @ ''| '' @ to"] by (simp add: splitn2_def flowchart_line_def)
  show "trim (frm @ '' '') = frm" "trim ('' '' @ to) = to" "trim ev = ev"
    using f(4,5) t(2,3) e(2,3) by (intro trim_pad trim_fresh, simp)+
  show "trim ('' '' @ ''|'' @ ev @ ''| '' @ to) = ''|'' @ ev @ ''| '' @ to"
    using t(1,3) by (intro trim_pad) (simp add: is_whitespace_def)
  show "split_once ''|'' (''|'' @ ev @ ''| '' @ to) = Some ([], ev @ ''| '' @ to)"
    using split_once_char [of "CHR ''|''" "[]"] by simp
  show "split_once ''|'' (ev @ ''| '' @ to) = Some (ev, '' '' @ to)"
    using split_once_char [OF e(4), of "'' '' @ to"] by simp
qed

lemma flowchart_reads:
  assumes "plain frm" "plain to \<or> to = star" "event_label ev"
  shows "parse_flowchart_line (flowchart_line frm ev to) = Some (LineTransition frm to ev)"
  using flowchart_split [OF assms] target_facts(1) [OF assms(2)] label_facts(1) [OF assms(3)]
  by (simp add: parse_flowchart_line_def Let_def)

lemma diagram_split:
  assumes "plain frm" "plain to \<or> to = star" "event_label ev"
  shows "splitn2 ''-->'' (diagram_line frm ev to) = [frm @ '' '', '' '' @ to @ '' : '' @ ev]"
    "trim (frm @ '' '') = frm" "trim ('' '' @ to @ '' : '' @ ev) = to @ '' : '' @ ev"
    "split_once '':'' (to @ '' : '' @ ev) = Some (to @ '' '', '' '' @ ev)"
    "trim (to @ '' '') = to" "trim ('' '' @ ev) = ev" "split_once ''|'' (to @ '' : '' @ ev) = None"
    "to @ '' : '' @ ev \<noteq> star"
proof -
  note f = plain_facts [OF assms(1)] and t = target_facts [OF assms(2)] and e = label_facts [OF assms(3)]
  show "splitn2 ''-->'' (diagram_line frm ev to) = [frm @ '' '', '' '' @ to @ '' : '' @ ev]"
    using split_arrow [OF f(6), of "to @ '' : '' @ ev"] by (simp add: splitn2_def diagram_line_def)
  show "trim (frm @ '' '') = frm" "trim (to @ '' '') = to" "trim ('' '' @ ev) = ev"
    using f(4,5) t(2,3) e(2,3) by (intro trim_pad, simp)+
  show "trim ('' '' @ to @ '' : '' @ ev) = to @ '' : '' @ ev"
    using t(1,2) e(1,3) by (intro trim_pad) simp
  have "CHR '':'' \<notin> set (to @ '' '')" using t(6) by simp
  from split_once_char [OF this, of "'' '' @ ev"]
  show "split_once '':'' (to @ '' : '' @ ev) = Some (to @ '' '', '' '' @ ev)" by simp
  show "split_once ''|'' (to @ '' : '' @ ev) = None"
    using t(5) e(4) by (simp add: split_once_char_None)
  show "to @ '' : '' @ ev \<noteq> star"
  proof
    assume "to @ '' : '' @ ev = star"
    then have "set (to @ '' : '' @ ev) = set star" by simp
    then have "CHR '':'' \<in> set star" by auto
    then show False by (simp add: star_def)
  qed
qed

lemma diagram_reads:
  assumes "plain frm" "plain to \<or> to = star" "event_label ev"
  shows "parse_flowchart_line (diagram_line frm ev to) = None"
    "parse_state_diagram_line (diagram_line frm ev to) = Some (LineTransition frm to ev)"
    "parse_plantuml_transition (diagram_line frm ev to) = Some (LineTransition frm to ev)"
proof -
  note d = diagram_split [OF assms]
  have ne: "frm \<noteq> star" "to \<noteq> []" "ev \<noteq> []"
    using plain_facts(2) [OF assms(1)] target_facts(1) [OF assms(2)] label_facts(1) [OF assms(3)] by auto
  show "parse_flowchart_line (diagram_line frm ev to) = None"
    using d ne by (simp add: parse_flowchart_line_def Let_def)
  show "parse_state_diagram_line (diagram_line frm ev to) = Some (LineTransition frm to ev)"
    using d ne by (simp add: parse_state_diagram_line_def Let_def)
  have "str_contains ''-->'' (diagram_line frm ev to)"
    using split_arrow [OF plain_facts(6) [OF assms(1)], of "to @ '' : '' @ ev"]
    by (simp add: str_contains_def diagram_line_def)
  then show "parse_plantuml_transition (diagram_line frm ev to) = Some (LineTransition frm to ev)"
    using d ne by (auto simp: parse_plantuml_transition_def Let_def)
qed

lemma bare_split:
  assumes "plain frm \<or> frm = star" "plain to \<or> to = star"
  shows "splitn2 ''-->'' (frm @ '' --> '' @ to) = [frm @ '' '', '' '' @ to]" "trim (frm @ '' '') = frm" "trim ('' '' @ to) = to"
    "split_once ''|'' to = None" "split_once '':'' to = None" "str_contains ''-->'' (frm @ '' --> '' @ to)"
proof -
  note f = target_facts [OF assms(1)] and t = target_facts [OF assms(2)]
  show "splitn2 ''-->'' (frm @ '' --> '' @ to) = [frm @ '' '', '' '' @ to]" "str_contains ''-->'' (frm @ '' --> '' @ to)"
    using split_arrow [OF f(4), of to] by (simp_all add: splitn2_def str_contains_def)
  show "trim (frm @ '' '') = frm" "trim ('' '' @ to) = to"
    using f(2,3) t(2,3) by (intro trim_pad, simp)+
  show "split_once ''|'' to = None" "split_once '':'' to = None"
    using t(5,6) by (simp_all add: split_once_char_None)
qed

lemma bare_reads:
  assumes "plain s"
  shows "parse_flowchart_line (star @ '' --> '' @ s) = Some (InitialTransition s)"
    "parse_flowchart_line (s @ '' --> '' @ star) = Some (FinalTransition s)"
    "parse_plantuml_transition (star @ '' --> '' @ s) = Some (InitialTransition s)"
    "parse_plantuml_transition (s @ '' --> '' @ star) = Some (FinalTransition s)"
proof -
  have i: "plain star \<or> star = star" "plain s \<or> s = star" using assms by simp_all
  have ne: "s \<noteq> []" "s \<noteq> star" "star \<noteq> []" using plain_facts [OF assms] by (simp_all add: star_def)
  note di = bare_split [OF i] and df = bare_split [OF i(2,1)]
  show "parse_flowchart_line (star @ '' --> '' @ s) = Some (InitialTransition s)"
    using di ne by (simp add: parse_flowchart_line_def Let_def)
  show "parse_flowchart_line (s @ '' --> '' @ star) = Some (FinalTransition s)"
    using df ne by (simp add: parse_flowchart_line_def Let_def)
  show "parse_plantuml_transition (star @ '' --> '' @ s) = Some (InitialTransition s)"
    using di ne by (auto simp: parse_plantuml_transition_def Let_def)
  show "parse_plantuml_transition (s @ '' --> '' @ star) = Some (FinalTransition s)"
    using df ne by (auto simp: parse_plantuml_transition_def Let_def)
qed

text \<open>
  The names a syntax can carry: a line that begins with a keyword of the syntax is ignored, so a
  state whose name begins with one cannot be the source of a line.
\<close>

definition mermaid_name :: "string \<Rightarrow> bool" where
  "mermaid_name s \<longleftrightarrow> plain s \<and> \<not> prefix ''graph'' s \<and> \<not> prefix ''stateDiagram'' s"

definition plantuml_name :: "string \<Rightarrow> bool" where
  "plantuml_name s \<longleftrightarrow> plain s \<and> \<not> prefix ''hide'' s \<and> \<not> prefix ''skin'' s"

lemma prefix_before_space:
  "CHR '' '' \<notin> set p \<Longrightarrow> prefix p (s @ CHR '' '' # rest) \<longleftrightarrow> prefix p s"
proof (induction s arbitrary: p)
  case Nil
  then show ?case by (cases p) auto
next
  case (Cons c s)
  then show ?case by (cases p) auto
qed

lemma line_begins:
  assumes "plain s \<or> s = star"
  shows "\<not> prefix ''%%'' s" "\<not> prefix ''---'' s"
    "\<not> prefix [CHR 0x27] s" "\<not> prefix ''@startuml'' s"
    "\<not> prefix ''@enduml'' s"
proof -
  obtain c cs where s: "s = c # cs" using target_facts(1) [OF assms] by (cases s) auto
  have "name_char c \<or> c = CHR ''[''" using assms s by (auto simp: plain_def star_def)
  then have "c \<noteq> CHR ''%''" "c \<noteq> CHR ''-''" "c \<noteq> CHR 0x27" "c \<noteq> CHR ''@''"
    using name_char_not_special(2,10,11,12) by auto
  with s show "\<not> prefix ''%%'' s" "\<not> prefix ''---'' s"
    "\<not> prefix [CHR 0x27] s" "\<not> prefix ''@startuml'' s"
    "\<not> prefix ''@enduml'' s" by auto
qed

lemma mermaid_line:
  assumes "mermaid_name s \<or> s = star"
  shows "mermaid_action (s @ CHR '' '' # rest) =
    (case parse_flowchart_line (s @ CHR '' '' # rest) of
       Some parsed \<Rightarrow> Some (Take parsed)
     | None \<Rightarrow> map_option Take (parse_state_diagram_line (s @ CHR '' '' # rest)))"
proof -
  have "plain s \<or> s = star" using assms by (auto simp: mermaid_name_def)
  moreover have "\<not> prefix ''graph'' s" "\<not> prefix ''stateDiagram'' s"
    using assms by (auto simp: mermaid_name_def star_def)
  ultimately show ?thesis
    by (simp add: mermaid_action_def line_begins prefix_before_space)
qed

lemma plantuml_line:
  assumes "plantuml_name s \<or> s = star"
  shows "parse_plantuml_transition (s @ CHR '' '' # rest) = Some parsed \<Longrightarrow>
    plantuml_action (s @ CHR '' '' # rest) = Some (Take parsed)"
proof -
  have "plain s \<or> s = star" using assms by (auto simp: plantuml_name_def)
  moreover have "\<not> prefix ''hide'' s" "\<not> prefix ''skin'' s"
    using assms by (auto simp: plantuml_name_def star_def)
  ultimately show "parse_plantuml_transition (s @ CHR '' '' # rest) = Some parsed \<Longrightarrow> ?thesis"
    by (simp add: plantuml_action_def line_begins prefix_before_space)
qed

lemma line_trimmed:
  assumes "plain s \<or> s = star" "l \<noteq> []" "\<not> is_whitespace (last l)"
  shows "trim (s @ l) = s @ l"
  using target_facts(1,2) [OF assms(1)] assms(2,3) by (intro trim_fresh) simp

lemma lines_trimmed:
  assumes "plain frm \<or> frm = star" "plain to \<or> to = star"
  shows "trim (frm @ '' --> '' @ to) = frm @ '' --> '' @ to"
    "event_label ev \<Longrightarrow> trim (flowchart_line frm ev to) = flowchart_line frm ev to"
    "event_label ev \<Longrightarrow> trim (diagram_line frm ev to) = diagram_line frm ev to"
proof -
  note t = target_facts [OF assms(2)]
  show "trim (frm @ '' --> '' @ to) = frm @ '' --> '' @ to"
    using t(1,3) by (intro line_trimmed [OF assms(1)]) simp_all
  show "trim (flowchart_line frm ev to) = flowchart_line frm ev to" if "event_label ev"
    unfolding flowchart_line_def using t(1,3) label_facts(1) [OF that]
    by (intro line_trimmed [OF assms(1)]) simp_all
  show "trim (diagram_line frm ev to) = diagram_line frm ev to" if "event_label ev"
    unfolding diagram_line_def using t(1,3) label_facts(1,3) [OF that]
    by (intro line_trimmed [OF assms(1)]) simp_all
qed

lemma lines_begin_space:
  "frm @ '' --> '' @ to = frm @ CHR '' '' # ''--> '' @ to"
  "flowchart_line frm ev to = frm @ CHR '' '' # ''--> |'' @ ev @ ''| '' @ to"
  "diagram_line frm ev to = frm @ CHR '' '' # ''--> '' @ to @ '' : '' @ ev"
  by (simp_all add: flowchart_line_def diagram_line_def)

lemma lines_one_line:
  assumes "plain frm" "plain to \<or> to = star" "event_label ev"
  shows "newline \<notin> set (flowchart_line frm ev to) \<and> carriage_return \<notin> set (flowchart_line frm ev to)"
    "newline \<notin> set (diagram_line frm ev to) \<and> carriage_return \<notin> set (diagram_line frm ev to)"
proof -
  note f = plain_facts(9,10) [OF assms(1)] and t = target_facts(7,8) [OF assms(2)] and e = label_facts(6,7) [OF assms(3)]
  have nl: "newline \<notin> set ''-> |:''" "carriage_return \<notin> set ''-> |:''"
    by (simp_all add: newline_def carriage_return_def)
  show "newline \<notin> set (flowchart_line frm ev to) \<and> carriage_return \<notin> set (flowchart_line frm ev to)"
    "newline \<notin> set (diagram_line frm ev to) \<and> carriage_return \<notin> set (diagram_line frm ev to)"
    using f t e nl by (simp_all add: flowchart_line_def diagram_line_def)
qed

lemma mermaid_bare:
  assumes "mermaid_name s"
  shows "mermaid_action (trim (star @ '' --> '' @ s)) = Some (Take (InitialTransition s))"
    "mermaid_action (trim (s @ '' --> '' @ star)) = Some (Take (FinalTransition s))"
proof -
  have s: "plain s" using assms by (simp add: mermaid_name_def)
  show "mermaid_action (trim (star @ '' --> '' @ s)) = Some (Take (InitialTransition s))"
    using mermaid_line [of star "''--> '' @ s"] lines_trimmed(1) [of star s] bare_reads(1) [OF s] s
    by (simp add: lines_begin_space(1))
  show "mermaid_action (trim (s @ '' --> '' @ star)) = Some (Take (FinalTransition s))"
    using mermaid_line [of s "''--> '' @ star"] lines_trimmed(1) [of s star] bare_reads(2) [OF s] s assms
    by (simp add: lines_begin_space(1))
qed

interpretation flowchart: line_syntax mermaid_action flowchart_line mermaid_name
proof unfold_locales
  fix frm to ev assume a: "mermaid_name frm" "mermaid_name to \<or> to = star" "event_label ev"
  then have p: "plain frm" "plain to \<or> to = star" by (auto simp: mermaid_name_def)
  show "mermaid_action (trim (flowchart_line frm ev to)) = Some (Take (LineTransition frm to ev))"
    using mermaid_line [of frm "''--> |'' @ ev @ ''| '' @ to"] lines_trimmed(2) [OF _ p(2) a(3), of frm]
      flowchart_reads [OF p a(3)] a(1) p(1) by (simp add: lines_begin_space(2))
  show "newline \<notin> set (flowchart_line frm ev to) \<and> carriage_return \<notin> set (flowchart_line frm ev to)"
    using lines_one_line(1) [OF p a(3)] .
qed ((rule mermaid_bare, assumption) | simp add: mermaid_name_def)+

interpretation state_diagram: line_syntax mermaid_action diagram_line mermaid_name
proof unfold_locales
  fix frm to ev assume a: "mermaid_name frm" "mermaid_name to \<or> to = star" "event_label ev"
  then have p: "plain frm" "plain to \<or> to = star" by (auto simp: mermaid_name_def)
  show "mermaid_action (trim (diagram_line frm ev to)) = Some (Take (LineTransition frm to ev))"
    using mermaid_line [of frm "''--> '' @ to @ '' : '' @ ev"] lines_trimmed(3) [OF _ p(2) a(3), of frm]
      diagram_reads(1,2) [OF p a(3)] a(1) p(1) by (simp add: lines_begin_space(3))
  show "newline \<notin> set (diagram_line frm ev to) \<and> carriage_return \<notin> set (diagram_line frm ev to)"
    using lines_one_line(2) [OF p a(3)] .
qed ((rule mermaid_bare, assumption) | simp add: mermaid_name_def)+

interpretation plantuml: line_syntax plantuml_action diagram_line plantuml_name
proof unfold_locales
  fix frm to ev assume a: "plantuml_name frm" "plantuml_name to \<or> to = star" "event_label ev"
  then have p: "plain frm" "plain to \<or> to = star" by (auto simp: plantuml_name_def)
  show "plantuml_action (trim (diagram_line frm ev to)) = Some (Take (LineTransition frm to ev))"
    using plantuml_line [of frm "''--> '' @ to @ '' : '' @ ev"] lines_trimmed(3) [OF _ p(2) a(3), of frm]
      diagram_reads(3) [OF p a(3)] a(1) p(1) by (simp add: lines_begin_space(3))
  show "newline \<notin> set (diagram_line frm ev to) \<and> carriage_return \<notin> set (diagram_line frm ev to)"
    using lines_one_line(2) [OF p a(3)] .
next
  fix s assume a: "plantuml_name s"
  then have s: "plain s" by (simp add: plantuml_name_def)
  then show "plain s" .
  show "plantuml_action (trim (star @ '' --> '' @ s)) = Some (Take (InitialTransition s))"
    using plantuml_line [of star "''--> '' @ s"] lines_trimmed(1) [of star s] bare_reads(3) [OF s] s
    by (simp add: lines_begin_space(1))
  show "plantuml_action (trim (s @ '' --> '' @ star)) = Some (Take (FinalTransition s))"
    using plantuml_line [of s "''--> '' @ star"] lines_trimmed(1) [of s star] bare_reads(4) [OF s] s a
    by (simp add: lines_begin_space(1))
qed

end
