(* ===== verification/Props_Parser.thy ===== *)
theory Props_Parser
  imports Fsm_Render
begin

section \<open>Properties of the runtime parsers\<close>

text \<open>
  What a successful parse guarantees, which line a syntax error names, and that the three line
  syntaxes round-trip.
\<close>

text \<open>
  C26: what a parse by either parser yields is well formed: the initial state and the final states
  are among the states, both lists are sorted without repetitions, there is a transition or a
  second state, and every transition leaves a listed state, never the marker \<open>[*]\<close>, for a listed
  state or, if its source is final, for the terminal marker.
\<close>

theorem parse_yields_well_formed:
  assumes "MermaidParser_parse input = Inr fsm \<or> PlantUmlParser_parse input = Inr fsm"
  shows "well_formed fsm"
  using assms by (auto simp: MermaidParser_parse_def PlantUmlParser_parse_def parse_with_well_formed)

definition flow_text :: string where
  "flow_text = ''[*] --> a'' @ [newline] @ ''a --> |go!| b'' @ [newline] @ ''b --> |end| [*]''"

definition flow_fsm :: ParsedFsm where
  "flow_fsm = \<lparr>pf_initial = ''a'', pf_finals = [''b''],
     pf_transitions =
       [\<lparr>pt_from = ''a'', pt_to = ''b'', pt_event = ''go'', pt_kind = Hard\<rparr>,
        \<lparr>pt_from = ''b'', pt_to = terminal, pt_event = ''end'', pt_kind = Normal\<rparr>],
     pf_states = [''a'', ''b'']\<rparr>"

lemma flow_parse: "MermaidParser_parse flow_text = Inr flow_fsm"
  by code_simp

theorem parse_yields_well_formed_witness: "well_formed flow_fsm"
  using parse_yields_well_formed [of flow_text flow_fsm] flow_parse by simp

subsection \<open>Errors\<close>

lemma parse_loop_error:
  "parse_loop action n ls ps = Inl err \<longleftrightarrow>
     (\<exists>i<length ls. action (trim (ls ! i)) = None \<and> (\<forall>j<i. action (trim (ls ! j)) \<noteq> None) \<and>
        err = SyntaxError (n + i + 1) (cannot_parse (trim (ls ! i))))"
proof (induction ls arbitrary: n ps)
  case (Cons l ls)
  show ?case
  proof (cases "action (trim l)")
    case None
    then have zero: "i = 0" if "\<forall>j<i. action (trim ((l # ls) ! j)) \<noteq> None" for i
      using that by (cases i) auto
    show ?thesis
    proof
      assume "parse_loop action n (l # ls) ps = Inl err"
      with None show "\<exists>i<length (l # ls). action (trim ((l # ls) ! i)) = None \<and>
          (\<forall>j<i. action (trim ((l # ls) ! j)) \<noteq> None) \<and>
          err = SyntaxError (n + i + 1) (cannot_parse (trim ((l # ls) ! i)))"
        by (intro exI [of _ 0]) simp
    next
      assume "\<exists>i<length (l # ls). action (trim ((l # ls) ! i)) = None \<and>
          (\<forall>j<i. action (trim ((l # ls) ! j)) \<noteq> None) \<and>
          err = SyntaxError (n + i + 1) (cannot_parse (trim ((l # ls) ! i)))"
      then obtain i where i: "\<forall>j<i. action (trim ((l # ls) ! j)) \<noteq> None"
        "err = SyntaxError (n + i + 1) (cannot_parse (trim ((l # ls) ! i)))" by blast
      from zero [OF i(1)] i(2) None show "parse_loop action n (l # ls) ps = Inl err" by simp
    qed
  next
    case (Some act)
    have shift: "(\<exists>i<length (l # ls). Q i) \<longleftrightarrow> (\<exists>i<length ls. Q (Suc i))" if "\<not> Q 0" for Q
      using that by (metis Suc_less_eq length_Cons not0_implies_Suc)
    have "parse_loop action n (l # ls) ps = Inl err \<longleftrightarrow>
        (\<exists>i<length ls. action (trim (ls ! i)) = None \<and> (\<forall>j<i. action (trim (ls ! j)) \<noteq> None) \<and>
          err = SyntaxError (Suc n + i + 1) (cannot_parse (trim (ls ! i))))"
      using Some Cons.IH [of "Suc n"] by simp
    also have "\<dots> \<longleftrightarrow> (\<exists>i<length (l # ls). action (trim ((l # ls) ! i)) = None \<and>
          (\<forall>j<i. action (trim ((l # ls) ! j)) \<noteq> None) \<and>
          err = SyntaxError (n + i + 1) (cannot_parse (trim ((l # ls) ! i))))"
      using Some by (subst shift) (auto simp: All_less_Suc2)
    finally show ?thesis .
  qed
qed simp

text \<open>The state an initial line names.\<close>

definition names_initial :: "line_action \<Rightarrow> string option" where
  "names_initial act =
     (case act of
        Take (InitialTransition to) \<Rightarrow> Some to
      | Take (LineTransition frm to ev) \<Rightarrow> if frm = star then Some to else None
      | _ \<Rightarrow> None)"

lemma do_action_initial:
  "ps_initial (do_action act ps) = (case ps_initial ps of Some i \<Rightarrow> Some i | None \<Rightarrow> names_initial act)"
proof (cases act)
  case (Take l)
  then show ?thesis
    by (cases l) (auto simp: names_initial_def record_initial_def record_final_def push_transition_def
        Let_def split: option.split)
qed (auto simp: names_initial_def split: option.split)

lemma parse_loop_initial:
  "parse_loop action n ls ps = Inr ps' \<Longrightarrow> ps_initial ps' =
     (case ps_initial ps of Some i \<Rightarrow> Some i
      | None \<Rightarrow> find_map (\<lambda>l. Option.bind (action (trim l)) names_initial) ls)"
  by (induction action n ls ps rule: parse_loop.induct)
     (auto simp: do_action_initial split: option.splits)

lemma parse_loop_ok:
  "(\<exists>ps'. parse_loop action n ls ps = Inr ps') \<longleftrightarrow> (\<forall>l\<in>set ls. action (trim l) \<noteq> None)"
  by (induction action n ls ps rule: parse_loop.induct) (auto split: option.split)

lemma parse_finish_cases:
  "parse_finish ps \<noteq> Inl (SyntaxError k msg)" "parse_finish ps = Inl ParseNoInitialState \<longleftrightarrow> ps_initial ps = None"
  "parse_finish ps = Inr fsm \<Longrightarrow> ps_initial ps = Some (pf_initial fsm)"
  by (auto simp: parse_finish_def split: option.splits if_splits)

lemma parse_with_syntax:
  "parse_with action input = Inl (SyntaxError k msg) \<longleftrightarrow>
     parse_loop action 0 (lines input) parse_start = Inl (SyntaxError k msg)"
  by (auto simp: parse_with_def parse_finish_cases split: sum.split)

lemma parse_with_no_initial:
  "parse_with action input = Inl ParseNoInitialState \<longleftrightarrow>
     (\<exists>ps. parse_loop action 0 (lines input) parse_start = Inr ps \<and> ps_initial ps = None)"
  using parse_loop_error [of action 0 "lines input" parse_start ParseNoInitialState]
  by (auto simp: parse_with_def parse_finish_cases split: sum.splits)

lemma parse_with_initial:
  "parse_with action input = Inr fsm \<Longrightarrow>
     \<exists>ps. parse_loop action 0 (lines input) parse_start = Inr ps \<and> ps_initial ps = Some (pf_initial fsm)"
  by (auto simp: parse_with_def parse_finish_cases split: sum.splits)

text \<open>
  C27: a parse fails with a syntax error exactly if some line, trimmed, is neither ignored nor
  read, and the error names the first such line by its number from one, and its text. If every
  line is read the initial state is the one the first initial line names, and the parse fails
  with \<open>NoInitialState\<close> exactly if there is no such line.
\<close>

theorem parse_errors:
  "(parse_with action input = Inl (SyntaxError k msg) \<longleftrightarrow>
     (\<exists>i<length (lines input). action (trim (lines input ! i)) = None \<and>
        (\<forall>j<i. action (trim (lines input ! j)) \<noteq> None) \<and>
        k = i + 1 \<and> msg = cannot_parse (trim (lines input ! i)))) \<and>
   (let first = find_map (\<lambda>l. Option.bind (action (trim l)) names_initial) (lines input) in
     (parse_with action input = Inl ParseNoInitialState \<longleftrightarrow>
        (\<forall>l\<in>set (lines input). action (trim l) \<noteq> None) \<and> first = None) \<and>
     (\<forall>fsm. parse_with action input = Inr fsm \<longrightarrow> first = Some (pf_initial fsm)))"
proof -
  let ?first = "find_map (\<lambda>l. Option.bind (action (trim l)) names_initial) (lines input)"
  have err: "parse_with action input = Inl (SyntaxError k msg) \<longleftrightarrow>
      (\<exists>i<length (lines input). action (trim (lines input ! i)) = None \<and>
        (\<forall>j<i. action (trim (lines input ! j)) \<noteq> None) \<and>
        k = i + 1 \<and> msg = cannot_parse (trim (lines input ! i)))"
    unfolding parse_with_syntax parse_loop_error by simp
  have noini: "parse_with action input = Inl ParseNoInitialState \<longleftrightarrow>
      (\<forall>l\<in>set (lines input). action (trim l) \<noteq> None) \<and> ?first = None"
    unfolding parse_loop_ok [where ls = "lines input" and n = 0 and ps = parse_start, symmetric] parse_with_no_initial
    using parse_loop_initial [of action 0 "lines input" parse_start] by (auto simp: parse_start_def)
  have ini: "?first = Some (pf_initial fsm)" if "parse_with action input = Inr fsm" for fsm
    using parse_with_initial [OF that] parse_loop_initial [of action 0 "lines input" parse_start]
    by (auto simp: parse_start_def)
  show ?thesis unfolding Let_def using err noini ini by blast
qed

definition broken_text :: string where
  "broken_text = ''[*] --> a'' @ [newline] @ ''a goes to b'' @ [newline] @ ''b''"

lemma broken_lines: "lines broken_text = [''[*] --> a'', ''a goes to b'', ''b'']"
  by code_simp

lemma broken_actions: "mermaid_action (trim ''[*] --> a'') = Some (Take (InitialTransition ''a''))"
  "mermaid_action ''a goes to b'' = None" "trim ''a goes to b'' = ''a goes to b''"
  by code_simp+

theorem parse_errors_witness:
  "parse_with mermaid_action broken_text = Inl (SyntaxError 2 (cannot_parse ''a goes to b''))"
proof -
  have "\<exists>i<length (lines broken_text). mermaid_action (trim (lines broken_text ! i)) = None \<and>
      (\<forall>j<i. mermaid_action (trim (lines broken_text ! j)) \<noteq> None) \<and>
      2 = i + 1 \<and> cannot_parse ''a goes to b'' = cannot_parse (trim (lines broken_text ! i))"
    by (rule exI [of _ 1]) (simp add: broken_lines broken_actions)
  with parse_errors [of mermaid_action broken_text 2 "cannot_parse ''a goes to b''"] show ?thesis by blast
qed

subsection \<open>Round trips\<close>

lemma print_parse_round_trip:
  "(printable mermaid_name fsm \<longrightarrow>
      MermaidParser_parse (print_fsm flowchart_line fsm) = Inr fsm \<and>
      MermaidParser_parse (print_fsm diagram_line fsm) = Inr fsm) \<and>
   (printable plantuml_name fsm \<longrightarrow> PlantUmlParser_parse (print_fsm diagram_line fsm) = Inr fsm)"
  using flowchart.round_trip [of fsm] state_diagram.round_trip [of fsm] plantuml.round_trip [of fsm]
  by (simp add: MermaidParser_parse_def PlantUmlParser_parse_def)

lemma flow_printable: "printable mermaid_name flow_fsm"
  by (auto simp: printable_def flow_fsm_def mermaid_name_def plain_def name_char_def terminal_def)

text \<open>
  The classification of an event's label loses nothing: the label is the event's name with the
  suffix of its kind, and a name that does not end in a suffix character, labelled with a kind, is
  classified back into the two.
\<close>

lemma classify_event_inverse:
  "raw = fst (classify_event raw) @ kind_suffix (snd (classify_event raw)) \<and>
   (ev \<noteq> [] \<and> list_all name_char ev \<longrightarrow> classify_event (ev @ kind_suffix k) = (ev, k))"
proof -
  have "classify_event (ev @ kind_suffix k) = (ev, k)" if "ev \<noteq> []" "list_all name_char ev"
  proof (rule classify_event_suffix)
    have "name_char (last ev)" using that by (simp add: list_all_iff)
    then show "ev = [] \<or> last ev \<noteq> CHR ''!'' \<and> last ev \<noteq> CHR ''?''"
      using name_char_not_special(5,6) by blast
  qed
  with classify_event_lossless [of raw] show ?thesis by blast
qed

subsection \<open>Two texts the Mermaid parser misreads\<close>

text \<open>
  A labelled initial line is taken for a flowchart line without a label, and the label becomes
  part of the name of the initial state. A line that begins with the letters of a keyword is
  ignored, whatever follows: a state named \<open>graphics\<close> loses its transitions.
\<close>

definition labelled_text :: string where
  "labelled_text = ''[*] --> idle : init'' @ [newline] @ ''idle --> run : go''"

lemma labelled_initial_misread:
  "map_option pf_initial (case MermaidParser_parse labelled_text of Inr fsm \<Rightarrow> Some fsm | Inl e \<Rightarrow> None) =
     Some ''idle : init''"
  by code_simp

definition keyword_text :: string where
  "keyword_text = ''[*] --> graphics'' @ [newline] @ ''graphics --> |go| done'' @ [newline] @ ''done --> [*]''"

lemma keyword_line_dropped:
  "map_option pf_transitions (case MermaidParser_parse keyword_text of Inr fsm \<Rightarrow> Some fsm | Inl e \<Rightarrow> None) = Some []"
  by code_simp

end
