(* ===== verification/Fsm_Macro.thy ===== *)
theory Fsm_Macro
  imports Fsm_Render Fsm_Search
begin

section \<open>The macro crate (finitomata_macro/src)\<close>

text \<open>
  What the attribute macro does at compile time: its own parsers (\<open>parser.rs\<close>), its validation
  (\<open>validation.rs\<close>) and the transition table it generates (\<open>codegen.rs\<close>). Its \<open>ParsedFsm\<close> and
  \<open>ParsedTransition\<close> have the fields of the runtime parser's, and what its parsers do with a line
  they have read is the same; they differ in which lines they read. Errors are strings.
\<close>

type_synonym macro_EventKind = EventKind
type_synonym macro_ParsedTransition = ParsedTransition
type_synonym macro_ParsedFsm = ParsedFsm

text \<open>The crate's own copy of \<open>classify_event\<close> is the runtime's, which \<open>record_line\<close> calls.\<close>

definition macro_classify_event :: "string \<Rightarrow> string \<times> macro_EventKind" where
  "macro_classify_event raw =
     (case strip_suffix CHR ''!'' raw of
        Some stripped \<Rightarrow> (stripped, Hard)
      | None \<Rightarrow>
          (case strip_suffix CHR ''?'' raw of
             Some stripped \<Rightarrow> (stripped, Soft)
           | None \<Rightarrow> (raw, Normal)))"

lemma macro_classify_event: "macro_classify_event = classify_event"
  by (rule ext) (simp add: macro_classify_event_def classify_event_def)

subsection \<open>Lines\<close>

definition macro_mermaid_action :: "string \<Rightarrow> line_action option" where
  "macro_mermaid_action line =
     (if line = [] \<or> prefix ''%%'' line \<or> prefix ''graph'' line \<or> prefix ''stateDiagram'' line \<or>
         prefix ''---'' line
      then Some Ignore
      else (case splitn2 ''-->'' line of
              [part0, part1] \<Rightarrow>
                (let frm = trim part0;
                     rest = trim part1;
                     bare = (let to = rest in
                       if frm = star \<and> to \<noteq> [] then Some (Take (InitialTransition to))
                       else if to = star then Some (Take (FinalTransition frm))
                       else None);
                     diagram = (case split_once '':'' rest of
                       Some (to, ev) \<Rightarrow> Some (Take (LineTransition frm (trim to) (trim ev)))
                     | None \<Rightarrow> bare)
                 in case split_once ''|'' rest of
                      None \<Rightarrow> diagram
                    | Some (_, after_first_pipe) \<Rightarrow>
                        (case split_once ''|'' after_first_pipe of
                           None \<Rightarrow> diagram
                         | Some (ev, to) \<Rightarrow> Some (Take (LineTransition frm (trim to) (trim ev)))))
            | _ \<Rightarrow> None))"

definition macro_plantuml_action :: "string \<Rightarrow> line_action option" where
  "macro_plantuml_action line =
     (if line = [] \<or> prefix [CHR 0x27] line \<or> prefix ''@startuml'' line \<or> prefix ''@enduml'' line \<or>
         prefix ''hide'' line \<or> prefix ''skin'' line \<or> prefix ''state '' line
      then Some Ignore
      else (case (if str_contains ''-->'' line then Some ''-->''
                  else if str_contains ''->'' line then Some ''->'' else None) of
              None \<Rightarrow> None
            | Some arrow \<Rightarrow>
                (case splitn2 arrow line of
                   [part0, part1] \<Rightarrow>
                     (let frm = trim part0;
                          rest = trim part1
                      in case split_once '':'' rest of
                           Some (to, ev) \<Rightarrow> Some (Take (LineTransition frm (trim to) (trim ev)))
                         | None \<Rightarrow>
                             (let to = rest in
                              if frm = star \<and> to \<noteq> [] then Some (Take (InitialTransition to))
                              else if to = star then Some (Take (FinalTransition frm))
                              else None))
                 | _ \<Rightarrow> None)))"

subsection \<open>The parsers\<close>

fun macro_loop :: "(string \<Rightarrow> line_action option) \<Rightarrow> nat \<Rightarrow> string list \<Rightarrow> parse_state \<Rightarrow> string + parse_state" where
  "macro_loop action line_num [] ps = Inr ps"
| "macro_loop action line_num (line # ls) ps =
     (case action (trim line) of
        None \<Rightarrow> Inl (''line '' @ nat_display (line_num + 1) @ '': cannot parse `'' @ trim line @ ''`'')
      | Some act \<Rightarrow> macro_loop action (Suc line_num) ls (do_action act ps))"

definition macro_parse_with :: "(string \<Rightarrow> line_action option) \<Rightarrow> string \<Rightarrow> string + ParsedFsm" where
  "macro_parse_with action input =
     (case macro_loop action 0 (lines input) parse_start of
        Inl err \<Rightarrow> Inl err
      | Inr ps \<Rightarrow>
          (case ps_initial ps of
             None \<Rightarrow> Inl ''no initial state found (use `[*] --> state`)''
           | Some ini \<Rightarrow> Inr \<lparr>pf_initial = ini, pf_finals = ps_finals ps,
               pf_transitions = ps_transitions ps, pf_states = ps_states ps\<rparr>))"

definition parse_mermaid :: "string \<Rightarrow> string + ParsedFsm" where
  "parse_mermaid input = macro_parse_with macro_mermaid_action input"

definition parse_plantuml :: "string \<Rightarrow> string + ParsedFsm" where
  "parse_plantuml input = macro_parse_with macro_plantuml_action input"

subsection \<open>Validation\<close>

text \<open>
  \<open>char::is_alphabetic\<close> and \<open>char::is_alphanumeric\<close> on the first 256 code points.
\<close>

definition is_alphabetic :: "char \<Rightarrow> bool" where
  "is_alphabetic c =
     (let n = (of_char c :: nat) in
      (65 \<le> n \<and> n \<le> 90) \<or> (97 \<le> n \<and> n \<le> 122) \<or> n = 0xAA \<or> n = 0xB5 \<or> n = 0xBA \<or>
      (0xC0 \<le> n \<and> n \<noteq> 0xD7 \<and> n \<noteq> 0xF7))"

definition is_alphanumeric :: "char \<Rightarrow> bool" where
  "is_alphanumeric c =
     (let n = (of_char c :: nat) in
      is_alphabetic c \<or> (48 \<le> n \<and> n \<le> 57) \<or> n = 0xB2 \<or> n = 0xB3 \<or> n = 0xB9 \<or> (0xBC \<le> n \<and> n \<le> 0xBE))"

definition is_valid_identifier :: "string \<Rightarrow> bool" where
  "is_valid_identifier s =
     (case s of
        [] \<Rightarrow> False
      | first # _ \<Rightarrow>
          if \<not> is_alphabetic first \<and> first \<noteq> CHR ''_'' then False
          else list_all (\<lambda>c. is_alphanumeric c \<or> c = CHR ''_'') s)"

fun mr_targets :: "string \<Rightarrow> string fset \<Rightarrow> ParsedTransition list \<Rightarrow> string list \<Rightarrow> string list" where
  "mr_targets cur vis [] q = q"
| "mr_targets cur vis (t # ts) q =
     mr_targets cur vis ts
       (if pt_from t = cur \<and> pt_to t |\<notin>| vis \<and> pt_to t \<noteq> terminal then q @ [pt_to t] else q)"

lemma mr_targets_eq:
  "mr_targets cur vis ts q =
     q @ map pt_to (filter (\<lambda>t. pt_from t = cur \<and> pt_to t |\<notin>| vis \<and> pt_to t \<noteq> terminal) ts)"
  by (induction ts arbitrary: q) auto

function mr_loop :: "ParsedTransition list \<Rightarrow> string fset \<Rightarrow> string list \<Rightarrow> string fset" where
  "mr_loop ts vis [] = vis"
| "mr_loop ts vis (cur # q) =
     (if cur |\<in>| vis then mr_loop ts vis q
      else mr_loop ts (finsert cur vis) (mr_targets cur (finsert cur vis) ts q))"
  by pat_completeness auto

lemma mr_targets_idle: "cur \<notin> pt_from ` set ts \<Longrightarrow> mr_targets cur vis ts q = q"
  by (induction ts arbitrary: q) auto

termination mr_loop
proof (relation "measures [\<lambda>(ts, vis, q). card (pt_from ` set ts - fset vis), \<lambda>(ts, vis, q). length q]", goal_cases)
  case (3 ts vis cur q)
  show ?case
  proof (cases "cur \<in> pt_from ` set ts")
    case True
    have "card (pt_from ` set ts - fset (finsert cur vis)) < card (pt_from ` set ts - fset vis)"
      using 3 True by (intro psubset_card_mono) auto
    then show ?thesis by simp
  next
    case False
    then have "pt_from ` set ts - fset (finsert cur vis) = pt_from ` set ts - fset vis" by auto
    with False show ?thesis by (simp add: mr_targets_idle)
  qed
qed simp_all

definition macro_reachable_from :: "string \<Rightarrow> ParsedFsm \<Rightarrow> string fset" where
  "macro_reachable_from start fsm = mr_loop (pf_transitions fsm) {||} [start]"

fun unreachable_messages :: "ParsedFsm \<Rightarrow> string fset \<Rightarrow> string list \<Rightarrow> string list \<Rightarrow> string list" where
  "unreachable_messages fsm reached [] errs = errs"
| "unreachable_messages fsm reached (s # ss) errs =
     unreachable_messages fsm reached ss
       (if s \<noteq> pf_initial fsm \<and> s |\<notin>| reached
        then errs @ [''state `'' @ s @ ''` is not reachable from initial state `'' @ pf_initial fsm @ ''`'']
        else errs)"

fun duplicate_messages :: "ParsedTransition list \<Rightarrow> (string \<times> string) fset \<Rightarrow> string list \<Rightarrow> string list" where
  "duplicate_messages [] seen errs = errs"
| "duplicate_messages (t # ts) seen errs =
     duplicate_messages ts (finsert (pt_from t, pt_event t) seen)
       (if (pt_from t, pt_event t) |\<in>| seen
        then errs @ [''duplicate transition: state `'' @ pt_from t @ ''` already has event `'' @ pt_event t @ ''`'']
        else errs)"

definition macro_validate :: "ParsedFsm \<Rightarrow> string list + unit" where
  "macro_validate fsm =
     (let errors = (if pf_initial fsm = [] then [''no initial state defined''] else []);
          errors = (if pf_finals fsm = [] then errors @ [''no final state defined (no transition to [*])''] else errors);
          reached = macro_reachable_from (pf_initial fsm) fsm;
          errors = unreachable_messages fsm reached (pf_states fsm) errors;
          errors = duplicate_messages (pf_transitions fsm) {||} errors;
          errors = errors @ map (\<lambda>t. ''event `'' @ pt_event t @ ''` is not a valid Rust identifier'')
            (filter (\<lambda>t. \<not> is_valid_identifier (pt_event t)) (pf_transitions fsm));
          errors = errors @ map (\<lambda>s. ''state `'' @ s @ ''` is not a valid Rust identifier'')
            (filter (\<lambda>s. \<not> is_valid_identifier s) (pf_states fsm))
      in if errors = [] then Inr () else Inl errors)"

subsection \<open>Code generation\<close>

text \<open>
  \<open>generate\<close> emits token streams over \<open>quote\<close>, which is third-party; what the emitted code
  declares is modelled: the variants of the two enums with what \<open>Display\<close> writes for each, the
  kind of each event, the constants, and the graph \<open>build_graph\<close> returns, over the names of the
  variants. \<open>to_uppercase\<close> leaves the first 256 code points for U+00B5 and U+00FF only; the model
  is about names without them.
\<close>

definition to_uppercase :: "char \<Rightarrow> string" where
  "to_uppercase c =
     (let n = (of_char c :: nat) in
      if (97 \<le> n \<and> n \<le> 122) \<or> (0xE0 \<le> n \<and> n \<le> 0xFE \<and> n \<noteq> 0xF7) then [char_of (n - 32)]
      else if n = 0xDF then ''SS'' else [c])"

definition is_uppercase :: "char \<Rightarrow> bool" where
  "is_uppercase c =
     (let n = (of_char c :: nat) in (65 \<le> n \<and> n \<le> 90) \<or> (0xC0 \<le> n \<and> n \<le> 0xDE \<and> n \<noteq> 0xD7))"

definition to_lowercase :: "char \<Rightarrow> char" where
  "to_lowercase c = (if is_uppercase c then char_of ((of_char c :: nat) + 32) else c)"

text \<open>\<open>s.split('_')\<close>\<close>

fun split_underscore :: "string \<Rightarrow> string list" where
  "split_underscore [] = [[]]"
| "split_underscore (c # cs) =
     (if c = CHR ''_'' then [] # split_underscore cs
      else (case split_underscore cs of [] \<Rightarrow> [[c]] | part # parts \<Rightarrow> (c # part) # parts))"

fun capitalize :: "string \<Rightarrow> string" where
  "capitalize [] = []"
| "capitalize (c # cs) = to_uppercase c @ cs"

definition to_pascal_case :: "string \<Rightarrow> string" where
  "to_pascal_case s = concat (map capitalize (split_underscore s))"

fun snake_loop :: "nat \<Rightarrow> string \<Rightarrow> string" where
  "snake_loop i [] = []"
| "snake_loop i (c # cs) =
     (if is_uppercase c then (if i > 0 then [CHR ''_''] else []) @ [to_lowercase c] else [c]) @ snake_loop (Suc i) cs"

definition to_snake_case :: "string \<Rightarrow> string" where
  "to_snake_case s = snake_loop 0 s"

record CodegenConfig =
  struct_name :: string
  timer :: "64 word option"
  auto_terminate :: bool
  cache_state :: bool

definition sorted_events :: "ParsedTransition list \<Rightarrow> string list" where
  "sorted_events ts = fold insort_insert (map pt_event ts) []"

fun event_kind_arms :: "ParsedTransition list \<Rightarrow> string fset \<Rightarrow> (string \<times> EventKind) list" where
  "event_kind_arms [] seen = []"
| "event_kind_arms (t # ts) seen =
     (if pt_event t |\<in>| seen then event_kind_arms ts seen
      else (to_pascal_case (pt_event t), pt_kind t) # event_kind_arms ts (finsert (pt_event t) seen))"

definition transition_entry :: "ParsedTransition \<Rightarrow> (string, string) Transition" where
  "transition_entry t =
     \<lparr>t_from = to_pascal_case (pt_from t),
      t_to = [if pt_to t = terminal then to_pascal_case (pt_from t) else to_pascal_case (pt_to t)],
      t_event = to_pascal_case (pt_event t), t_kind = pt_kind t\<rparr>"

definition build_graph :: "ParsedFsm \<Rightarrow> (string, string) TransitionGraph" where
  "build_graph fsm =
     TransitionGraph_new (to_pascal_case (pf_initial fsm)) (fset_of_list (map to_pascal_case (pf_finals fsm)))
       (map transition_entry (pf_transitions fsm))"

record Generated =
  gen_state_enum :: string
  gen_event_enum :: string
  gen_state_display :: "(string \<times> string) list"
  gen_event_display :: "(string \<times> string) list"
  gen_event_kind :: "(string \<times> EventKind) list"
  gen_auto_terminate :: bool
  gen_timer_interval :: "64 word option"
  gen_graph_fn :: string
  gen_graph :: "(string, string) TransitionGraph"

definition generate :: "ParsedFsm \<Rightarrow> CodegenConfig \<Rightarrow> Generated" where
  "generate fsm config =
     \<lparr>gen_state_enum = struct_name config @ ''State'', gen_event_enum = struct_name config @ ''Event'',
      gen_state_display = map (\<lambda>s. (to_pascal_case s, s)) (pf_states fsm),
      gen_event_display = map (\<lambda>e. (to_pascal_case e, e)) (sorted_events (pf_transitions fsm)),
      gen_event_kind = event_kind_arms (pf_transitions fsm) {||},
      gen_auto_terminate = auto_terminate config, gen_timer_interval = timer config,
      gen_graph_fn = to_snake_case (struct_name config) @ ''_graph'',
      gen_graph = build_graph fsm\<rparr>"

text \<open>The driver of the macro: parse by the chosen syntax, validate, generate.\<close>

datatype Syntax = Mermaid | PlantUml

fun join :: "string \<Rightarrow> string list \<Rightarrow> string" where
  "join sep [] = []"
| "join sep [x] = x"
| "join sep (x # xs) = x @ sep @ join sep xs"

definition expand :: "Syntax \<Rightarrow> string \<Rightarrow> CodegenConfig \<Rightarrow> string + Generated" where
  "expand syn input config =
     (case (case syn of Mermaid \<Rightarrow> parse_mermaid input | PlantUml \<Rightarrow> parse_plantuml input) of
        Inl err \<Rightarrow> Inl (''FSM parse error: '' @ err)
      | Inr fsm \<Rightarrow>
          (case macro_validate fsm of
             Inl errors \<Rightarrow> Inl (''FSM validation error: '' @ join ''; '' errors)
           | Inr u \<Rightarrow> Inr (generate fsm config)))"

subsection \<open>The search of the validator is the search of the graph\<close>

definition macro_edge :: "ParsedTransition list \<Rightarrow> string \<Rightarrow> string \<Rightarrow> bool" where
  "macro_edge ts s x \<longleftrightarrow> (\<exists>t\<in>set ts. pt_from t = s \<and> pt_to t = x \<and> x \<noteq> terminal)"

inductive macro_reachable :: "ParsedTransition list \<Rightarrow> string \<Rightarrow> string \<Rightarrow> bool" for ts s where
  macro_start: "macro_reachable ts s s"
| macro_step: "macro_reachable ts s x \<Longrightarrow> macro_edge ts x y \<Longrightarrow> macro_reachable ts s y"

lemma macro_reachable_trans: "macro_reachable ts x y \<Longrightarrow> macro_reachable ts s x \<Longrightarrow> macro_reachable ts s y"
  by (induction rule: macro_reachable.induct) (auto intro: macro_step)

lemma set_mr_targets:
  "set (mr_targets cur vis ts q) = set q \<union> {x. macro_edge ts cur x \<and> x |\<notin>| vis}"
  by (auto simp: mr_targets_eq macro_edge_def)

lemma mr_loop_extends: "fset vis \<union> set q \<subseteq> fset (mr_loop ts vis q)"
  by (induction ts vis q rule: mr_loop.induct) (auto simp: set_mr_targets split: if_splits)

lemma mr_loop_sound:
  "x |\<in>| mr_loop ts vis q \<Longrightarrow> x |\<in>| vis \<or> (\<exists>y\<in>set q. macro_reachable ts y x)"
proof (induction ts vis q rule: mr_loop.induct)
  case (2 ts vis cur q)
  show ?case
  proof (cases "cur |\<in>| vis")
    case True
    with 2 show ?thesis by auto
  next
    case False
    with 2 have "x |\<in>| finsert cur vis \<or>
        (\<exists>y\<in>set (mr_targets cur (finsert cur vis) ts q). macro_reachable ts y x)" by simp
    then show ?thesis
      by (auto simp: set_mr_targets intro: macro_start dest: macro_reachable_trans [OF _ macro_step [OF macro_start]])
  qed
qed simp

lemma mr_loop_closed:
  "(\<And>v y. v |\<in>| vis \<Longrightarrow> macro_edge ts v y \<Longrightarrow> y |\<in>| vis \<or> y \<in> set q) \<Longrightarrow>
   v |\<in>| mr_loop ts vis q \<Longrightarrow> macro_edge ts v y \<Longrightarrow> y |\<in>| mr_loop ts vis q"
proof (induction ts vis q rule: mr_loop.induct)
  case (2 ts vis cur q)
  show ?case
  proof (cases "cur |\<in>| vis")
    case True
    then have "y |\<in>| mr_loop ts vis q"
    proof (rule "2.IH"(1))
      show "y |\<in>| vis \<or> y \<in> set q" if "v |\<in>| vis" "macro_edge ts v y" for v y
        using "2.prems"(1) [OF that] True by auto
      show "v |\<in>| mr_loop ts vis q" using "2.prems"(2) True by simp
    qed (rule "2.prems"(3))
    with True show ?thesis by simp
  next
    case False
    then have "y |\<in>| mr_loop ts (finsert cur vis) (mr_targets cur (finsert cur vis) ts q)"
    proof (rule "2.IH"(2))
      show "y |\<in>| finsert cur vis \<or> y \<in> set (mr_targets cur (finsert cur vis) ts q)"
        if "v |\<in>| finsert cur vis" "macro_edge ts v y" for v y
        using "2.prems"(1) [of v y] that by (auto simp: set_mr_targets)
      show "v |\<in>| mr_loop ts (finsert cur vis) (mr_targets cur (finsert cur vis) ts q)"
        using "2.prems"(2) False by simp
    qed (rule "2.prems"(3))
    with False show ?thesis by simp
  qed
qed simp

lemma macro_reachable_from_iff:
  "x |\<in>| macro_reachable_from s fsm \<longleftrightarrow> macro_reachable (pf_transitions fsm) s x"
proof
  assume "x |\<in>| macro_reachable_from s fsm"
  then show "macro_reachable (pf_transitions fsm) s x"
    using mr_loop_sound [of x "pf_transitions fsm" "{||}" "[s]"] by (simp add: macro_reachable_from_def)
next
  assume "macro_reachable (pf_transitions fsm) s x"
  then show "x |\<in>| macro_reachable_from s fsm"
  proof induction
    case macro_start
    show ?case using mr_loop_extends [of "{||}" "[s]" "pf_transitions fsm"] by (simp add: macro_reachable_from_def)
  next
    case (macro_step x y)
    then show ?case
      using mr_loop_closed [of "{||}" "pf_transitions fsm" "[s]" x y] by (simp add: macro_reachable_from_def)
  qed
qed

subsection \<open>What the validator accepts\<close>

lemma unreachable_messages_eq:
  "unreachable_messages fsm reached ss errs = errs @
     map (\<lambda>s. ''state `'' @ s @ ''` is not reachable from initial state `'' @ pf_initial fsm @ ''`'')
       (filter (\<lambda>s. s \<noteq> pf_initial fsm \<and> s |\<notin>| reached) ss)"
  by (induction ss arbitrary: errs) simp_all

lemma duplicate_messages_Nil:
  "duplicate_messages ts seen errs = [] \<longleftrightarrow>
     errs = [] \<and> distinct (map (\<lambda>t. (pt_from t, pt_event t)) ts) \<and>
     (\<forall>t\<in>set ts. (pt_from t, pt_event t) |\<notin>| seen)"
proof (induction ts arbitrary: seen errs)
  case (Cons a ts)
  have "(pt_from a, pt_event a) \<notin> (\<lambda>t. (pt_from t, pt_event t)) ` set ts \<longleftrightarrow>
      (\<forall>t\<in>set ts. (pt_from t, pt_event t) \<noteq> (pt_from a, pt_event a))" by (force simp: image_iff)
  with Cons.IH show ?case by auto
qed simp

lemma macro_validate_ok:
  "macro_validate fsm = Inr () \<longleftrightarrow>
     pf_initial fsm \<noteq> [] \<and> pf_finals fsm \<noteq> [] \<and>
     (\<forall>s\<in>set (pf_states fsm). macro_reachable (pf_transitions fsm) (pf_initial fsm) s) \<and>
     distinct (map (\<lambda>t. (pt_from t, pt_event t)) (pf_transitions fsm)) \<and>
     (\<forall>t\<in>set (pf_transitions fsm). is_valid_identifier (pt_event t)) \<and>
     (\<forall>s\<in>set (pf_states fsm). is_valid_identifier s)"
proof -
  have "(\<forall>s\<in>set (pf_states fsm). s = pf_initial fsm \<or> s |\<in>| macro_reachable_from (pf_initial fsm) fsm) \<longleftrightarrow>
      (\<forall>s\<in>set (pf_states fsm). macro_reachable (pf_transitions fsm) (pf_initial fsm) s)"
    using macro_reachable_from_iff by (metis macro_start)
  then show ?thesis
    by (auto simp: macro_validate_def Let_def unreachable_messages_eq duplicate_messages_Nil
        filter_empty_conv simp del: not_None_eq)
qed

subsection \<open>What the macro's parsers yield\<close>

lemma macro_loop_parse: "parse_loop action n ls ps = Inr ps' \<Longrightarrow> macro_loop action n ls ps = Inr ps'"
  by (induction action n ls ps rule: parse_loop.induct) (auto split: option.splits)

lemma macro_parse_parse: "parse_with action input = Inr fsm \<Longrightarrow> macro_parse_with action input = Inr fsm"
  by (auto simp: parse_with_def macro_parse_with_def parse_finish_def macro_loop_parse
      split: sum.splits option.splits if_splits)

lemma macro_inv_loop: "macro_loop action n ls ps = Inr ps' \<Longrightarrow> parse_inv ps \<Longrightarrow> parse_inv ps'"
  by (induction action n ls ps rule: macro_loop.induct)
     (auto simp: parse_inv_do_action split: option.splits)

lemma macro_parse_inv:
  assumes "macro_parse_with action input = Inr fsm"
  shows "pf_initial fsm \<in> set (pf_states fsm)" "set (pf_finals fsm) \<subseteq> set (pf_states fsm)"
    "t \<in> set (pf_transitions fsm) \<Longrightarrow> pt_from t \<in> set (pf_states fsm) \<and>
       (pt_to t \<in> set (pf_states fsm) \<or> pt_to t = terminal)"
  using assms macro_inv_loop [OF _ parse_inv_start, of action 0 "lines input"]
  by (auto simp: macro_parse_with_def parse_inv_def split: sum.splits option.splits)

lemma macro_parse_distinct: "macro_parse_with action input = Inr fsm \<Longrightarrow> distinct (pf_states fsm)"
  using macro_inv_loop [OF _ parse_inv_start, of action 0 "lines input"]
  by (auto simp: macro_parse_with_def parse_inv_def split: sum.splits option.splits)

subsection \<open>The macro's parsers on printed machines\<close>

definition macro_plantuml_name :: "string \<Rightarrow> bool" where
  "macro_plantuml_name s \<longleftrightarrow> plantuml_name s \<and> s \<noteq> ''state''"

lemma macro_mermaid_begins:
  assumes "mermaid_name s \<or> s = star"
  shows "\<not> (s @ CHR '' '' # rest = [] \<or> prefix ''%%'' (s @ CHR '' '' # rest) \<or> prefix ''graph'' (s @ CHR '' '' # rest) \<or>
    prefix ''stateDiagram'' (s @ CHR '' '' # rest) \<or> prefix ''---'' (s @ CHR '' '' # rest))"
proof -
  have "plain s \<or> s = star" using assms by (auto simp: mermaid_name_def)
  moreover have "\<not> prefix ''graph'' s" "\<not> prefix ''stateDiagram'' s"
    using assms by (auto simp: mermaid_name_def star_def)
  ultimately show ?thesis by (simp add: line_begins prefix_before_space)
qed

lemma prefix_state_word:
  "CHR '' '' \<notin> set s \<Longrightarrow> prefix ''state '' (s @ CHR '' '' # rest) \<longleftrightarrow> s = ''state''"
proof -
  have "CHR '' '' \<notin> set p \<Longrightarrow> CHR '' '' \<notin> set s \<Longrightarrow> prefix (p @ '' '') (s @ CHR '' '' # rest) \<longleftrightarrow> s = p" for p
  proof (induction p arbitrary: s)
    case Nil
    then show ?case by (cases s) auto
  next
    case (Cons c p)
    then show ?case by (cases s) auto
  qed
  from this [of "''state''"] show "CHR '' '' \<notin> set s \<Longrightarrow> ?thesis" by simp
qed

lemma macro_plantuml_begins:
  assumes "macro_plantuml_name s \<or> s = star"
  shows "\<not> (s @ CHR '' '' # rest = [] \<or> prefix [CHR 0x27] (s @ CHR '' '' # rest) \<or> prefix ''@startuml'' (s @ CHR '' '' # rest) \<or>
    prefix ''@enduml'' (s @ CHR '' '' # rest) \<or> prefix ''hide'' (s @ CHR '' '' # rest) \<or>
    prefix ''skin'' (s @ CHR '' '' # rest) \<or> prefix ''state '' (s @ CHR '' '' # rest))"
proof -
  have ps: "plain s \<or> s = star" using assms by (auto simp: macro_plantuml_name_def plantuml_name_def)
  moreover have "\<not> prefix ''hide'' s" "\<not> prefix ''skin'' s" "s \<noteq> ''state''"
    using assms by (auto simp: macro_plantuml_name_def plantuml_name_def star_def)
  moreover have "CHR '' '' \<notin> set s"
    using ps name_char_not_special(1) [of "CHR '' ''"]
    by (auto simp: plain_def list_all_iff star_def is_whitespace_def)
  ultimately show ?thesis by (simp add: line_begins prefix_before_space prefix_state_word)
qed

lemma macro_reads:
  assumes "plain frm" "plain to \<or> to = star" "event_label ev"
  shows "mermaid_name frm \<Longrightarrow> macro_mermaid_action (flowchart_line frm ev to) = Some (Take (LineTransition frm to ev))"
    "mermaid_name frm \<Longrightarrow> macro_mermaid_action (diagram_line frm ev to) = Some (Take (LineTransition frm to ev))"
    "macro_plantuml_name frm \<Longrightarrow> macro_plantuml_action (diagram_line frm ev to) = Some (Take (LineTransition frm to ev))"
proof -
  note f = flowchart_split [OF assms] and d = diagram_split [OF assms]
  show "mermaid_name frm \<Longrightarrow> macro_mermaid_action (flowchart_line frm ev to) = Some (Take (LineTransition frm to ev))"
    using f macro_mermaid_begins [of frm "''--> |'' @ ev @ ''| '' @ to"]
    by (simp add: macro_mermaid_action_def Let_def lines_begin_space(2))
  show "mermaid_name frm \<Longrightarrow> macro_mermaid_action (diagram_line frm ev to) = Some (Take (LineTransition frm to ev))"
    using d macro_mermaid_begins [of frm "''--> '' @ to @ '' : '' @ ev"]
    by (simp add: macro_mermaid_action_def Let_def lines_begin_space(3))
  have "str_contains ''-->'' (diagram_line frm ev to)"
    using split_arrow [OF plain_facts(6) [OF assms(1)], of "to @ '' : '' @ ev"]
    by (simp add: str_contains_def diagram_line_def)
  then show "macro_plantuml_name frm \<Longrightarrow> macro_plantuml_action (diagram_line frm ev to) = Some (Take (LineTransition frm to ev))"
    using d macro_plantuml_begins [of frm "''--> '' @ to @ '' : '' @ ev"]
    by (simp add: macro_plantuml_action_def Let_def lines_begin_space(3))
qed

lemma macro_bare:
  assumes "plain s"
  shows "mermaid_name s \<Longrightarrow> macro_mermaid_action (trim (star @ '' --> '' @ s)) = Some (Take (InitialTransition s))"
    "mermaid_name s \<Longrightarrow> macro_mermaid_action (trim (s @ '' --> '' @ star)) = Some (Take (FinalTransition s))"
    "macro_plantuml_action (trim (star @ '' --> '' @ s)) = Some (Take (InitialTransition s))"
    "macro_plantuml_name s \<Longrightarrow> macro_plantuml_action (trim (s @ '' --> '' @ star)) = Some (Take (FinalTransition s))"
proof -
  have i: "plain star \<or> star = star" "plain s \<or> s = star" using assms by simp_all
  have ne: "s \<noteq> []" "s \<noteq> star" "star \<noteq> []" using plain_facts [OF assms] by (simp_all add: star_def)
  note di = bare_split [OF i] and df = bare_split [OF i(2,1)]
  note ti = lines_trimmed(1) [OF i] and tf = lines_trimmed(1) [OF i(2,1)]
  show "mermaid_name s \<Longrightarrow> macro_mermaid_action (trim (star @ '' --> '' @ s)) = Some (Take (InitialTransition s))"
    using di ne ti macro_mermaid_begins [of star "''--> '' @ s"]
    by (simp add: macro_mermaid_action_def Let_def lines_begin_space(1))
  show "mermaid_name s \<Longrightarrow> macro_mermaid_action (trim (s @ '' --> '' @ star)) = Some (Take (FinalTransition s))"
    using df ne tf macro_mermaid_begins [of s "''--> '' @ star"]
    by (simp add: macro_mermaid_action_def Let_def lines_begin_space(1))
  show "macro_plantuml_action (trim (star @ '' --> '' @ s)) = Some (Take (InitialTransition s))"
    using di ne ti macro_plantuml_begins [of star "''--> '' @ s"]
    by (simp add: macro_plantuml_action_def Let_def lines_begin_space(1))
  show "macro_plantuml_name s \<Longrightarrow> macro_plantuml_action (trim (s @ '' --> '' @ star)) = Some (Take (FinalTransition s))"
    using df ne tf macro_plantuml_begins [of s "''--> '' @ star"]
    by (simp add: macro_plantuml_action_def Let_def lines_begin_space(1))
qed

lemma macro_mermaid_bare:
  assumes "mermaid_name s"
  shows "macro_mermaid_action (trim (star @ '' --> '' @ s)) = Some (Take (InitialTransition s))"
    "macro_mermaid_action (trim (s @ '' --> '' @ star)) = Some (Take (FinalTransition s))"
  using macro_bare(1,2) [of s] assms by (simp_all add: mermaid_name_def)

interpretation macro_flowchart: line_syntax macro_mermaid_action flowchart_line mermaid_name
proof unfold_locales
  fix frm to ev assume a: "mermaid_name frm" "mermaid_name to \<or> to = star" "event_label ev"
  then have p: "plain frm" "plain to \<or> to = star" by (auto simp: mermaid_name_def)
  show "macro_mermaid_action (trim (flowchart_line frm ev to)) = Some (Take (LineTransition frm to ev))"
    using lines_trimmed(2) [OF _ p(2) a(3), of frm] macro_reads(1) [OF p a(3,1)] p(1) by simp
  show "newline \<notin> set (flowchart_line frm ev to) \<and> carriage_return \<notin> set (flowchart_line frm ev to)"
    using lines_one_line(1) [OF p a(3)] .
qed ((rule macro_mermaid_bare, assumption) | simp add: mermaid_name_def)+

interpretation macro_diagram: line_syntax macro_mermaid_action diagram_line mermaid_name
proof unfold_locales
  fix frm to ev assume a: "mermaid_name frm" "mermaid_name to \<or> to = star" "event_label ev"
  then have p: "plain frm" "plain to \<or> to = star" by (auto simp: mermaid_name_def)
  show "macro_mermaid_action (trim (diagram_line frm ev to)) = Some (Take (LineTransition frm to ev))"
    using lines_trimmed(3) [OF _ p(2) a(3), of frm] macro_reads(2) [OF p a(3,1)] p(1) by simp
  show "newline \<notin> set (diagram_line frm ev to) \<and> carriage_return \<notin> set (diagram_line frm ev to)"
    using lines_one_line(2) [OF p a(3)] .
qed ((rule macro_mermaid_bare, assumption) | simp add: mermaid_name_def)+

interpretation macro_plantuml: line_syntax macro_plantuml_action diagram_line macro_plantuml_name
proof unfold_locales
  fix frm to ev assume a: "macro_plantuml_name frm" "macro_plantuml_name to \<or> to = star" "event_label ev"
  then have p: "plain frm" "plain to \<or> to = star" by (auto simp: macro_plantuml_name_def plantuml_name_def)
  show "macro_plantuml_action (trim (diagram_line frm ev to)) = Some (Take (LineTransition frm to ev))"
    using lines_trimmed(3) [OF _ p(2) a(3), of frm] macro_reads(3) [OF p a(3,1)] p(1) by simp
  show "newline \<notin> set (diagram_line frm ev to) \<and> carriage_return \<notin> set (diagram_line frm ev to)"
    using lines_one_line(2) [OF p a(3)] .
next
  fix s assume a: "macro_plantuml_name s"
  then have s: "plain s" by (simp add: macro_plantuml_name_def plantuml_name_def)
  then show "plain s" .
  show "macro_plantuml_action (trim (star @ '' --> '' @ s)) = Some (Take (InitialTransition s))"
    using macro_bare(3) [OF s] .
  show "macro_plantuml_action (trim (s @ '' --> '' @ star)) = Some (Take (FinalTransition s))"
    using macro_bare(4) [OF s a] .
qed

end
