(* ===== verification/Fsm_Entry.thy ===== *)
theory Fsm_Entry
  imports Fsm_Macro
begin

section \<open>The attribute of the macro (finitomata_macro/src/lib.rs)\<close>

text \<open>
  The entry point of the macro: the arguments of \<open>#[finitomata(..)]\<close>, then the driver \<open>expand\<close>.
  \<open>syn\<close> is third-party: turning the two token streams into syntax trees are the parameters
  \<open>parse_attrs\<close> and \<open>parse_item\<close>, reading an integer literal is \<open>base10_parse\<close>, and the trees are
  given by the parts the code looks at. An argument is \<open>key = value\<close> or something else; its path
  answers \<open>get_ident\<close> with an identifier or nothing; its value is a literal or another expression.
\<close>

datatype 'i Lit =
    Lit_Str string
  | Lit_Int 'i
  | Lit_Bool bool
  | Lit_Other

datatype 'i Expr =
    Expr_Lit "'i Lit"
  | Expr_Other

datatype 'i Meta =
    Meta_NameValue "string option" "'i Expr"
  | Meta_Other

record FinitomataAttrs =
  at_fsm :: string
  at_syntax :: Syntax
  at_timer :: "64 word option"
  at_auto_terminate :: bool
  at_cache_state :: bool

text \<open>The local variables of the loop over the arguments.\<close>

record attr_vars =
  av_fsm :: "string option"
  av_syntax :: Syntax
  av_timer :: "64 word option"
  av_auto_terminate :: bool
  av_cache_state :: bool

definition attr_start :: attr_vars where
  "attr_start = \<lparr>av_fsm = None, av_syntax = Mermaid, av_timer = None, av_auto_terminate = False,
     av_cache_state = True\<rparr>"

definition attr_key :: "string \<Rightarrow> 'i Expr \<Rightarrow> ('i \<Rightarrow> string + 64 word) \<Rightarrow> attr_vars \<Rightarrow> attr_vars" where
  "attr_key key v base10_parse av =
     (if key = ''fsm'' then
        (case v of Expr_Lit (Lit_Str s) \<Rightarrow> av\<lparr>av_fsm := Some s\<rparr> | _ \<Rightarrow> av)
      else if key = ''syntax'' then
        (case v of
           Expr_Lit (Lit_Str s) \<Rightarrow>
             av\<lparr>av_syntax := if s = ''plantuml'' \<or> s = ''plant_uml'' then PlantUml else Mermaid\<rparr>
         | _ \<Rightarrow> av)
      else if key = ''timer'' then
        (case v of
           Expr_Lit (Lit_Int i) \<Rightarrow> av\<lparr>av_timer := (case base10_parse i of Inl e \<Rightarrow> None | Inr n \<Rightarrow> Some n)\<rparr>
         | _ \<Rightarrow> av)
      else if key = ''auto_terminate'' then
        (case v of Expr_Lit (Lit_Bool b) \<Rightarrow> av\<lparr>av_auto_terminate := b\<rparr> | _ \<Rightarrow> av)
      else if key = ''cache_state'' then
        (case v of Expr_Lit (Lit_Bool b) \<Rightarrow> av\<lparr>av_cache_state := b\<rparr> | _ \<Rightarrow> av)
      else av)"

fun attr_loop :: "('i \<Rightarrow> string + 64 word) \<Rightarrow> 'i Meta list \<Rightarrow> attr_vars \<Rightarrow> attr_vars" where
  "attr_loop base10_parse [] av = av"
| "attr_loop base10_parse (meta # metas) av =
     attr_loop base10_parse metas
       (case meta of
          Meta_NameValue ident v \<Rightarrow>
            (let key = (case ident of Some i \<Rightarrow> i | None \<Rightarrow> []) in attr_key key v base10_parse av)
        | Meta_Other \<Rightarrow> av)"

definition parse_finitomata_attrs ::
    "('t \<Rightarrow> string + 'i Meta list) \<Rightarrow> ('i \<Rightarrow> string + 64 word) \<Rightarrow> 't \<Rightarrow> string + FinitomataAttrs" where
  "parse_finitomata_attrs parse_attrs base10_parse attr =
     (case parse_attrs attr of
        Inl e \<Rightarrow> Inl (''failed to parse attributes: '' @ e)
      | Inr parsed \<Rightarrow>
          (let av = attr_loop base10_parse parsed attr_start
           in case av_fsm av of
                None \<Rightarrow> Inl ''missing required `fsm` attribute''
              | Some fsm \<Rightarrow>
                  Inr \<lparr>at_fsm = fsm, at_syntax = av_syntax av, at_timer = av_timer av,
                    at_auto_terminate = av_auto_terminate av, at_cache_state = av_cache_state av\<rparr>))"

text \<open>
  The macro. It answers the tokens of a compile error with its message, or the item it was put on
  followed by what \<open>generate\<close> declares. An item \<open>syn\<close> cannot read makes \<open>parse_macro_input!\<close>
  return its error.
\<close>

definition finitomata ::
    "('u \<Rightarrow> string + string \<times> 'item) \<Rightarrow> ('t \<Rightarrow> string + 'i Meta list) \<Rightarrow> ('i \<Rightarrow> string + 64 word) \<Rightarrow>
     't \<Rightarrow> 'u \<Rightarrow> string + 'item \<times> Generated" where
  "finitomata parse_item parse_attrs base10_parse attr item =
     (case parse_item item of
        Inl err \<Rightarrow> Inl err
      | Inr (ident, input) \<Rightarrow>
          (case parse_finitomata_attrs parse_attrs base10_parse attr of
             Inl err \<Rightarrow> Inl err
           | Inr attr_args \<Rightarrow>
               map_sum id (Pair input)
                 (expand (at_syntax attr_args) (at_fsm attr_args)
                    \<lparr>struct_name = ident, timer = at_timer attr_args,
                     auto_terminate = at_auto_terminate attr_args,
                     cache_state = at_cache_state attr_args\<rparr>)))"

subsection \<open>What the loop leaves\<close>

text \<open>
  The last argument with the key and a value of the right kind decides; one with a value of
  another kind is passed over.
\<close>

definition last_of :: "('i Meta \<Rightarrow> 'a option) \<Rightarrow> 'i Meta list \<Rightarrow> 'a option" where
  "last_of f metas = find_map f (rev metas)"

lemma last_of_simps [simp]:
  "last_of f [] = None" "last_of f (metas @ [m]) = (case f m of Some x \<Rightarrow> Some x | None \<Rightarrow> last_of f metas)"
  unfolding last_of_def by simp_all

fun keyed :: "string \<Rightarrow> ('i Lit \<Rightarrow> 'a option) \<Rightarrow> 'i Meta \<Rightarrow> 'a option" where
  "keyed k f (Meta_NameValue (Some key) (Expr_Lit l)) = (if key = k then f l else None)"
| "keyed k f m = None"

fun str_lit :: "'i Lit \<Rightarrow> string option" where
  "str_lit (Lit_Str s) = Some s" | "str_lit l = None"

fun bool_lit :: "'i Lit \<Rightarrow> bool option" where
  "bool_lit (Lit_Bool b) = Some b" | "bool_lit l = None"

fun int_lit :: "'i Lit \<Rightarrow> 'i option" where
  "int_lit (Lit_Int i) = Some i" | "int_lit l = None"

definition syntax_named :: "string \<Rightarrow> Syntax" where
  "syntax_named s = (if s \<in> {''plantuml'', ''plant_uml''} then PlantUml else Mermaid)"

lemma attr_loop_append:
  "attr_loop b (xs @ ys) av = attr_loop b ys (attr_loop b xs av)"
  by (induction xs arbitrary: av) simp_all

lemma attr_loop_result:
  "attr_loop b metas attr_start =
     \<lparr>av_fsm = last_of (keyed ''fsm'' str_lit) metas,
      av_syntax = (case last_of (keyed ''syntax'' str_lit) metas of None \<Rightarrow> Mermaid | Some s \<Rightarrow> syntax_named s),
      av_timer = (case last_of (keyed ''timer'' int_lit) metas of
         None \<Rightarrow> None | Some i \<Rightarrow> (case b i of Inl e \<Rightarrow> None | Inr n \<Rightarrow> Some n)),
      av_auto_terminate = (case last_of (keyed ''auto_terminate'' bool_lit) metas of None \<Rightarrow> False | Some v \<Rightarrow> v),
      av_cache_state = (case last_of (keyed ''cache_state'' bool_lit) metas of None \<Rightarrow> True | Some v \<Rightarrow> v)\<rparr>"
proof (induction metas rule: rev_induct)
  case Nil
  show ?case by (simp add: attr_start_def)
next
  case (snoc m metas)
  show ?case
  proof (cases m)
    case (Meta_NameValue ident v)
    then show ?thesis
      by (cases ident; cases v)
        (auto simp: attr_loop_append snoc.IH attr_key_def syntax_named_def split: Lit.split)
  qed (simp add: attr_loop_append snoc.IH)
qed

end
