(* ===== verification/Fsm_Names.thy ===== *)
theory Fsm_Names
  imports Fsm_Macro
begin

section \<open>The names in the generated code\<close>

text \<open>
  What \<open>to_pascal_case\<close> makes of an identifier, and what the lists of variants and match arms that
  \<open>generate\<close> emits hold.
\<close>

subsection \<open>Variant names\<close>

lemma split_underscore_ne: "split_underscore s \<noteq> []"
  by (induction s) (auto split: list.splits)

lemma to_pascal_case_Cons:
  "to_pascal_case [] = []"
  "to_pascal_case (CHR ''_'' # cs) = to_pascal_case cs"
  "c \<noteq> CHR ''_'' \<Longrightarrow> \<exists>part parts. split_underscore cs = part # parts \<and>
     to_pascal_case (c # cs) = to_uppercase c @ part @ concat (map capitalize parts)"
  using split_underscore_ne [of cs]
  by (auto simp: to_pascal_case_def neq_Nil_conv)

lemma to_pascal_case_dropWhile: "to_pascal_case (dropWhile (\<lambda>c. c = CHR ''_'') s) = to_pascal_case s"
  by (induction s) (auto simp: to_pascal_case_Cons)

lemma split_underscore_union: "(\<Union>part\<in>set (split_underscore s). set part) = set s - {CHR ''_''}"
proof (induction s)
  case (Cons c s)
  obtain q qs where q: "split_underscore s = q # qs" using split_underscore_ne [of s] by (cases "split_underscore s") auto
  with Cons.IH show ?case by (cases "c = CHR ''_''") auto
qed simp

lemma split_underscore_chars: "part \<in> set (split_underscore s) \<Longrightarrow> set part \<subseteq> set s - {CHR ''_''}"
  using split_underscore_union [of s] by blast

lemma to_uppercase_alphabetic:
  assumes "is_alphabetic c"
  shows "list_all is_alphabetic (to_uppercase c)"
proof -
  let ?n = "of_char c :: nat"
  have n: "?n < 256" by simp
  have up: "of_char (char_of (?n - 32) :: char) = ?n - 32"
    unfolding of_char_of by (rule mod_less) (use n in linarith)
  show ?thesis
  proof (cases "(97 \<le> ?n \<and> ?n \<le> 122) \<or> (0xE0 \<le> ?n \<and> ?n \<le> 0xFE \<and> ?n \<noteq> 0xF7)")
    case True
    then have "to_uppercase c = [char_of (?n - 32)]" by (simp add: to_uppercase_def)
    moreover have "65 \<le> ?n - 32 \<and> ?n - 32 \<le> 90 \<or> 0xC0 \<le> ?n - 32 \<and> ?n - 32 \<noteq> 0xD7 \<and> ?n - 32 \<noteq> 0xF7"
      using True by linarith
    ultimately show ?thesis by (simp add: is_alphabetic_def Let_def up del: of_char_of) blast
  next
    case False
    with assms show ?thesis by (auto simp: to_uppercase_def is_alphabetic_def)
  qed
qed

lemma to_uppercase_other: "\<not> is_alphabetic c \<Longrightarrow> to_uppercase c = [c]"
  unfolding to_uppercase_def is_alphabetic_def Let_def by auto

lemma to_uppercase_alphanumeric:
  assumes "is_alphanumeric c"
  shows "list_all is_alphanumeric (to_uppercase c)"
proof (cases "is_alphabetic c")
  case True
  from to_uppercase_alphabetic [OF this] show ?thesis
    by (simp add: list_all_iff is_alphanumeric_def)
qed (use assms to_uppercase_other in simp)

lemma to_uppercase_ne: "to_uppercase c \<noteq> []"
  by (simp add: to_uppercase_def Let_def)

lemma is_valid_identifier_pascal:
  assumes "is_valid_identifier s"
  shows "is_valid_identifier (to_pascal_case s) \<longleftrightarrow>
    (case dropWhile (\<lambda>c. c = CHR ''_'') s of [] \<Rightarrow> False | c # cs \<Rightarrow> is_alphabetic c)"
proof (cases "dropWhile (\<lambda>c. c = CHR ''_'') s")
  case Nil
  have "to_pascal_case s = []" using to_pascal_case_dropWhile [of s] unfolding Nil to_pascal_case_Cons(1) by simp
  then show ?thesis unfolding Nil by (simp add: is_valid_identifier_def)
next
  case (Cons c cs)
  then have c: "c \<noteq> CHR ''_''" "to_pascal_case s = to_pascal_case (c # cs)"
    using to_pascal_case_dropWhile [of s] hd_dropWhile [of "\<lambda>c. c = CHR ''_''" s] by auto
  then obtain part parts where p: "split_underscore cs = part # parts"
    "to_pascal_case s = to_uppercase c @ part @ concat (map capitalize parts)"
    using to_pascal_case_Cons(3) [of c cs] by auto
  have chars: "is_alphanumeric x" if "x \<in> set (c # cs)" "x \<noteq> CHR ''_''" for x
  proof -
    have "x \<in> set s" using that(1) Cons set_dropWhileD [of x "\<lambda>c. c = CHR ''_''" s] by simp
    with assms that(2) show ?thesis by (auto simp: is_valid_identifier_def list_all_iff split: list.splits if_splits)
  qed
  have parts: "list_all is_alphanumeric q" if "q \<in> set (split_underscore cs)" for q
    using split_underscore_chars [OF that] chars by (auto simp: list_all_iff)
  have cap: "list_all is_alphanumeric (capitalize q)" if "list_all is_alphanumeric q" for q
    using that by (cases q) (auto simp: to_uppercase_alphanumeric)
  have "list_all is_alphanumeric (capitalize q)" if "q \<in> set parts" for q
    using p(1) that by (intro cap parts) simp
  then have "list_all is_alphanumeric (concat (map capitalize parts))" by (auto simp: list_all_iff)
  then have all: "list_all is_alphanumeric (to_pascal_case s)"
    unfolding p(2) using p(1) parts [of part] to_uppercase_alphanumeric [of c] chars [of c] c(1) by simp
  obtain u us where u: "to_uppercase c = u # us" using to_uppercase_ne [of c] by (cases "to_uppercase c") auto
  have "is_alphabetic u \<longleftrightarrow> is_alphabetic c"
    using u to_uppercase_alphabetic [of c] to_uppercase_other [of c] by (cases "is_alphabetic c") auto
  moreover have "u \<noteq> CHR ''_''"
    using all u p(2) by (auto simp: is_alphanumeric_def is_alphabetic_def)
  ultimately show ?thesis
    using Cons u all by (auto simp: is_valid_identifier_def p(2) list_all_iff)
qed

subsection \<open>Identifiers of the language\<close>

text \<open>
  Which strings of the first 256 code points are identifiers of Rust (its reference, Identifiers and
  Keywords): a letter or an underscore, then letters, digits, underscores and the middle dot (the
  classes \<open>XID_Start\<close> and \<open>XID_Continue\<close> of Unicode), neither the underscore alone nor a keyword, strict
  or reserved, of any edition. The superscript digits and the fractions, which \<open>is_alphanumeric\<close>
  takes, are in neither class.
\<close>

definition xid_start :: "char \<Rightarrow> bool" where
  "xid_start c =
     (let n = (of_char c :: nat) in
      65 \<le> n \<and> n \<le> 90 \<or> 97 \<le> n \<and> n \<le> 122 \<or> n = 0xAA \<or> n = 0xB5 \<or> n = 0xBA \<or>
      0xC0 \<le> n \<and> n \<le> 0xD6 \<or> 0xD8 \<le> n \<and> n \<le> 0xF6 \<or> 0xF8 \<le> n)"

definition xid_continue :: "char \<Rightarrow> bool" where
  "xid_continue c =
     (let n = (of_char c :: nat) in xid_start c \<or> 48 \<le> n \<and> n \<le> 57 \<or> n = 0x5F \<or> n = 0xB7)"

definition rust_keywords :: "string list" where
  "rust_keywords =
     [''as'', ''break'', ''const'', ''continue'', ''crate'', ''else'', ''enum'', ''extern'', ''false'', ''fn'', ''for'', ''if'',
      ''impl'', ''in'', ''let'', ''loop'', ''match'', ''mod'', ''move'', ''mut'', ''pub'', ''ref'', ''return'', ''self'', ''Self'',
      ''static'', ''struct'', ''super'', ''trait'', ''true'', ''type'', ''unsafe'', ''use'', ''where'', ''while'', ''async'',
      ''await'', ''dyn'', ''abstract'', ''become'', ''box'', ''do'', ''final'', ''macro'', ''override'', ''priv'', ''typeof'',
      ''unsized'', ''virtual'', ''yield'', ''try'', ''gen'']"

definition rust_identifier :: "string \<Rightarrow> bool" where
  "rust_identifier s \<longleftrightarrow> s \<noteq> [] \<and> (xid_start (hd s) \<or> hd s = CHR ''_'') \<and> list_all xid_continue s \<and>
     s \<noteq> ''_'' \<and> s \<notin> set rust_keywords"

text \<open>The numerals that are no digits: the superscripts one to three and the three fractions.\<close>

definition odd_numeral :: "char \<Rightarrow> bool" where
  "odd_numeral c = (let n = (of_char c :: nat) in n = 0xB2 \<or> n = 0xB3 \<or> n = 0xB9 \<or> (0xBC \<le> n \<and> n \<le> 0xBE))"

lemma xid_start_alphabetic: "xid_start c = is_alphabetic c"
proof -
  have "(of_char c :: nat) < 256" by simp
  then show ?thesis unfolding xid_start_def is_alphabetic_def Let_def by linarith
qed

lemma xid_continue_alphanumeric: "is_alphanumeric c \<Longrightarrow> xid_continue c = (\<not> odd_numeral c)"
  unfolding xid_continue_def is_alphanumeric_def odd_numeral_def xid_start_alphabetic
  by (auto simp: is_alphabetic_def Let_def)

lemma odd_numeral_upper: "odd_numeral c \<Longrightarrow> to_uppercase c = [c]"
  by (rule to_uppercase_other) (auto simp: odd_numeral_def is_alphabetic_def Let_def)

lemma to_uppercase_not_lower:
  assumes "to_uppercase c = u # us"
  shows "\<not> (97 \<le> (of_char u :: nat) \<and> (of_char u :: nat) \<le> 122)"
proof -
  let ?n = "of_char c :: nat"
  have n: "?n < 256" by simp
  have up: "of_char (char_of (?n - 32) :: char) = ?n - 32"
    unfolding of_char_of by (rule mod_less) (use n in linarith)
  show ?thesis
  proof (cases "(97 \<le> ?n \<and> ?n \<le> 122) \<or> (0xE0 \<le> ?n \<and> ?n \<le> 0xFE \<and> ?n \<noteq> 0xF7)")
    case True
    then have "u = char_of (?n - 32)" using assms by (simp add: to_uppercase_def)
    then have "(of_char u :: nat) = ?n - 32" using up by simp
    with True show ?thesis by linarith
  next
    case False
    with assms show ?thesis by (auto simp: to_uppercase_def Let_def split: if_splits)
  qed
qed

text \<open>The characters of the name that \<open>to_pascal_case\<close> makes.\<close>

lemma capitalize_keeps: "c \<in> set q \<Longrightarrow> to_uppercase c = [c] \<Longrightarrow> c \<in> set (capitalize q)"
  by (cases q) auto

lemma pascal_keeps:
  assumes "c \<in> set s" "c \<noteq> CHR ''_''" "to_uppercase c = [c]"
  shows "c \<in> set (to_pascal_case s)"
proof -
  from assms(1,2) split_underscore_union [of s] obtain q where "q \<in> set (split_underscore s)" "c \<in> set q" by blast
  with capitalize_keeps [of c q] assms(3) show ?thesis by (auto simp: to_pascal_case_def)
qed

lemma pascal_chars:
  assumes "\<And>c. c \<in> set s \<Longrightarrow> c \<noteq> CHR ''_'' \<Longrightarrow> Q c \<and> list_all Q (to_uppercase c)"
  shows "list_all Q (to_pascal_case s)"
proof -
  have "list_all Q (capitalize q)" if q: "q \<in> set (split_underscore s)" for q
  proof -
    have "Q c \<and> list_all Q (to_uppercase c)" if "c \<in> set q" for c
      using split_underscore_chars [OF q] that by (intro assms) auto
    then show ?thesis by (cases q) (auto simp: list_all_iff)
  qed
  then show ?thesis by (auto simp: to_pascal_case_def list_all_iff)
qed

lemma valid_chars: "is_valid_identifier s \<Longrightarrow> c \<in> set s \<Longrightarrow> c \<noteq> CHR ''_'' \<Longrightarrow> is_alphanumeric c"
  by (auto simp: is_valid_identifier_def list_all_iff split: list.splits if_splits)

lemma pascal_alphanumeric:
  assumes "is_valid_identifier s"
  shows "list_all is_alphanumeric (to_pascal_case s)"
  by (rule pascal_chars) (use valid_chars [OF assms] to_uppercase_alphanumeric in blast)

lemma pascal_head:
  assumes "to_pascal_case s = u # us"
  shows "\<not> (97 \<le> (of_char u :: nat) \<and> (of_char u :: nat) \<le> 122)"
  using assms
proof (induction s)
  case (Cons c s)
  show ?case
  proof (cases "c = CHR ''_''")
    case True
    with Cons show ?thesis by (simp add: to_pascal_case_Cons)
  next
    case False
    from to_pascal_case_Cons(3) [OF this, of s] Cons.prems to_uppercase_ne [of c] obtain vs where "to_uppercase c = u # vs"
      by (cases "to_uppercase c") auto
    then show ?thesis by (rule to_uppercase_not_lower)
  qed
qed (simp add: to_pascal_case_Cons)

lemma keyword_heads:
  "list_all (\<lambda>k. k = ''Self'' \<or> 97 \<le> (of_char (hd k) :: nat) \<and> (of_char (hd k) :: nat) \<le> 122) rust_keywords"
  by code_simp

lemma self_keyword: "''Self'' \<in> set rust_keywords"
  by (simp add: rust_keywords_def)

lemma pascal_keyword:
  assumes "to_pascal_case s \<in> set rust_keywords" "to_pascal_case s \<noteq> []"
  shows "to_pascal_case s = ''Self''"
proof -
  obtain u us where u: "to_pascal_case s = u # us" using assms(2) by (cases "to_pascal_case s") auto
  with keyword_heads assms(1) pascal_head [OF u] show ?thesis by (auto simp: list_all_iff)
qed

text \<open>Which names that the validator accepts become identifiers.\<close>

lemma rust_identifier_pascal:
  assumes "is_valid_identifier s"
  shows "rust_identifier (to_pascal_case s) \<longleftrightarrow>
    (case dropWhile (\<lambda>c. c = CHR ''_'') s of [] \<Rightarrow> False | c # cs \<Rightarrow> is_alphabetic c) \<and>
    \<not> list_ex odd_numeral s \<and> to_pascal_case s \<noteq> ''Self''"
proof -
  let ?p = "to_pascal_case s"
  note alnum = pascal_alphanumeric [OF assms]
  have us: "\<not> is_alphanumeric (CHR ''_'')" by code_simp
  have head: "is_valid_identifier ?p \<longleftrightarrow> ?p \<noteq> [] \<and> xid_start (hd ?p)"
    using alnum us by (cases ?p) (auto simp: is_valid_identifier_def xid_start_alphabetic list_all_iff)
  have "list_all xid_continue ?p \<longleftrightarrow> \<not> list_ex odd_numeral ?p"
    using alnum xid_continue_alphanumeric by (auto simp: list_all_iff list_ex_iff)
  also have "\<dots> \<longleftrightarrow> \<not> list_ex odd_numeral s"
  proof
    assume "\<not> list_ex odd_numeral ?p"
    then show "\<not> list_ex odd_numeral s"
      using pascal_keeps [of _ s] odd_numeral_upper by (fastforce simp: list_ex_iff odd_numeral_def Let_def)
  next
    assume none: "\<not> list_ex odd_numeral s"
    have "list_all (\<lambda>c. \<not> odd_numeral c) ?p"
    proof (rule pascal_chars)
      fix c assume c: "c \<in> set s" "c \<noteq> CHR ''_''"
      then have "\<not> odd_numeral c" using none by (simp add: list_ex_iff)
      moreover have "\<not> odd_numeral x" if "is_alphabetic x" for x
        using that by (auto simp: odd_numeral_def is_alphabetic_def Let_def)
      ultimately show "\<not> odd_numeral c \<and> list_all (\<lambda>c. \<not> odd_numeral c) (to_uppercase c)"
        using to_uppercase_alphabetic [of c] to_uppercase_other [of c]
        by (cases "is_alphabetic c") (auto simp: list_all_iff)
    qed
    then show "\<not> list_ex odd_numeral ?p" by (auto simp: list_all_iff list_ex_iff)
  qed
  finally have cont: "list_all xid_continue ?p \<longleftrightarrow> \<not> list_ex odd_numeral s" .
  have hd: "hd ?p \<noteq> CHR ''_''" if "?p \<noteq> []" using alnum us that by (cases ?p) auto
  then have "?p \<noteq> ''_''" by (metis list.distinct(1) list.sel(1))
  moreover have "?p \<in> set rust_keywords \<longleftrightarrow> ?p = ''Self''" if "?p \<noteq> []"
    using pascal_keyword [OF _ that] by (metis self_keyword)
  ultimately have "rust_identifier ?p \<longleftrightarrow> (?p \<noteq> [] \<and> xid_start (hd ?p)) \<and> \<not> list_ex odd_numeral s \<and> ?p \<noteq> ''Self''"
    unfolding rust_identifier_def using cont hd by blast
  with head is_valid_identifier_pascal [OF assms] show ?thesis by simp
qed

subsection \<open>Events and their kinds\<close>

lemma sorted_events_set: "set (sorted_events ts) = pt_event ` set ts" and
  sorted_events_distinct: "distinct (sorted_events ts)"
proof -
  have "set (fold insort_insert xs ys) = set xs \<union> set ys \<and> (sorted ys \<longrightarrow> distinct ys \<longrightarrow> distinct (fold insort_insert xs ys))"
    for xs ys :: "string list"
    by (induction xs arbitrary: ys)
      (auto simp: set_insort_insert sorted_insort_insert distinct_insort_insert)
  from this [of "map pt_event ts" "[]"] show "set (sorted_events ts) = pt_event ` set ts" "distinct (sorted_events ts)"
    by (simp_all add: sorted_events_def)
qed

lemma event_kind_arms_fst:
  "set (map fst (event_kind_arms ts seen)) = to_pascal_case ` (pt_event ` set ts - fset seen)"
  by (induction ts seen rule: event_kind_arms.induct) auto

lemma event_kind_arms_first:
  "(v, k) \<in> set (event_kind_arms ts seen) \<Longrightarrow>
     \<exists>t. v = to_pascal_case (pt_event t) \<and> k = pt_kind t \<and> pt_event t |\<notin>| seen \<and>
       find (\<lambda>u. pt_event u = pt_event t) ts = Some t"
proof (induction ts seen rule: event_kind_arms.induct)
  case (2 t ts seen)
  then show ?case by (fastforce split: if_splits)
qed simp

lemma event_kind_arms_distinct:
  "inj_on to_pascal_case (pt_event ` set ts) \<Longrightarrow> distinct (map fst (event_kind_arms ts seen))"
proof (induction ts seen rule: event_kind_arms.induct)
  case (2 t ts seen)
  have "to_pascal_case (pt_event t) \<notin> to_pascal_case ` (pt_event ` set ts - fset (finsert (pt_event t) seen))"
    using "2.prems" by (auto simp: inj_on_eq_iff)
  moreover have "inj_on to_pascal_case (pt_event ` set ts)" using "2.prems" by (auto simp: inj_on_def)
  ultimately show ?case using "2.IH" event_kind_arms_fst [of ts "finsert (pt_event t) seen"] by auto
qed simp

end
