(* ===== verification/Fsm_Dialects.thy ===== *)
theory Fsm_Dialects
  imports Fsm_Macro
begin

section \<open>The runtime parsers and the macro's, compared\<close>

text \<open>
  The repository has each parser twice, in \<open>finitomata/src/parser\<close> and in
  \<open>finitomata_macro/src/parser.rs\<close>, and the two copies differ. For each syntax it is characterised
  which lines they read alike, and the parsers are equivalent on the texts of such lines. (The
  predicates on lines are specification; the code has no such test.)
\<close>

subsection \<open>Lines\<close>

text \<open>Two readings of a line are alike if both fail, or if they do the same to the collections.\<close>

definition same_effect :: "line_action \<Rightarrow> line_action \<Rightarrow> bool" where
  "same_effect a b \<longleftrightarrow> do_action a = do_action b"

abbreviation read_alike :: "line_action option \<Rightarrow> line_action option \<Rightarrow> bool" where
  "read_alike \<equiv> rel_option same_effect"

lemma same_effect_refl [simp]: "same_effect a a"
  by (simp add: same_effect_def)

lemma read_alike_refl [simp]: "read_alike r r"
  by (simp add: option.rel_refl)

text \<open>What is between and behind the first two bars.\<close>

definition labelled :: "string \<Rightarrow> (string \<times> string) option" where
  "labelled rest = Option.bind (split_once ''|'' rest) (\<lambda>(before, after). split_once ''|'' after)"

text \<open>
  The Mermaid parsers differ on lines with an empty event or target, which the macro takes and the
  runtime does not, and on initial lines with a colon, which the runtime reads as a flowchart.
\<close>

definition mermaid_ignored :: "string \<Rightarrow> bool" where
  "mermaid_ignored line \<longleftrightarrow> line = [] \<or> prefix ''%%'' line \<or> prefix ''graph'' line \<or>
     prefix ''stateDiagram'' line \<or> prefix ''---'' line"

definition mermaid_alike :: "string \<Rightarrow> bool" where
  "mermaid_alike line \<longleftrightarrow> mermaid_ignored line \<or>
     (case split_once ''-->'' line of
        None \<Rightarrow> True
      | Some (frm, rest) \<Rightarrow>
          (case labelled (trim rest) of
             Some (ev, to) \<Rightarrow> trim ev \<noteq> [] \<and> trim to \<noteq> []
           | None \<Rightarrow>
               (case split_once '':'' (trim rest) of
                  None \<Rightarrow> True
                | Some (to, ev) \<Rightarrow> trim frm \<noteq> star \<and> trim to \<noteq> [] \<and> trim ev \<noteq> [])))"

text \<open>
  The PlantUML parsers differ on declarations of states, which the macro ignores, on empty events
  and targets, and on a final line without a source.
\<close>

definition plantuml_ignored :: "string \<Rightarrow> bool" where
  "plantuml_ignored line \<longleftrightarrow> line = [] \<or> prefix [CHR 0x27] line \<or> prefix ''@startuml'' line \<or>
     prefix ''@enduml'' line \<or> prefix ''hide'' line \<or> prefix ''skin'' line"

definition plantuml_arrow :: "string \<Rightarrow> (string \<times> string) option" where
  "plantuml_arrow line =
     (if str_contains ''-->'' line then split_once ''-->'' line else split_once ''->'' line)"

definition plantuml_alike :: "string \<Rightarrow> bool" where
  "plantuml_alike line \<longleftrightarrow> plantuml_ignored line \<or>
     (if prefix ''state '' line then parse_plantuml_transition line = None \<and> declared_state line = None
      else
        (case plantuml_arrow line of
           None \<Rightarrow> True
         | Some (frm, rest) \<Rightarrow>
             (case split_once '':'' (trim rest) of
                None \<Rightarrow> trim frm \<noteq> [] \<or> trim rest \<noteq> star
              | Some (to, ev) \<Rightarrow> trim to \<noteq> [] \<and> (trim frm = star \<or> trim ev \<noteq> []))))"

subsection \<open>Mermaid\<close>

lemma star_ne [simp]: "star \<noteq> []" "[] \<noteq> star"
  by (simp_all add: star_def)

lemma split_colon_ne: "split_once '':'' s = Some r \<Longrightarrow> s \<noteq> [] \<and> s \<noteq> star"
  using split_once_char_None [of "CHR '':''" s] by (auto simp: star_def)

lemma labelled_case:
  "(case split_once ''|'' rest of None \<Rightarrow> x
     | Some (b, a) \<Rightarrow> (case split_once ''|'' a of None \<Rightarrow> x | Some (ev, to) \<Rightarrow> f ev to)) =
   (case labelled rest of None \<Rightarrow> x | Some (ev, to) \<Rightarrow> f ev to)"
  by (simp add: labelled_def split: option.split)

text \<open>What each function makes of the two sides of the arrow.\<close>

definition macro_mermaid_reading :: "string \<Rightarrow> string \<Rightarrow> line_action option" where
  "macro_mermaid_reading frm rest =
     (case labelled rest of
        None \<Rightarrow>
          (case split_once '':'' rest of
             Some (to, ev) \<Rightarrow> Some (Take (LineTransition frm (trim to) (trim ev)))
           | None \<Rightarrow>
               (if frm = star \<and> rest \<noteq> [] then Some (Take (InitialTransition rest))
                else if rest = star then Some (Take (FinalTransition frm)) else None))
      | Some (ev, to) \<Rightarrow> Some (Take (LineTransition frm (trim to) (trim ev))))"

definition flowchart_reading :: "string \<Rightarrow> string \<Rightarrow> ParsedLine option" where
  "flowchart_reading frm rest =
     (case labelled rest of
        None \<Rightarrow>
          (if rest \<noteq> [] then
             (if frm = star then Some (InitialTransition rest)
              else if rest = star then Some (FinalTransition frm) else None)
           else None)
      | Some (ev, to) \<Rightarrow>
          (if trim ev = [] \<or> trim to = [] then None else Some (LineTransition frm (trim to) (trim ev))))"

definition diagram_reading :: "string \<Rightarrow> string \<Rightarrow> ParsedLine option" where
  "diagram_reading frm rest =
     (case split_once '':'' rest of
        Some (to, ev) \<Rightarrow>
          (if trim to = [] \<or> trim ev = [] then None else Some (LineTransition frm (trim to) (trim ev)))
      | None \<Rightarrow>
          (if frm = star \<and> rest \<noteq> [] then Some (InitialTransition rest)
           else if rest = star \<and> frm \<noteq> [] then Some (FinalTransition frm) else None))"

lemma macro_mermaid_reads:
  assumes "\<not> mermaid_ignored line"
  shows "macro_mermaid_action line =
     (case split_once ''-->'' line of None \<Rightarrow> None | Some (frm, rest) \<Rightarrow> macro_mermaid_reading (trim frm) (trim rest))"
proof (cases "split_once ''-->'' line")
  case None
  with assms show ?thesis by (simp add: macro_mermaid_action_def mermaid_ignored_def splitn2_def)
next
  case (Some fr)
  then obtain frm rest where "split_once ''-->'' line = Some (frm, rest)" by (cases fr) auto
  then show ?thesis using assms
    by (simp only: macro_mermaid_action_def mermaid_ignored_def if_False splitn2_def option.case list.case prod.case
        Let_def labelled_case macro_mermaid_reading_def)
qed

lemma flowchart_reads_parts:
  "parse_flowchart_line line =
     (case split_once ''-->'' line of None \<Rightarrow> None | Some (frm, rest) \<Rightarrow> flowchart_reading (trim frm) (trim rest))"
proof (cases "split_once ''-->'' line")
  case None
  then show ?thesis by (simp add: parse_flowchart_line_def splitn2_def)
next
  case (Some fr)
  then obtain frm rest where "split_once ''-->'' line = Some (frm, rest)" by (cases fr) auto
  then show ?thesis
    by (simp only: parse_flowchart_line_def flowchart_reading_def splitn2_def option.case list.case prod.case Let_def labelled_case)
qed

lemma diagram_reads_parts:
  "parse_state_diagram_line line =
     (case split_once ''-->'' line of None \<Rightarrow> None | Some (frm, rest) \<Rightarrow> diagram_reading (trim frm) (trim rest))"
proof (cases "split_once ''-->'' line")
  case None
  then show ?thesis by (simp add: parse_state_diagram_line_def splitn2_def)
next
  case (Some fr)
  then obtain frm rest where "split_once ''-->'' line = Some (frm, rest)" by (cases fr) auto
  then show ?thesis
    by (simp only: parse_state_diagram_line_def diagram_reading_def splitn2_def option.case list.case prod.case Let_def labelled_case)
qed

text \<open>The condition under which the runtime and the macro read two sides alike.\<close>

lemma readings_alike:
  "(case flowchart_reading frm rest of Some l \<Rightarrow> Some (Take l) | None \<Rightarrow> map_option Take (diagram_reading frm rest)) =
     macro_mermaid_reading frm rest \<longleftrightarrow>
   (case labelled rest of
      Some (ev, to) \<Rightarrow> trim ev \<noteq> [] \<and> trim to \<noteq> []
    | None \<Rightarrow>
        (case split_once '':'' rest of
           None \<Rightarrow> True
         | Some (to, ev) \<Rightarrow> frm \<noteq> star \<and> trim to \<noteq> [] \<and> trim ev \<noteq> []))"
proof (cases "labelled rest")
  case None
  show ?thesis
  proof (cases "split_once '':'' rest")
    case c: None
    with None show ?thesis
      by (auto simp: flowchart_reading_def diagram_reading_def macro_mermaid_reading_def)
  next
    case (Some te)
    obtain to ev where te: "split_once '':'' rest = Some (to, ev)" using Some by (cases te) auto
    with None split_colon_ne [OF te] show ?thesis
      by (auto simp: flowchart_reading_def diagram_reading_def macro_mermaid_reading_def)
  qed
next
  case (Some et)
  obtain ev to where et: "labelled rest = Some (ev, to)" using Some by (cases et) auto
  then show ?thesis
    by (auto simp: flowchart_reading_def diagram_reading_def macro_mermaid_reading_def split: option.split)
qed

lemma mermaid_alike_iff: "mermaid_alike line \<longleftrightarrow> mermaid_action line = macro_mermaid_action line"
proof (cases "mermaid_ignored line")
  case True
  then show ?thesis
    by (simp add: mermaid_alike_def mermaid_ignored_def mermaid_action_def macro_mermaid_action_def)
next
  case False
  then have runs: "mermaid_action line = (case parse_flowchart_line line of
        Some parsed \<Rightarrow> Some (Take parsed) | None \<Rightarrow> map_option Take (parse_state_diagram_line line))"
    by (simp add: mermaid_ignored_def mermaid_action_def)
  show ?thesis
  proof (cases "split_once ''-->'' line")
    case None
    with False runs show ?thesis
      by (simp add: mermaid_alike_def macro_mermaid_reads flowchart_reads_parts diagram_reads_parts)
  next
    case (Some fr)
    obtain frm rest where s: "split_once ''-->'' line = Some (frm, rest)" using Some by (cases fr) auto
    show ?thesis
      unfolding runs macro_mermaid_reads [OF False] flowchart_reads_parts diagram_reads_parts s option.case prod.case
        readings_alike
      by (simp add: mermaid_alike_def False s)
  qed
qed

subsection \<open>PlantUML\<close>

text \<open>Every reading that is not \<open>Ignore\<close> adds a state; the effects are told apart on empty collections.\<close>

lemma effect_states: "ps_states (do_action (Take l) parse_start) \<noteq> []"
  by (cases l) (auto simp: Let_def record_initial_def record_final_def insert_state_def push_transition_def
      parse_start_def insort_insert_key_def)

lemma effect_not_ignored: "same_effect act Ignore \<longleftrightarrow> act = Ignore"
proof (cases act)
  case (Take l)
  have "do_action (Take l) parse_start \<noteq> parse_start"
    using effect_states [of l] by (auto simp: parse_start_def)
  with Take show ?thesis by (auto simp: same_effect_def dest: fun_cong [of _ _ parse_start])
next
  case (Declare nm)
  have "do_action (Declare nm) parse_start \<noteq> parse_start"
    by (simp add: insert_state_def parse_start_def insort_insert_key_def)
  with Declare show ?thesis by (auto simp: same_effect_def dest: fun_cong [of _ _ parse_start])
qed simp

lemma effect_initial: "same_effect (Take (InitialTransition to)) (Take (LineTransition star to ev))"
  by (auto simp: same_effect_def Let_def)

lemma effect_final: "\<not> same_effect (Take (FinalTransition frm)) (Take (LineTransition frm star ev))" if "frm \<noteq> star"
proof -
  have "ps_transitions (do_action (Take (FinalTransition frm)) parse_start) \<noteq>
      ps_transitions (do_action (Take (LineTransition frm star ev)) parse_start)"
    using that by (simp add: Let_def record_final_def insert_state_def push_transition_def parse_start_def)
  then show ?thesis unfolding same_effect_def by metis
qed

lemma plantuml_splits:
  "plantuml_arrow line = None \<Longrightarrow> parse_plantuml_transition line = None"
  "plantuml_arrow line = Some (frm, rest) \<Longrightarrow> parse_plantuml_transition line =
     (case split_once '':'' (trim rest) of
        Some (to, ev) \<Rightarrow>
          (if trim to = [] then None
           else if trim frm = star then Some (InitialTransition (trim to))
           else if trim to = star then
             (if trim ev = [] then Some (FinalTransition (trim frm)) else Some (LineTransition (trim frm) star (trim ev)))
           else if trim ev = [] then None else Some (LineTransition (trim frm) (trim to) (trim ev)))
      | None \<Rightarrow>
          (if trim frm = star \<and> trim rest \<noteq> [] then Some (InitialTransition (trim rest))
           else if trim rest = star \<and> trim frm \<noteq> [] then Some (FinalTransition (trim frm)) else None))"
  by (auto simp: plantuml_arrow_def parse_plantuml_transition_def splitn2_def str_contains_def Let_def
      split: if_splits option.splits)

lemma macro_plantuml_splits:
  "\<not> plantuml_ignored line \<Longrightarrow> \<not> prefix ''state '' line \<Longrightarrow> plantuml_arrow line = None \<Longrightarrow>
     macro_plantuml_action line = None"
  "\<not> plantuml_ignored line \<Longrightarrow> \<not> prefix ''state '' line \<Longrightarrow> plantuml_arrow line = Some (frm, rest) \<Longrightarrow>
     macro_plantuml_action line =
       (case split_once '':'' (trim rest) of
          Some (to, ev) \<Rightarrow> Some (Take (LineTransition (trim frm) (trim to) (trim ev)))
        | None \<Rightarrow>
            (if trim frm = star \<and> trim rest \<noteq> [] then Some (Take (InitialTransition (trim rest)))
             else if trim rest = star then Some (Take (FinalTransition (trim frm))) else None))"
  by (auto simp: plantuml_ignored_def plantuml_arrow_def macro_plantuml_action_def splitn2_def str_contains_def
      Let_def split: if_splits option.splits)

lemma plantuml_readings_alike:
  "read_alike
     (map_option Take (case split_once '':'' rest of
        Some (to, ev) \<Rightarrow>
          (if trim to = [] then None
           else if frm = star then Some (InitialTransition (trim to))
           else if trim to = star then
             (if trim ev = [] then Some (FinalTransition frm) else Some (LineTransition frm star (trim ev)))
           else if trim ev = [] then None else Some (LineTransition frm (trim to) (trim ev)))
      | None \<Rightarrow>
          (if frm = star \<and> rest \<noteq> [] then Some (InitialTransition rest)
           else if rest = star \<and> frm \<noteq> [] then Some (FinalTransition frm) else None)))
     (case split_once '':'' rest of
        Some (to, ev) \<Rightarrow> Some (Take (LineTransition frm (trim to) (trim ev)))
      | None \<Rightarrow>
          (if frm = star \<and> rest \<noteq> [] then Some (Take (InitialTransition rest))
           else if rest = star then Some (Take (FinalTransition frm)) else None)) \<longleftrightarrow>
   (case split_once '':'' rest of
      None \<Rightarrow> frm \<noteq> [] \<or> rest \<noteq> star
    | Some (to, ev) \<Rightarrow> trim to \<noteq> [] \<and> (frm = star \<or> trim ev \<noteq> []))"
proof (cases "split_once '':'' rest")
  case (Some te)
  obtain to ev where te: "split_once '':'' rest = Some (to, ev)" using Some by (cases te) auto
  consider "trim to = []" | "trim to \<noteq> []" "frm = star" | "trim to \<noteq> []" "frm \<noteq> star" "trim ev = []"
    | "trim to \<noteq> []" "frm \<noteq> star" "trim ev \<noteq> []" by blast
  then show ?thesis
    by cases (simp_all add: te effect_initial effect_final)
qed auto

lemma plantuml_alike_iff: "plantuml_alike line \<longleftrightarrow> read_alike (plantuml_action line) (macro_plantuml_action line)"
proof (cases "plantuml_ignored line")
  case True
  then have "plantuml_action line = Some Ignore" "macro_plantuml_action line = Some Ignore"
    by (auto simp: plantuml_ignored_def plantuml_action_def macro_plantuml_action_def)
  with True show ?thesis by (simp add: plantuml_alike_def)
next
  case False
  then have runs: "plantuml_action line = (case parse_plantuml_transition line of
        Some parsed \<Rightarrow> Some (Take parsed)
      | None \<Rightarrow> if prefix ''state '' line
          then Some (case declared_state line of Some nm \<Rightarrow> Declare nm | None \<Rightarrow> Ignore) else None)"
    by (simp add: plantuml_ignored_def plantuml_action_def)
  show ?thesis
  proof (cases "prefix ''state '' line")
    case True
    with False have "macro_plantuml_action line = Some Ignore"
      by (simp add: macro_plantuml_action_def plantuml_ignored_def)
    with True False runs show ?thesis
      by (auto simp: plantuml_alike_def effect_not_ignored split: option.split)
  next
    case st: False
    note macro = macro_plantuml_splits [OF False st]
    show ?thesis
    proof (cases "plantuml_arrow line")
      case None
      with False st runs macro(1) plantuml_splits(1) show ?thesis by (simp add: plantuml_alike_def)
    next
      case (Some fr)
      obtain frm rest where s: "plantuml_arrow line = Some (frm, rest)" using Some by (cases fr) auto
      have "plantuml_action line = map_option Take (parse_plantuml_transition line)"
        using runs st by (simp split: option.split)
      then show ?thesis
        unfolding macro(2) [OF s] plantuml_splits(2) [OF s] plantuml_alike_def
        using plantuml_readings_alike [of "trim frm" "trim rest"] False st s by simp
    qed
  qed
qed

subsection \<open>Texts\<close>

text \<open>
  What the macro answers for what the runtime answers: the same machine; the same complaint about
  the same line; and for a machine the runtime finds empty, that machine.
\<close>

fun agrees :: "ParseError + ParsedFsm \<Rightarrow> string + ParsedFsm \<Rightarrow> bool" where
  "agrees (Inr fsm) r \<longleftrightarrow> r = Inr fsm"
| "agrees (Inl (SyntaxError n msg)) r \<longleftrightarrow>
     (case strip_prefix ''cannot parse: '' msg of
        None \<Rightarrow> False
      | Some quoted \<Rightarrow> r = Inl (''line '' @ nat_display n @ '': cannot parse '' @ quoted))"
| "agrees (Inl ParseNoInitialState) r \<longleftrightarrow> r = Inl ''no initial state found (use `[*] --> state`)''"
| "agrees (Inl EmptyDefinition) r \<longleftrightarrow>
     (case r of Inl err \<Rightarrow> False | Inr fsm \<Rightarrow> pf_transitions fsm = [] \<and> length (pf_states fsm) \<le> 1)"

text \<open>Two readers of lines, and the lines they read alike.\<close>

locale dialects =
  fixes action action' :: "string \<Rightarrow> line_action option" and alike :: "string \<Rightarrow> bool"
  assumes alike_reads: "alike line \<Longrightarrow> read_alike (action line) (action' line)"
begin

lemma loops_agree:
  "\<forall>line\<in>set ls. alike (trim line) \<Longrightarrow>
   (case parse_loop action n ls ps of
      Inr ps' \<Rightarrow> macro_loop action' n ls ps = Inr ps'
    | Inl err \<Rightarrow> \<exists>k line. err = SyntaxError k (cannot_parse line) \<and>
        macro_loop action' n ls ps = Inl (''line '' @ nat_display k @ '': cannot parse `'' @ line @ ''`''))"
proof (induction ls arbitrary: n ps)
  case (Cons l ls)
  then have r: "read_alike (action (trim l)) (action' (trim l))" by (simp add: alike_reads)
  show ?case
  proof (cases "action (trim l)")
    case None
    with r show ?thesis by auto
  next
    case (Some act)
    with r obtain act' where "action' (trim l) = Some act'" "same_effect act act'"
      by (auto simp: option_rel_Some1)
    moreover from this(2) have "do_action act' ps = do_action act ps" by (simp add: same_effect_def)
    moreover have "\<forall>line\<in>set ls. alike (trim line)" using Cons.prems by simp
    note ih = Cons.IH [OF this, of "Suc n" "do_action act ps"]
    ultimately show ?thesis using Some ih
      by (cases "parse_loop action (Suc n) ls (do_action act ps)") auto
  qed
qed simp

lemma parsers_agree:
  assumes "\<forall>line\<in>set (lines input). alike (trim line)"
  shows "agrees (parse_with action input) (macro_parse_with action' input)"
proof (cases "parse_loop action 0 (lines input) parse_start")
  case (Inl err)
  with loops_agree [OF assms, of 0 parse_start] show ?thesis
    by (auto simp: parse_with_def macro_parse_with_def cannot_parse_def strip_prefix_def)
next
  case (Inr ps)
  with loops_agree [OF assms, of 0 parse_start]
  have "macro_loop action' 0 (lines input) parse_start = Inr ps" by simp
  with Inr show ?thesis
    by (auto simp: parse_with_def macro_parse_with_def parse_finish_def split: option.split)
qed

end

interpretation mermaid_dialects: dialects mermaid_action macro_mermaid_action mermaid_alike
  by unfold_locales (simp add: mermaid_alike_iff)

interpretation plantuml_dialects: dialects plantuml_action macro_plantuml_action plantuml_alike
  by unfold_locales (simp add: plantuml_alike_iff)

end
