(* ===== verification/Props_Macro.thy ===== *)
theory Props_Macro
  imports Fsm_Entry Fsm_Names Fsm_Dialects Props_Parser
begin

section \<open>Properties of the macro crate\<close>

text \<open>
  The compile-time parser agrees with the runtime parser on printed machines, the attribute is read
  argument by argument, the validator accepts exactly the machines it documents, and the code the
  macro generates for a machine it accepts is well typed and behaves as the machine reads.
\<close>

subsection \<open>Round trips\<close>

lemma macro_round_trip:
  "(printable mermaid_name fsm \<longrightarrow>
      parse_mermaid (print_fsm flowchart_line fsm) = Inr fsm \<and>
      parse_mermaid (print_fsm diagram_line fsm) = Inr fsm) \<and>
   (printable macro_plantuml_name fsm \<longrightarrow> parse_plantuml (print_fsm diagram_line fsm) = Inr fsm)"
  using macro_flowchart.round_trip [of fsm] macro_diagram.round_trip [of fsm] macro_plantuml.round_trip [of fsm]
  by (simp add: parse_mermaid_def parse_plantuml_def macro_parse_parse)

text \<open>
  C28: a machine of the shape a parse yields (sorted lists without repetitions, exactly the states
  it mentions, a transition or a second state), whose names are plain identifiers not beginning with
  a keyword of the syntax, is read back exactly from its text, by the runtime parsers and by the macro's alike, as a Mermaid
  flowchart, as a Mermaid state diagram and as a PlantUML diagram: the same initial and final
  states, states, and transitions in order, each with its event and kind. In PlantUML the macro
  takes a line that begins with \<open>state \<close> for a declaration, so there no source may be named
  \<open>state\<close>.
\<close>

theorem round_trips:
  "(printable mermaid_name fsm \<longrightarrow> (\<forall>line\<in>{flowchart_line, diagram_line}.
      MermaidParser_parse (print_fsm line fsm) = Inr fsm \<and> parse_mermaid (print_fsm line fsm) = Inr fsm)) \<and>
   (printable plantuml_name fsm \<longrightarrow> PlantUmlParser_parse (print_fsm diagram_line fsm) = Inr fsm) \<and>
   (printable macro_plantuml_name fsm \<longrightarrow> parse_plantuml (print_fsm diagram_line fsm) = Inr fsm)"
  using print_parse_round_trip [of fsm] macro_round_trip [of fsm] by simp

theorem round_trips_witness: "parse_mermaid (print_fsm flowchart_line flow_fsm) = Inr flow_fsm"
  using round_trips [of flow_fsm] flow_printable by simp

subsection \<open>The two copies of the parsers\<close>

text \<open>
  C29: the runtime parsers and the macro's read a text alike if every line of it, trimmed, is one they read
  alike: the same machine comes out, or the same line is complained about, or both miss an initial
  state; only a machine without transitions and of one state at most, which the runtime refuses as
  empty, passes the macro. And exactly these lines are read alike: in Mermaid all but those with an
  empty event or target, which the runtime refuses or reads otherwise, and those with the initial
  marker and a colon, which it takes for a flowchart line; in PlantUML all but declarations of
  states, lines with an empty target, lines with an empty event that do not leave the initial
  marker, and final lines without a source.
\<close>

theorem dialects_agree:
  "((\<forall>line\<in>set (lines input). mermaid_alike (trim line)) \<longrightarrow>
      agrees (MermaidParser_parse input) (parse_mermaid input)) \<and>
   ((\<forall>line\<in>set (lines input). plantuml_alike (trim line)) \<longrightarrow>
      agrees (PlantUmlParser_parse input) (parse_plantuml input)) \<and>
   (mermaid_alike line \<longleftrightarrow> mermaid_action line = macro_mermaid_action line) \<and>
   (plantuml_alike line \<longleftrightarrow> read_alike (plantuml_action line) (macro_plantuml_action line))"
  using mermaid_dialects.parsers_agree [of input] plantuml_dialects.parsers_agree [of input]
  by (simp add: MermaidParser_parse_def parse_mermaid_def PlantUmlParser_parse_def parse_plantuml_def
      mermaid_alike_iff plantuml_alike_iff)

definition alike_text :: string where
  "alike_text = ''[*] --> idle'' @ [newline] @ ''idle --> |go!| run'' @ [newline] @ ''run --> [*] : end''"

theorem dialects_agree_witness:
  "agrees (MermaidParser_parse alike_text) (parse_mermaid alike_text) \<and> \<not> mermaid_alike ''[*] --> idle : init''"
proof
  have "\<forall>line\<in>set (lines alike_text). mermaid_alike (trim line)" by code_simp
  with dialects_agree [of alike_text] show "agrees (MermaidParser_parse alike_text) (parse_mermaid alike_text)" by blast
  show "\<not> mermaid_alike ''[*] --> idle : init''" by code_simp
qed

subsection \<open>The attribute\<close>

text \<open>
  C30: the arguments of the attribute are read key by key: for each key the last argument with a
  value of the right kind decides, whatever stands around it; without one \<open>syntax\<close> is Mermaid,
  \<open>timer\<close> is not set, \<open>auto_terminate\<close> is off and \<open>cache_state\<close> is on, and without a string for
  \<open>fsm\<close> the macro stops with an error. A syntax it does not know is taken for Mermaid and a timer
  that is no \<open>u64\<close> for none, without a word. The macro yields code exactly when the item and the
  attribute can be read, the text parses in the chosen syntax and the machine is valid.
\<close>

theorem attributes_read:
  "parse_finitomata_attrs parse_attrs base10_parse attr =
     (case parse_attrs attr of
        Inl e \<Rightarrow> Inl (''failed to parse attributes: '' @ e)
      | Inr metas \<Rightarrow>
          (case last_of (keyed ''fsm'' str_lit) metas of
             None \<Rightarrow> Inl ''missing required `fsm` attribute''
           | Some text \<Rightarrow> Inr
               \<lparr>at_fsm = text,
                at_syntax = (case last_of (keyed ''syntax'' str_lit) metas of None \<Rightarrow> Mermaid | Some s \<Rightarrow> syntax_named s),
                at_timer = Option.bind (last_of (keyed ''timer'' int_lit) metas)
                  (\<lambda>i. case base10_parse i of Inl e \<Rightarrow> None | Inr n \<Rightarrow> Some n),
                at_auto_terminate = (last_of (keyed ''auto_terminate'' bool_lit) metas = Some True),
                at_cache_state = (last_of (keyed ''cache_state'' bool_lit) metas \<noteq> Some False)\<rparr>)) \<and>
   ((\<exists>out. finitomata parse_item parse_attrs base10_parse attr item = Inr out) \<longleftrightarrow>
     (\<exists>parsed_item args fsm. parse_item item = Inr parsed_item \<and>
        parse_finitomata_attrs parse_attrs base10_parse attr = Inr args \<and>
        (if at_syntax args = PlantUml then parse_plantuml else parse_mermaid) (at_fsm args) = Inr fsm \<and>
        macro_validate fsm = Inr ()))"
proof
  show "parse_finitomata_attrs parse_attrs base10_parse attr =
     (case parse_attrs attr of
        Inl e \<Rightarrow> Inl (''failed to parse attributes: '' @ e)
      | Inr metas \<Rightarrow>
          (case last_of (keyed ''fsm'' str_lit) metas of
             None \<Rightarrow> Inl ''missing required `fsm` attribute''
           | Some text \<Rightarrow> Inr
               \<lparr>at_fsm = text,
                at_syntax = (case last_of (keyed ''syntax'' str_lit) metas of None \<Rightarrow> Mermaid | Some s \<Rightarrow> syntax_named s),
                at_timer = Option.bind (last_of (keyed ''timer'' int_lit) metas)
                  (\<lambda>i. case base10_parse i of Inl e \<Rightarrow> None | Inr n \<Rightarrow> Some n),
                at_auto_terminate = (last_of (keyed ''auto_terminate'' bool_lit) metas = Some True),
                at_cache_state = (last_of (keyed ''cache_state'' bool_lit) metas \<noteq> Some False)\<rparr>))"
    by (auto simp: parse_finitomata_attrs_def attr_loop_result Let_def split: sum.split option.split)
qed (auto simp: finitomata_def expand_def split: sum.splits Syntax.splits)

subsection \<open>Validation\<close>

text \<open>
  C31: the macro's validator accepts exactly the machines with an initial state, a final state, no
  state unreachable from the initial one, no two transitions of a state for one event, and events
  and states that are identifiers; otherwise it reports at least one error.
\<close>

theorem macro_validate_exact:
  "macro_validate fsm \<noteq> Inl [] \<and>
   (macro_validate fsm = Inr () \<longleftrightarrow>
     pf_initial fsm \<noteq> [] \<and> pf_finals fsm \<noteq> [] \<and>
     (\<forall>s\<in>set (pf_states fsm). macro_reachable (pf_transitions fsm) (pf_initial fsm) s) \<and>
     distinct (map (\<lambda>t. (pt_from t, pt_event t)) (pf_transitions fsm)) \<and>
     (\<forall>t\<in>set (pf_transitions fsm). is_valid_identifier (pt_event t)) \<and>
     (\<forall>s\<in>set (pf_states fsm). is_valid_identifier s))"
  unfolding macro_validate_ok by (simp add: macro_validate_def Let_def)

lemma flow_fsm_valid: "macro_validate flow_fsm = Inr ()"
  by code_simp

theorem macro_validate_exact_witness: "macro_reachable (pf_transitions flow_fsm) ''a'' ''b''"
  using macro_validate_exact [of flow_fsm] flow_fsm_valid by (simp add: flow_fsm_def)

subsection \<open>The generated graph\<close>

lemma find_map_image: "find P (map f xs) = map_option f (find (\<lambda>x. P (f x)) xs)"
  by (induction xs) auto

lemma find_cong_set: "(\<And>x. x \<in> set xs \<Longrightarrow> P x = Q x) \<Longrightarrow> find P xs = find Q xs"
  by (induction xs) auto

lemma build_graph_allowed:
  assumes "inj_on to_pascal_case A" "inj_on to_pascal_case B" "s \<in> A" "e \<in> B"
    and "\<And>t. t \<in> set (pf_transitions fsm) \<Longrightarrow> pt_from t \<in> A \<and> pt_event t \<in> B"
  shows "allowed (build_graph fsm) (to_pascal_case s) (to_pascal_case e) =
    map_option (\<lambda>t. ([to_pascal_case (if pt_to t = terminal then pt_from t else pt_to t)], pt_kind t))
      (find (\<lambda>t. pt_from t = s \<and> pt_event t = e) (pf_transitions fsm))"
proof -
  have "find (\<lambda>t. t_from (transition_entry t) = to_pascal_case s \<and> t_event (transition_entry t) = to_pascal_case e)
      (pf_transitions fsm) = find (\<lambda>t. pt_from t = s \<and> pt_event t = e) (pf_transitions fsm)"
    using assms by (intro find_cong_set) (auto simp: transition_entry_def inj_on_eq_iff)
  then show ?thesis
    by (simp add: build_graph_def allowed_scan graph_inv_new find_map_image option.map_comp o_def
        transition_entry_def if_distrib cong: option.map_cong)
qed

lemma build_graph_edge:
  assumes "macro_edge (pf_transitions fsm) s x"
  shows "\<exists>e. graph_edge (build_graph fsm) (to_pascal_case s) e (to_pascal_case x)"
  using assms by (fastforce simp: macro_edge_def graph_edge_def build_graph_def transition_entry_def)

lemma build_graph_reachable:
  "macro_reachable (pf_transitions fsm) s x \<Longrightarrow>
     reachable (build_graph fsm) (to_pascal_case s) (to_pascal_case x)"
proof (induction rule: macro_reachable.induct)
  case (macro_step x y)
  with build_graph_edge [OF macro_step.hyps(2)] show ?case by (auto intro: reachable.step)
qed (rule reachable.start)

lemma build_graph_states:
  assumes "pf_initial fsm \<in> A" "set (pf_finals fsm) \<subseteq> A"
    and "\<And>t. t \<in> set (pf_transitions fsm) \<Longrightarrow> pt_from t \<in> A \<and> (pt_to t \<in> A \<or> pt_to t = terminal)"
  shows "fset (all_states (build_graph fsm)) \<subseteq> to_pascal_case ` A"
  using assms by (auto simp: fset_all_states build_graph_def transition_entry_def fset_of_list.rep_eq intro!: imageI)
    (use assms(3) in blast)

text \<open>
  C32: for a machine the macro's parser yields and its validator accepts, and whose names stay
  apart as variant names, the generated graph is sound: the runtime \<open>validate\<close> accepts it, and it
  answers a state and an event as the machine's text does, with the kind of the transition and the
  one target written there. A transition to \<open>[*]\<close> answers with its own source state.
\<close>

theorem generated_graph_faithful:
  assumes "macro_parse_with action input = Inr fsm" "macro_validate fsm = Inr ()"
    and "inj_on to_pascal_case (set (pf_states fsm))" "inj_on to_pascal_case (pt_event ` set (pf_transitions fsm))"
  shows "validate dbg (build_graph fsm) = Inr () \<and>
    (\<forall>s\<in>set (pf_states fsm). \<forall>e\<in>pt_event ` set (pf_transitions fsm).
      allowed (build_graph fsm) (to_pascal_case s) (to_pascal_case e) =
        map_option (\<lambda>t. ([to_pascal_case (if pt_to t = terminal then pt_from t else pt_to t)], pt_kind t))
          (find (\<lambda>t. pt_from t = s \<and> pt_event t = e) (pf_transitions fsm)))"
proof -
  note inv = macro_parse_inv [OF assms(1)] and ok = assms(2) [unfolded macro_validate_ok]
  have g: "graph_inv (build_graph fsm)" by (simp add: build_graph_def graph_inv_new)
  have "finals (build_graph fsm) \<noteq> {||}"
    using ok by (cases "pf_finals fsm") (simp_all add: build_graph_def)
  moreover have "reachable (build_graph fsm) (initial (build_graph fsm)) x" if "x |\<in>| all_states (build_graph fsm)" for x
  proof -
    from build_graph_states [OF inv] that obtain s where "s \<in> set (pf_states fsm)" "x = to_pascal_case s" by blast
    with ok build_graph_reachable [of fsm "pf_initial fsm" s] show ?thesis by (simp add: build_graph_def)
  qed
  ultimately have "validate dbg (build_graph fsm) = Inr ()"
    using validate_ok_iff [OF g, of dbg] by blast
  moreover have "allowed (build_graph fsm) (to_pascal_case s) (to_pascal_case e) =
        map_option (\<lambda>t. ([to_pascal_case (if pt_to t = terminal then pt_from t else pt_to t)], pt_kind t))
          (find (\<lambda>t. pt_from t = s \<and> pt_event t = e) (pf_transitions fsm))"
    if "s \<in> set (pf_states fsm)" "e \<in> pt_event ` set (pf_transitions fsm)" for s e
    using build_graph_allowed [OF assms(3,4) that] inv(3) by blast
  ultimately show ?thesis by blast
qed

lemma flow_macro_parse: "macro_parse_with macro_mermaid_action flow_text = Inr flow_fsm"
  by code_simp

lemma flow_pascal: "map to_pascal_case [''a'', ''b'', ''go'', ''end''] = [''A'', ''B'', ''Go'', ''End'']"
  by code_simp

theorem generated_graph_faithful_witness: "allowed (build_graph flow_fsm) ''A'' ''Go'' = Some ([''B''], Hard)"
proof -
  have "inj_on to_pascal_case (set (pf_states flow_fsm))" "inj_on to_pascal_case (pt_event ` set (pf_transitions flow_fsm))"
    using flow_pascal by (simp_all add: flow_fsm_def)
  from generated_graph_faithful [OF flow_macro_parse flow_fsm_valid this, THEN conjunct2, rule_format, of "''a''" "''go''"]
  show ?thesis using flow_pascal by (simp add: flow_fsm_def terminal_def)
qed

subsection \<open>The types of the generated code\<close>

text \<open>
  C33: the code generated for a machine the macro accepts is well typed as far as names go. Every
  state and event that the generated graph mentions is a declared variant; the match of \<open>kind\<close>
  covers exactly the events, and answers the kind of the first transition written for the event;
  the variants are distinct exactly if \<open>to_pascal_case\<close> keeps the names apart, which the validator
  does not check; and the variant of a state or event is an identifier of Rust (of the first 256 code
  points, and no keyword) exactly if the first character of the name that is no underscore is a
  letter, the name has no superscript digit and no fraction, and it does not become the keyword
  \<open>Self\<close>: the names \<open>_\<close>, \<open>_1\<close>, \<open>self\<close> and \<open>x\<close> with U+00B2 pass the validator and yield none.
\<close>

theorem generated_code_typed:
  assumes "macro_parse_with action input = Inr fsm" "macro_validate fsm = Inr ()"
  shows "let out = generate fsm config; states = map fst (gen_state_display out);
      events = map fst (gen_event_display out); g = gen_graph out in
    initial g \<in> set states \<and> fset (finals g) \<subseteq> set states \<and>
    (\<forall>t\<in>set (transitions g). t_from t \<in> set states \<and> set (t_to t) \<subseteq> set states \<and> t_event t \<in> set events) \<and>
    set (map fst (gen_event_kind out)) = set events \<and>
    (\<forall>(v, k)\<in>set (gen_event_kind out). \<exists>t. v = to_pascal_case (pt_event t) \<and> k = pt_kind t \<and>
       find (\<lambda>u. pt_event u = pt_event t) (pf_transitions fsm) = Some t) \<and>
    (distinct states \<longleftrightarrow> inj_on to_pascal_case (set (pf_states fsm))) \<and>
    (distinct events \<longleftrightarrow> inj_on to_pascal_case (pt_event ` set (pf_transitions fsm))) \<and>
    (\<forall>s\<in>set (pf_states fsm) \<union> pt_event ` set (pf_transitions fsm). rust_identifier (to_pascal_case s) \<longleftrightarrow>
       (case dropWhile (\<lambda>c. c = CHR ''_'') s of [] \<Rightarrow> False | c # cs \<Rightarrow> is_alphabetic c) \<and>
       \<not> list_ex odd_numeral s \<and> to_pascal_case s \<noteq> ''Self'')"
proof -
  note inv = macro_parse_inv [OF assms(1)]
  have d: "distinct (pf_states fsm)" using macro_parse_distinct [OF assms(1)] .
  have valid: "\<forall>s\<in>set (pf_states fsm) \<union> pt_event ` set (pf_transitions fsm). is_valid_identifier s"
    using assms(2) by (auto simp: macro_validate_ok)
  have trans: "t_from t \<in> to_pascal_case ` set (pf_states fsm) \<and> set (t_to t) \<subseteq> to_pascal_case ` set (pf_states fsm) \<and>
      t_event t \<in> to_pascal_case ` pt_event ` set (pf_transitions fsm)"
    if "t \<in> transition_entry ` set (pf_transitions fsm)" for t
  proof -
    from that obtain u where u: "u \<in> set (pf_transitions fsm)" "t = transition_entry u" by blast
    from inv(3) [OF u(1)] u show ?thesis by (auto simp: transition_entry_def)
  qed
  have fields: "map fst (gen_state_display (generate fsm config)) = map to_pascal_case (pf_states fsm)"
    "map fst (gen_event_display (generate fsm config)) = map to_pascal_case (sorted_events (pf_transitions fsm))"
    "initial (gen_graph (generate fsm config)) = to_pascal_case (pf_initial fsm)"
    "fset (finals (gen_graph (generate fsm config))) = to_pascal_case ` set (pf_finals fsm)"
    "set (transitions (gen_graph (generate fsm config))) = transition_entry ` set (pf_transitions fsm)"
    "gen_event_kind (generate fsm config) = event_kind_arms (pf_transitions fsm) {||}"
    by (simp_all add: generate_def build_graph_def o_def fset_of_list.rep_eq)
  have kinds: "set (map fst (event_kind_arms (pf_transitions fsm) {||})) =
      set (map to_pascal_case (sorted_events (pf_transitions fsm)))"
    unfolding event_kind_arms_fst by (simp add: sorted_events_set)
  have first: "\<forall>(v, k)\<in>set (event_kind_arms (pf_transitions fsm) {||}). \<exists>t. v = to_pascal_case (pt_event t) \<and>
      k = pt_kind t \<and> find (\<lambda>u. pt_event u = pt_event t) (pf_transitions fsm) = Some t"
    by (auto dest: event_kind_arms_first)
  show ?thesis
    unfolding Let_def fields
  proof (intro conjI kinds first ballI)
    show "rust_identifier (to_pascal_case s) \<longleftrightarrow>
        (case dropWhile (\<lambda>c. c = CHR ''_'') s of [] \<Rightarrow> False | c # cs \<Rightarrow> is_alphabetic c) \<and>
        \<not> list_ex odd_numeral s \<and> to_pascal_case s \<noteq> ''Self''"
      if "s \<in> set (pf_states fsm) \<union> pt_event ` set (pf_transitions fsm)" for s
      by (rule rust_identifier_pascal) (rule bspec [OF valid that])
  qed (use inv(1,2) trans d in \<open>auto simp: distinct_map sorted_events_set sorted_events_distinct\<close>)
qed

theorem generated_code_typed_witness:
  "distinct (map fst (gen_state_display (generate flow_fsm
     \<lparr>struct_name = ''Flow'', timer = None, auto_terminate = True, cache_state = True\<rparr>)))"
  using generated_code_typed [OF flow_macro_parse flow_fsm_valid,
      of "\<lparr>struct_name = ''Flow'', timer = None, auto_terminate = True, cache_state = True\<rparr>"] flow_pascal
  by (simp add: Let_def flow_fsm_def)

text \<open>Names that pass the validator and are no variants.\<close>

lemma no_variant:
  "is_valid_identifier ''_''" "to_pascal_case ''_'' = []" "is_valid_identifier ''_1''" "to_pascal_case ''_1'' = ''1''"
  "to_pascal_case ''a_b'' = to_pascal_case ''aB''" "is_valid_identifier ''self''" "to_pascal_case ''self'' = ''Self''"
  "is_valid_identifier (''x'' @ [CHR 0xB2])" "\<not> rust_identifier (to_pascal_case (''x'' @ [CHR 0xB2]))"
  by code_simp+

end
