(* ===== verification/Fsm_Timer.thy ===== *)
theory Fsm_Timer
  imports Fsm_Prelude
begin

section \<open>The recurring timer (finitomata/src/timer.rs)\<close>

text \<open>
  \<open>FsmTimer\<close> is a task that sends a tick after every interval until it is cancelled, and the
  methods that start, stop and cancel it. The code is a coroutine: it runs from one \<open>await\<close> to the
  next, and \<open>tokio\<close>, which is third-party, decides when an \<open>await\<close> answers and what. So the task
  and \<open>stop\<close> are functions from the point of the code they are suspended at and an answer to the
  next such point, and a run is a list of timed events. What \<open>tokio\<close> documents of its interval,
  its bounded channel, \<open>select!\<close> and the join handle (for a period that is not zero) are the predicates \<open>tokio_interval\<close>,
  \<open>tokio_send\<close>, \<open>tokio_cancel\<close> and \<open>tokio_join\<close> on such runs.
\<close>

subsection \<open>The task\<close>

text \<open>The three awaits of the task: the skipped first tick, \<open>select!\<close>, and the send of a tick.\<close>

datatype timer_pc = Skipping | Selecting | Sending | Ended

datatype wake =
    Ticked
  | CancelReceived "unit option"
  | TickSent "unit + unit"

fun timer_resume :: "timer_pc \<Rightarrow> wake \<Rightarrow> timer_pc option" where
  "timer_resume Skipping Ticked = Some Selecting"
| "timer_resume Selecting Ticked = Some Sending"
| "timer_resume Selecting (CancelReceived msg) = Some Ended"
| "timer_resume Sending (TickSent (Inl err)) = Some Ended"
| "timer_resume Sending (TickSent (Inr u)) = Some Selecting"
| "timer_resume pc w = None"

subsection \<open>The handle\<close>

text \<open>
  \<open>stop\<close> sends the cancel message and then waits for the task, whatever the send answered;
  \<open>cancel\<close> spawns a task that sends the message.
\<close>

datatype stop_pc = StopSending | StopJoining | StopReturned

datatype stop_wake =
    StopSent "unit + unit"
  | Joined "unit + unit"

fun stop_resume :: "stop_pc \<Rightarrow> stop_wake \<Rightarrow> stop_pc option" where
  "stop_resume StopSending (StopSent res) = Some StopJoining"
| "stop_resume StopJoining (Joined res) = Some StopReturned"
| "stop_resume pc w = None"

datatype timer_event =
    TaskWoke wake
  | StopCalled
  | StopWoke stop_wake
  | CancelCalled
  | TimerDropped
  | TickReceived
  | ReceiverClosed

record FsmTimer =
  tm_task :: timer_pc
  tm_stop :: "stop_pc option"

definition FsmTimer_start :: FsmTimer where
  "FsmTimer_start = \<lparr>tm_task = Skipping, tm_stop = None\<rparr>"

definition FsmTimer_stop :: "FsmTimer \<Rightarrow> FsmTimer option" where
  "FsmTimer_stop t = (if tm_stop t = None then Some (t\<lparr>tm_stop := Some StopSending\<rparr>) else None)"

definition FsmTimer_cancel :: "FsmTimer \<Rightarrow> FsmTimer option" where
  "FsmTimer_cancel t = (if tm_stop t = None then Some t else None)"

fun timer_step :: "FsmTimer \<Rightarrow> timer_event \<Rightarrow> FsmTimer option" where
  "timer_step t (TaskWoke w) = map_option (\<lambda>pc. t\<lparr>tm_task := pc\<rparr>) (timer_resume (tm_task t) w)"
| "timer_step t StopCalled = FsmTimer_stop t"
| "timer_step t (StopWoke w) =
     (case tm_stop t of
        None \<Rightarrow> None
      | Some pc \<Rightarrow> map_option (\<lambda>pc. t\<lparr>tm_stop := Some pc\<rparr>) (stop_resume pc w))"
| "timer_step t CancelCalled = FsmTimer_cancel t"
| "timer_step t TimerDropped = (if tm_stop t = None then Some t else None)"
| "timer_step t TickReceived = Some t"
| "timer_step t ReceiverClosed = Some t"

fun timer_run :: "FsmTimer \<Rightarrow> (nat \<times> timer_event) list \<Rightarrow> FsmTimer option" where
  "timer_run t [] = Some t"
| "timer_run t ((now, e) # tr) = Option.bind (timer_step t e) (\<lambda>t'. timer_run t' tr)"

subsection \<open>What tokio documents\<close>

definition count :: "(timer_event \<Rightarrow> bool) \<Rightarrow> (nat \<times> timer_event) list \<Rightarrow> nat" where
  "count p tr = length (filter (\<lambda>(t, e). p e) tr)"

definition happened :: "(timer_event \<Rightarrow> bool) \<Rightarrow> (nat \<times> timer_event) list \<Rightarrow> bool" where
  "happened p tr \<longleftrightarrow> list_ex (\<lambda>(t, e). p e) tr"

abbreviation ticks_sent :: "(nat \<times> timer_event) list \<Rightarrow> nat" where
  "ticks_sent \<equiv> count (\<lambda>e. e = TaskWoke (TickSent (Inr ())))"

abbreviation ticks_received :: "(nat \<times> timer_event) list \<Rightarrow> nat" where
  "ticks_received \<equiv> count (\<lambda>e. e = TickReceived)"

abbreviation ticks_fired :: "(nat \<times> timer_event) list \<Rightarrow> nat" where
  "ticks_fired \<equiv> count (\<lambda>e. e = TaskWoke Ticked)"

text \<open>A law of each event, given the events before it and its time.\<close>

definition always :: "((nat \<times> timer_event) list \<Rightarrow> nat \<Rightarrow> timer_event \<Rightarrow> bool) \<Rightarrow> (nat \<times> timer_event) list \<Rightarrow> bool" where
  "always law tr \<longleftrightarrow> list_all (\<lambda>i. law (take i tr) (fst (tr ! i)) (snd (tr ! i))) [0..<length tr]"

text \<open>
  \<open>interval\<close>: the first \<open>tick\<close> completes at once and the tick after \<open>k\<close> others not before
  \<open>k\<close> periods after the start; it may be late.
\<close>

definition tokio_interval :: "nat \<Rightarrow> nat \<Rightarrow> (nat \<times> timer_event) list \<Rightarrow> bool" where
  "tokio_interval t0 period =
     always (\<lambda>past now e. e = TaskWoke Ticked \<longrightarrow> t0 + ticks_fired past * period \<le> now)"

text \<open>
  The bounded channel: a send completes only while there is room, and fails only once the receiver
  is closed.
\<close>

definition tokio_send :: "nat \<Rightarrow> (nat \<times> timer_event) list \<Rightarrow> bool" where
  "tokio_send capacity =
     always (\<lambda>past now e.
       (e = TaskWoke (TickSent (Inr ())) \<longrightarrow> ticks_sent past < ticks_received past + capacity) \<and>
       (e = TaskWoke (TickSent (Inl ())) \<longrightarrow> happened (\<lambda>e. e = ReceiverClosed) past))"

text \<open>
  The cancel channel: a message is received only if one was sent, by \<open>stop\<close> or \<open>cancel\<close>; the end of
  the channel only once the timer and with it the sender is dropped.
\<close>

definition tokio_cancel :: "(nat \<times> timer_event) list \<Rightarrow> bool" where
  "tokio_cancel =
     always (\<lambda>past now e. e = TaskWoke (CancelReceived None) \<or> e = TaskWoke (CancelReceived (Some ())) \<longrightarrow>
       happened (\<lambda>e. e \<in> {StopCalled, CancelCalled, TimerDropped}) past)"

text \<open>The join handle answers once the task has ended.\<close>

definition tokio_join :: "FsmTimer \<Rightarrow> (nat \<times> timer_event) list \<Rightarrow> bool" where
  "tokio_join t =
     always (\<lambda>past now e. (\<exists>res\<in>{Inl (), Inr ()}. e = StopWoke (Joined res)) \<longrightarrow>
       map_option tm_task (timer_run t past) = Some Ended)"

subsection \<open>Runs\<close>

lemma count_simps [simp]:
  "count p [] = 0" "count p (x # tr) = (if p (snd x) then 1 else 0) + count p tr"
  "count p (xs @ ys) = count p xs + count p ys"
  by (auto simp: count_def split: prod.split)

lemma happened_simps [simp]:
  "happened p [] = False" "happened p (x # tr) \<longleftrightarrow> p (snd x) \<or> happened p tr"
  "happened p (xs @ ys) \<longleftrightarrow> happened p xs \<or> happened p ys"
  by (auto simp: happened_def split: prod.split)

lemma always_snoc: "always law (tr @ [(now, e)]) \<longleftrightarrow> always law tr \<and> law tr now e"
  by (auto simp: always_def list_all_iff nth_append)

lemma always_simps [simp]: "always law []"
  by (simp add: always_def)

lemma timer_run_append:
  "timer_run t (xs @ ys) = Option.bind (timer_run t xs) (\<lambda>t'. timer_run t' ys)"
  by (induction t xs rule: timer_run.induct) (auto split: Option.bind_split)

text \<open>The task sends at most one tick for each tick of its interval, and none for the first.\<close>

definition owed :: "timer_pc \<Rightarrow> nat" where
  "owed pc = (case pc of Skipping \<Rightarrow> 1 | Selecting \<Rightarrow> 0 | Sending \<Rightarrow> 1 | Ended \<Rightarrow> 0)"

lemma timer_resume_cases:
  assumes "timer_resume pc w = Some pc'"
  obtains "pc = Skipping" "w = Ticked" "pc' = Selecting" | "pc = Selecting" "w = Ticked" "pc' = Sending"
    | msg where "pc = Selecting" "w = CancelReceived msg" "pc' = Ended"
    | "pc = Sending" "w = TickSent (Inl ())" "pc' = Ended" | "pc = Sending" "w = TickSent (Inr ())" "pc' = Selecting"
  using assms by (cases "(pc, w)" rule: timer_resume.cases) auto

lemma timer_step_task:
  assumes "timer_step t e = Some t'"
  obtains w where "e = TaskWoke w" "timer_resume (tm_task t) w = Some (tm_task t')" "tm_stop t' = tm_stop t"
    | "\<And>w. e \<noteq> TaskWoke w" "tm_task t' = tm_task t"
  using assms
  by (cases e) (auto simp: FsmTimer_stop_def FsmTimer_cancel_def split: if_splits option.splits)

lemma timer_run_Cons:
  assumes "timer_run t ((now, e) # tr) = Some t'"
  obtains t1 where "timer_step t e = Some t1" "timer_run t1 tr = Some t'"
  using assms by (auto simp: Option.bind_eq_Some_conv)

lemma timer_run_snoc:
  assumes "timer_run t (tr @ [(now, e)]) = Some t'"
  obtains t1 where "timer_run t tr = Some t1" "timer_step t1 e = Some t'"
  using assms by (auto simp: timer_run_append bind_eq_Some_conv)

lemma sent_fired:
  "timer_run FsmTimer_start tr = Some t \<Longrightarrow>
     (tm_task t = Skipping \<longrightarrow> ticks_sent tr = 0 \<and> ticks_fired tr = 0) \<and>
     (tm_task t = Selecting \<longrightarrow> ticks_fired tr = Suc (ticks_sent tr)) \<and>
     (tm_task t = Sending \<longrightarrow> ticks_fired tr = Suc (Suc (ticks_sent tr))) \<and>
     (tm_task t = Ended \<longrightarrow> ticks_sent tr < ticks_fired tr)"
proof (induction tr arbitrary: t rule: rev_induct)
  case Nil
  then show ?case by (auto simp: FsmTimer_start_def)
next
  case (snoc x tr)
  obtain now e where x: "x = (now, e)" by fastforce
  from snoc.prems obtain t1 where t1: "timer_run FsmTimer_start tr = Some t1" "timer_step t1 e = Some t"
    unfolding x by (rule timer_run_snoc)
  show ?case
    by (rule timer_step_task [OF t1(2)]) (use snoc.IH [OF t1(1)] in \<open>auto simp: x elim!: timer_resume_cases\<close>)
qed

text \<open>An ended task does nothing more.\<close>

lemma ended_stays:
  assumes "timer_run t tr = Some t'" "tm_task t = Ended"
  shows "tm_task t' = Ended \<and> (\<forall>w. \<not> happened (\<lambda>e. e = TaskWoke w) tr)"
  using assms
proof (induction t tr rule: timer_run.induct)
  case (2 t now e tr)
  from "2.prems"(1) obtain t1 where t1: "timer_step t e = Some t1" "timer_run t1 tr = Some t'"
    by (rule timer_run_Cons)
  from t1(1) "2.prems"(2) have "tm_task t1 = Ended" "\<And>w. e \<noteq> TaskWoke w"
    by (auto elim!: timer_step_task elim: timer_resume_cases)
  with "2.IH" [OF t1] show ?case by simp
qed simp

lemma not_happened_count: "\<not> happened p tr \<Longrightarrow> count p tr = 0"
  by (induction tr) auto

lemma count_nth:
  "k < count p tr \<Longrightarrow> \<exists>i<length tr. p (snd (tr ! i)) \<and> count p (take i tr) = k"
proof (induction tr rule: rev_induct)
  case (snoc x tr)
  show ?case
  proof (cases "k < count p tr")
    case True
    with snoc.IH obtain i where "i < length tr" "p (snd (tr ! i))" "count p (take i tr) = k" by blast
    then show ?thesis by (intro exI [of _ i]) (simp add: nth_append)
  next
    case False
    with snoc.prems have "p (snd x)" "count p tr = k" by (auto split: if_splits)
    then show ?thesis by (intro exI [of _ "length tr"]) simp
  qed
qed simp

lemma timer_ticks_late:
  assumes run: "timer_run FsmTimer_start tr = Some t" and iv: "tokio_interval t0 period tr"
    and now: "\<forall>x\<in>set tr. fst x \<le> now" "t0 \<le> now"
  shows "t0 + ticks_sent tr * period \<le> now"
proof (cases "ticks_sent tr = 0")
  case True
  with now(2) show ?thesis by simp
next
  case False
  have "ticks_sent tr < ticks_fired tr"
    using sent_fired [OF run] False by (cases "tm_task t") auto
  from count_nth [OF this] obtain i where
    i: "i < length tr" "snd (tr ! i) = TaskWoke Ticked" "ticks_fired (take i tr) = ticks_sent tr" by auto
  from iv i have "t0 + ticks_sent tr * period \<le> fst (tr ! i)"
    by (auto simp: tokio_interval_def always_def list_all_iff)
  also have "\<dots> \<le> now" using now(1) i(1) by simp
  finally show ?thesis .
qed

text \<open>Once \<open>stop\<close> has returned the task has ended.\<close>

lemma stop_returned_ended:
  assumes "timer_run FsmTimer_start tr = Some t" "tokio_join FsmTimer_start tr" "tm_stop t = Some StopReturned"
  shows "tm_task t = Ended"
  using assms
proof (induction tr arbitrary: t rule: rev_induct)
  case Nil
  then show ?case by (auto simp: FsmTimer_start_def)
next
  case (snoc x tr)
  obtain now e where x: "x = (now, e)" by fastforce
  from snoc.prems(1) obtain t1 where t1: "timer_run FsmTimer_start tr = Some t1" "timer_step t1 e = Some t"
    unfolding x by (rule timer_run_snoc)
  have law: "tokio_join FsmTimer_start tr"
    "\<And>res. e = StopWoke (Joined res) \<Longrightarrow> map_option tm_task (timer_run FsmTimer_start tr) = Some Ended"
    using snoc.prems(2) by (auto simp: tokio_join_def x always_snoc) (metis old.unit.exhaust sum.exhaust)+
  show ?case
  proof (cases "tm_stop t1 = Some StopReturned")
    case True
    with snoc.IH [OF t1(1) law(1)] t1(2) show ?thesis
      by (auto elim!: timer_step_task elim: timer_resume_cases)
  next
    case False
    with t1(2) snoc.prems(3) obtain res where "e = StopWoke (Joined res)" "tm_task t = tm_task t1"
      by (cases "(t1, e)" rule: timer_step.cases)
        (auto simp: FsmTimer_stop_def FsmTimer_cancel_def split: if_splits option.splits elim!: stop_resume.elims)
    with law(2) t1(1) show ?thesis by simp
  qed
qed

text \<open>While nobody cancels it and the receiver is open, the task goes on.\<close>

lemma timer_goes_on:
  assumes "timer_run FsmTimer_start tr = Some t" "tokio_cancel tr" "tokio_send capacity tr"
    and "\<not> happened (\<lambda>e. e \<in> {StopCalled, CancelCalled, TimerDropped, ReceiverClosed}) tr"
  shows "tm_task t \<noteq> Ended"
  using assms
proof (induction tr arbitrary: t rule: rev_induct)
  case Nil
  then show ?case by (auto simp: FsmTimer_start_def)
next
  case (snoc x tr)
  obtain now e where x: "x = (now, e)" by fastforce
  from snoc.prems(1) obtain t1 where t1: "timer_run FsmTimer_start tr = Some t1" "timer_step t1 e = Some t"
    unfolding x by (rule timer_run_snoc)
  have laws: "tokio_cancel tr" "tokio_send capacity tr"
    using snoc.prems(2,3) by (simp_all add: tokio_cancel_def tokio_send_def x always_snoc)
  have quiet: "\<not> happened (\<lambda>e. e \<in> {StopCalled, CancelCalled, TimerDropped, ReceiverClosed}) tr"
    using snoc.prems(4) by simp
  from snoc.IH [OF t1(1) laws this] have nt: "tm_task t1 \<noteq> Ended" .
  have "\<not> happened (\<lambda>e. e \<in> {StopCalled, CancelCalled, TimerDropped}) tr" "\<not> happened (\<lambda>e. e = ReceiverClosed) tr"
    using quiet by (auto simp: happened_def list_ex_iff)
  with snoc.prems(2,3) have "e \<noteq> TaskWoke (CancelReceived None)" "e \<noteq> TaskWoke (CancelReceived (Some ()))"
    and sent: "e \<noteq> TaskWoke (TickSent (Inl ()))"
    by (auto simp: tokio_cancel_def tokio_send_def x always_snoc)
  then have ne: "e \<noteq> TaskWoke (CancelReceived msg)" for msg
    by (cases msg) simp_all
  show ?case
    by (rule timer_step_task [OF t1(2)]) (use nt ne sent in \<open>auto elim!: timer_resume_cases\<close>)
qed

text \<open>
  A task that waits to send into a full channel is not listening to its cancel channel: as long as
  nobody takes a tick, it neither sends nor ends.
\<close>

lemma timer_blocked:
  assumes "timer_run FsmTimer_start (tr1 @ tr2) = Some t" "tokio_send capacity (tr1 @ tr2)"
    and "timer_run FsmTimer_start tr1 = Some t1" "tm_task t1 = Sending" "ticks_sent tr1 = ticks_received tr1 + capacity"
    and "\<not> happened (\<lambda>e. e = ReceiverClosed) (tr1 @ tr2)" "\<not> happened (\<lambda>e. e = TickReceived) tr2"
  shows "tm_task t = Sending \<and> ticks_sent tr2 = 0"
  using assms
proof (induction tr2 arbitrary: t rule: rev_induct)
  case Nil
  then show ?case by simp
next
  case (snoc x tr2)
  let ?tr = "tr1 @ tr2"
  obtain now e where x: "x = (now, e)" by fastforce
  have "timer_run FsmTimer_start (?tr @ [(now, e)]) = Some t" using snoc.prems(1) x by simp
  then obtain t2 where t2: "timer_run FsmTimer_start ?tr = Some t2" "timer_step t2 e = Some t"
    by (rule timer_run_snoc)
  have "tokio_send capacity (?tr @ [(now, e)])" using snoc.prems(2) x by simp
  then have law: "tokio_send capacity ?tr"
    "e = TaskWoke (TickSent (Inr ())) \<longrightarrow> ticks_sent ?tr < ticks_received ?tr + capacity"
    "e = TaskWoke (TickSent (Inl ())) \<longrightarrow> happened (\<lambda>e. e = ReceiverClosed) ?tr"
    unfolding tokio_send_def always_snoc by simp_all
  from snoc.IH [OF t2(1) law(1) snoc.prems(3-5)] snoc.prems(6,7) have ih: "tm_task t2 = Sending" "ticks_sent tr2 = 0"
    by simp_all
  have "ticks_received tr2 = 0" using snoc.prems(7) by (simp add: not_happened_count)
  with law ih snoc.prems(5,6) have ne: "e \<noteq> TaskWoke (TickSent (Inr ()))" "e \<noteq> TaskWoke (TickSent (Inl ()))"
    by auto
  show ?case
    by (rule timer_step_task [OF t2(2)]) (use ih ne in \<open>auto simp: x elim!: timer_resume_cases\<close>)
qed

end
