(* ===== verification/Props_Timer.thy ===== *)
theory Props_Timer
  imports Fsm_Timer
begin

section \<open>Properties of the recurring timer\<close>

text \<open>
  What \<open>FsmTimer\<close> promises of its ticks and of its end, on every run that keeps what \<open>tokio\<close>
  documents. The witnesses are two short runs with a period of 50.
\<close>

subsection \<open>Concrete runs\<close>

definition tick_run :: "(nat \<times> timer_event) list" where
  "tick_run = [(0, TaskWoke Ticked), (50, TaskWoke Ticked), (51, TaskWoke (TickSent (Inr ())))]"

text \<open>A task that has sent one tick nobody took into a channel of one, and waits to send the next.\<close>

definition full_run :: "(nat \<times> timer_event) list" where
  "full_run = tick_run @ [(100, TaskWoke Ticked)]"

definition stop_run :: "(nat \<times> timer_event) list" where
  "stop_run = [(101, StopCalled), (102, StopWoke (StopSent (Inr ())))]"

definition stopped_run :: "(nat \<times> timer_event) list" where
  "stopped_run = tick_run @ stop_run @
     [(103, TaskWoke (CancelReceived (Some ()))), (104, StopWoke (Joined (Inr ())))]"

lemmas run_defs = tick_run_def full_run_def stop_run_def stopped_run_def FsmTimer_start_def FsmTimer_stop_def

subsection \<open>Ticks\<close>

text \<open>
  C34: the timer is never early: at any time the number of ticks it has sent is at most the number
  of whole periods since its start; the first tick is sent after a full period, not at once.
\<close>

theorem timer_never_early:
  assumes "timer_run FsmTimer_start tr = Some t" "tokio_interval t0 period tr"
    and "\<forall>x\<in>set tr. fst x \<le> now" "t0 \<le> now"
  shows "t0 + ticks_sent tr * period \<le> now"
  using timer_ticks_late [OF assms] .

theorem timer_never_early_witness: "0 + ticks_sent tick_run * 50 \<le> 60"
proof (rule timer_never_early)
  show "timer_run FsmTimer_start tick_run = Some \<lparr>tm_task = Selecting, tm_stop = None\<rparr>" by (simp add: run_defs)
  show "tokio_interval 0 50 tick_run" by (simp add: tokio_interval_def always_def run_defs numeral_nat)
qed (simp_all add: run_defs)

subsection \<open>The end of the task\<close>

text \<open>
  C35: once \<open>stop\<close> has returned the task has ended and no tick is ever sent again; and the task does
  not end by itself: unless \<open>stop\<close> or \<open>cancel\<close> is called, the timer is dropped or the receiver of
  the ticks is closed, it goes on.
\<close>

theorem timer_ends:
  assumes "timer_run FsmTimer_start (tr1 @ tr2) = Some t" "timer_run FsmTimer_start tr1 = Some t1"
    and "tokio_join FsmTimer_start tr1" "tokio_cancel tr1" "tokio_send capacity tr1"
  shows "(tm_stop t1 = Some StopReturned \<longrightarrow> tm_task t = Ended \<and> ticks_sent tr2 = 0) \<and>
    (\<not> happened (\<lambda>e. e \<in> {StopCalled, CancelCalled, TimerDropped, ReceiverClosed}) tr1 \<longrightarrow> tm_task t1 \<noteq> Ended)"
proof -
  have "tm_task t = Ended \<and> ticks_sent tr2 = 0" if "tm_stop t1 = Some StopReturned"
  proof -
    have e: "tm_task t1 = Ended" by (rule stop_returned_ended [OF assms(2,3) that])
    have "timer_run t1 tr2 = Some t" using assms(1,2) by (simp add: timer_run_append)
    from ended_stays [OF this e] show ?thesis by (simp add: not_happened_count)
  qed
  with timer_goes_on [OF assms(2,4,5)] show ?thesis by blast
qed

lemma stopped_run_end:
  "timer_run FsmTimer_start stopped_run = Some \<lparr>tm_task = Ended, tm_stop = Some StopReturned\<rparr>"
  by (simp add: run_defs)

lemma stopped_run_laws:
  "tokio_cancel stopped_run" "tokio_send 1 stopped_run" "tokio_join FsmTimer_start stopped_run"
  by (simp_all add: tokio_cancel_def tokio_send_def tokio_join_def always_def run_defs numeral_nat)

theorem timer_ends_witness: "tm_task \<lparr>tm_task = Ended, tm_stop = Some StopReturned\<rparr> = Ended"
  using timer_ends [of stopped_run "[]", OF _ stopped_run_end stopped_run_laws(3,1,2)] stopped_run_end by simp

text \<open>
  C36: \<open>stop\<close> may never return. A task that waits to send a tick into a full channel does not listen
  for the cancel message: as long as nobody takes a tick and the receiver is open, it neither sends
  nor ends, and \<open>stop\<close>, whenever it was called, does not return. (The same task that owns the
  receiver must therefore not wait for \<open>stop\<close>.)
\<close>

theorem timer_stop_blocked:
  assumes "timer_run FsmTimer_start (tr1 @ tr2) = Some t"
    and "tokio_send capacity (tr1 @ tr2)" "tokio_join FsmTimer_start (tr1 @ tr2)"
    and "timer_run FsmTimer_start tr1 = Some t1" "tm_task t1 = Sending" "ticks_sent tr1 = ticks_received tr1 + capacity"
    and "\<not> happened (\<lambda>e. e = ReceiverClosed) (tr1 @ tr2)" "\<not> happened (\<lambda>e. e = TickReceived) tr2"
  shows "tm_task t = Sending \<and> ticks_sent tr2 = 0 \<and> tm_stop t \<noteq> Some StopReturned"
  using timer_blocked [OF assms(1,2,4-8)] stop_returned_ended [OF assms(1,3)] by auto

theorem timer_stop_blocked_witness:
  "timer_run FsmTimer_start (full_run @ stop_run) = Some \<lparr>tm_task = Sending, tm_stop = Some StopJoining\<rparr> \<and>
   ticks_sent stop_run = 0"
proof -
  have run: "timer_run FsmTimer_start (full_run @ stop_run) = Some \<lparr>tm_task = Sending, tm_stop = Some StopJoining\<rparr>"
    "timer_run FsmTimer_start full_run = Some \<lparr>tm_task = Sending, tm_stop = None\<rparr>"
    by (simp_all add: run_defs)
  have laws: "tokio_send 1 (full_run @ stop_run)" "tokio_join FsmTimer_start (full_run @ stop_run)"
    by (simp_all add: tokio_send_def tokio_join_def always_def run_defs numeral_nat)
  have "ticks_sent full_run = ticks_received full_run + 1" by (simp add: run_defs)
  with timer_stop_blocked [OF run(1) laws run(2)] run(1) show ?thesis by (simp add: run_defs)
qed

end
