(* ===== verification/Fsm_Data.thy ===== *)
theory Fsm_Data
  imports Fsm_Life
begin

section \<open>Data invariants of a machine with auto-termination\<close>

text \<open>
  What a user's machine keeps true of its struct, its state and the outside world. With
  \<open>auto_terminate\<close> an actor that enters a final state asks to stop, and no later message reaches
  it: its callbacks never run in a final state. So it is enough that one \<open>transit\<close> from a state
  that is not final, one \<open>on_timer\<close> there and \<open>on_terminate\<close> keep the invariant; then a whole
  life of the actor keeps it. The locale is the interface between the machine and the actor, and
  is interpreted for each example of the repository.
\<close>

definition final_stops :: "('f, 'w, 's, 'e, 'p) FsmActor \<Rightarrow> ('m, 'w) env \<Rightarrow> bool" where
  "final_stops a en \<longleftrightarrow>
     (is_final (fa_graph a) (current (fa_state a)) \<longrightarrow> fa_auto_terminate a \<longrightarrow> stop_requested en)"

lemma turn_final:
  assumes t: "turn F D a ev ep en = (r, a', en')" and auto: "fa_auto_terminate a"
    and nf: "\<not> is_final (fa_graph a) (current (fa_state a))"
  shows "is_final (fa_graph a) (current (fa_state a')) \<longleftrightarrow> r = Inr AutoTerminate"
  using turn_result(2) [OF t] auto nf
  by (auto elim!: fsm_step.cases simp: outcome_def split: if_splits)

lemma do_transition_final_stops:
  assumes run: "do_transition F D a ev ep en = Some (b, en2)"
    and nf: "\<not> is_final (fa_graph a) (current (fa_state a))"
  shows "final_stops b en2"
proof (cases "fa_auto_terminate a")
  case True
  with run nf show ?thesis
  proof (induction rule: do_transition_induct)
    case (Last a ev ep en r a' en')
    from turn_result(1) [OF Last.hyps(1)] turn_final [OF Last.hyps(1) Last.prems(2,1)] show ?case
      by (auto simp: final_stops_def same_config_def chain_end_def stop_requested_def)
  next
    case (Chain a ev ep en a' en' evt b en2)
    from turn_final [OF Chain.hyps(1) Chain.prems(2,1)] turn_result(1) [OF Chain.hyps(1)] Chain.prems
    show ?case by (intro Chain.IH) (simp_all add: same_config_def)
  qed
next
  case False
  with do_transition_run(1) [OF run] show ?thesis by (simp add: final_stops_def same_config_def)
qed

locale data_invariant =
  fixes F :: "('f, 'w, 's, 'e, 'p) Finitomata" and g :: "('s, 'e) TransitionGraph"
    and P :: "('w, 's, 'p) Persistency option" and L :: "('w, 's, 'e) Listener option"
    and I :: "'f \<Rightarrow> ('s, 'p) FsmState \<Rightarrow> 'w \<Rightarrow> bool"
  assumes transit_keeps:
      "transit F fsm g st ev ep \<lparr>tc_persistency = P, tc_listener = L, tc_auto_terminate = True\<rparr> w = (r, fsm', st', w') \<Longrightarrow>
       \<not> is_final g (current st) \<Longrightarrow> I fsm st w \<Longrightarrow> I fsm' st' w'"
    and timer_keeps: "on_timer F (current st) (fsm, payload st, w) = (res, fsm', p', w') \<Longrightarrow>
       \<not> is_final g (current st) \<Longrightarrow> I fsm st w \<Longrightarrow> I fsm' (st\<lparr>payload := p'\<rparr>) w'"
    and terminate_keeps: "on_terminate F (fsm, payload st, w) = (fsm', p', w') \<Longrightarrow>
       I fsm st w \<Longrightarrow> I fsm' (st\<lparr>payload := p'\<rparr>) w'"
    and lifecycle_irrelevant: "I fsm (st\<lparr>lifecycle := l\<rparr>) w \<longleftrightarrow> I fsm st w"
begin

definition configured :: "('f, 'w, 's, 'e, 'p) FsmActor \<Rightarrow> bool" where
  "configured a \<longleftrightarrow> fa_graph a = g \<and> fa_persistency a = P \<and> fa_listener a = L \<and> fa_auto_terminate a"

definition holds :: "('f, 'w, 's, 'e, 'p) FsmActor \<Rightarrow> ('m, 'w) env \<Rightarrow> bool" where
  "holds a en \<longleftrightarrow> configured a \<and> I (fa_fsm a) (fa_state a) (en_world en)"

lemma configured_same: "same_config a b \<Longrightarrow> configured a \<Longrightarrow> configured b"
  by (simp add: configured_def same_config_def)

lemma holds_env [simp]:
  "holds a (env_request q en) = holds a en" "holds a (env_cache_update D st en) = holds a en"
  "holds (set_lifecycle l a) en = holds a en"
  by (simp_all add: holds_def configured_def set_lifecycle_def lifecycle_irrelevant)

lemma turn_keeps:
  assumes t: "turn F D a ev ep en = (r, a', en')" and nf: "\<not> is_final g (current (fa_state a))"
    and h: "holds a en"
  shows "holds a' en'"
proof -
  obtain fsm st w where
    tr: "transit F (fa_fsm a) (fa_graph a) (fa_state a) ev ep (actor_ctx a) (en_world en) = (r, fsm, st, w)"
    and a': "a' = a\<lparr>fa_fsm := fsm, fa_state := st\<rparr>" "en' = env_cache_update D st (en\<lparr>en_world := w\<rparr>)"
    using t by (auto simp: turn_def split: prod.splits)
  have "I fsm st w"
    using transit_keeps [of "fa_fsm a" "fa_state a" ev ep "en_world en"] tr nf h
    by (simp add: holds_def configured_def actor_ctx_def)
  with a' h show ?thesis by (simp add: holds_def configured_def)
qed

lemma do_transition_keeps:
  assumes "do_transition F D a ev ep en = Some (b, en2)" "\<not> is_final g (current (fa_state a))" "holds a en"
  shows "holds b en2"
  using assms
proof (induction rule: do_transition_induct)
  case (Last a ev ep en r a' en')
  from turn_keeps [OF this(1,3,4)] show ?case by (simp add: chain_end_def)
next
  case (Chain a ev ep en a' en' evt b en2)
  have "\<not> is_final g (current (fa_state a'))"
    using turn_final [OF Chain.hyps(1)] Chain.prems by (simp add: holds_def configured_def)
  with turn_keeps [OF Chain.hyps(1) Chain.prems] show ?case by (intro Chain.IH)
qed

lemma terminate_hook_keeps:
  assumes h: "actor_hook (on_terminate F) a en = (a', en')" and inv: "holds a en"
  shows "holds a' en'"
  using assms terminate_keeps [of "fa_fsm a" "fa_state a" "en_world en"]
  by (auto simp: actor_hook_def run_hook_def holds_def configured_def split: prod.splits)

lemma handle_message_keeps:
  assumes run: "handle_message F D pid msg a en = Some (a', en')" and inv: "holds a en"
    and fs: "final_stops a en" "\<not> stop_requested en"
  shows "holds a' en' \<and> final_stops a' en'"
proof -
  have nf: "\<not> is_final g (current (fa_state a))" and cfg: "fa_graph a = g" "fa_auto_terminate a"
    using inv fs by (auto simp: final_stops_def holds_def configured_def)
  show ?thesis
  proof (cases msg)
    case (TransitionMsg ev ep)
    with run have "do_transition F D a ev ep en = Some (a', en')" by (simp add: handle_message_def)
    from do_transition_keeps [OF this nf inv] do_transition_final_stops [OF this] nf cfg show ?thesis by simp
  next
    case TimerTickMsg
    with run obtain en1 where tick: "handle_timer_tick F D a en = Some (a', en1)"
      and en': "en' = (case fa_timer_interval a' of
         Some i \<Rightarrow> if lifecycle (fa_state a') = Running then env_request (ReqSendTick pid i) en1 else en1
       | None \<Rightarrow> en1)"
      by (auto elim: tick_result)
    obtain res f p w where
      ti: "on_timer F (current (fa_state a)) (fa_fsm a, payload (fa_state a), en_world en) = (res, f, p, w)"
      using prod_cases4 by blast
    let ?a = "a\<lparr>fa_fsm := f, fa_state := (fa_state a)\<lparr>payload := p\<rparr>\<rparr>" and ?en = "en\<lparr>en_world := w\<rparr>"
    have ok: "holds ?a ?en"
      using timer_keeps [OF ti nf] inv by (simp add: holds_def configured_def)
    have "holds a' en1 \<and> final_stops a' en1"
    proof (cases res)
      case None
      with tick ti ok nf cfg show ?thesis
        by (auto simp: handle_timer_tick_def final_stops_def)
    next
      case (Some ee)
      with tick ti have d: "do_transition F D ?a (fst ee) (snd ee) ?en = Some (a', en1)"
        by (auto simp: handle_timer_tick_def split: prod.splits)
      from do_transition_keeps [OF d _ ok] do_transition_final_stops [OF d] nf cfg show ?thesis by simp
    qed
    with en' show ?thesis
      by (auto simp: final_stops_def stop_requested_def split: option.splits)
  next
    case ShutdownMsg
    obtain a1 en1 where h: "actor_hook (on_terminate F) (set_lifecycle Terminating a) en = (a1, en1)" by fastforce
    with terminate_hook_keeps [OF this] inv run ShutdownMsg show ?thesis
      by (auto simp: handle_message_def final_stops_def stop_requested_def)
  next
    case OtherMsg
    with run inv fs show ?thesis by (simp add: handle_message_def)
  qed
qed

lemma started_keeps:
  assumes run: "started F D pid a en = Some (a', en')" and inv: "holds a en"
    and plain: "\<not> fa_recover_on_start a" and nf: "\<not> is_final g (current (fa_state a))"
  shows "holds a' en' \<and> final_stops a' en'"
proof -
  let ?en = "case fa_timer_interval a of None \<Rightarrow> en | Some interval \<Rightarrow> env_request (ReqSendTick pid interval) en"
  have inv': "holds a ?en" using inv by (simp split: option.split)
  have cfg: "fa_graph a = g" using inv by (simp add: holds_def configured_def)
  show ?thesis
  proof (cases "hard_event (fa_graph a) (current (fa_state a))")
    case None
    with run plain have "a' = a" "en' = ?en" by (auto simp: started_def started_recover_def)
    with inv' nf cfg show ?thesis by (simp add: final_stops_def)
  next
    case (Some evt)
    with run plain have "do_transition F D a evt (payload (fa_state a)) ?en = Some (a', en')"
      by (simp add: started_def started_recover_def)
    from do_transition_keeps [OF this nf inv'] do_transition_final_stops [OF this] nf cfg show ?thesis by simp
  qed
qed

lemma stopped_keeps:
  assumes run: "stopped F D a en = (a', en')" and inv: "holds a en"
  shows "holds a' en'"
proof -
  obtain a1 en1 where h: "actor_hook (on_terminate F) (set_lifecycle Terminated a) en = (a1, en1)" by fastforce
  from terminate_hook_keeps [OF this] run h inv show ?thesis
    by (auto simp: stopped_def split: if_splits)
qed

lemma life_keeps:
  assumes "life F D pid a0 en0 d a en" "holds a0 en0" "\<not> fa_recover_on_start a0"
    and "\<not> is_final g (current (fa_state a0))"
  shows "holds a en \<and> (\<not> d \<longrightarrow> final_stops a en)"
  using assms
proof induction
  case (spawned a en)
  with started_keeps show ?case by blast
next
  case (message a en msg a' en')
  with handle_message_keeps show ?case by blast
next
  case (finished a en a' en')
  with stopped_keeps show ?case by blast
qed

end

text \<open>With auto-termination an actor never handles a message in a final state.\<close>

lemma life_final_stops:
  assumes "life F D pid a0 en0 d a en" "\<not> fa_recover_on_start a0" "fa_auto_terminate a0"
    and "\<not> is_final (fa_graph a0) (current (fa_state a0))" "\<not> d"
  shows "final_stops a en"
proof -
  have triv: "data_invariant F (fa_graph a0) (fa_persistency a0) (fa_listener a0) (\<lambda>_ _ _. True)"
    by unfold_locales simp_all
  from data_invariant.life_keeps [OF triv assms(1)] assms(2-5) show ?thesis
    by (simp add: data_invariant.holds_def [OF triv] data_invariant.configured_def [OF triv])
qed

subsection \<open>A script of messages\<close>

text \<open>
  The \<open>main\<close> of an example sends its messages one at a time and sleeps until each is handled; a
  message after a stop request is not handled any more.
\<close>

fun deliver :: "('f, 'w, 's, 'e, 'p) Finitomata \<Rightarrow> ('m, 's, 'p) cache_map \<Rightarrow> Pid \<Rightarrow> ('e, 'p) Message list \<Rightarrow>
    ('f, 'w, 's, 'e, 'p) FsmActor \<Rightarrow> ('m, 'w) env \<Rightarrow> (('f, 'w, 's, 'e, 'p) FsmActor \<times> ('m, 'w) env) option" where
  "deliver F D pid [] a en = Some (a, en)"
| "deliver F D pid (msg # msgs) a en =
     (if stop_requested en then Some (a, en)
      else (case handle_message F D pid msg a en of
              None \<Rightarrow> None
            | Some (a', en') \<Rightarrow> deliver F D pid msgs a' en'))"

lemma deliver_append:
  "deliver F D pid (xs @ ys) a en = Option.bind (deliver F D pid xs a en) (\<lambda>(a, en). deliver F D pid ys a en)"
proof (induction xs arbitrary: a en)
  case (Cons x xs)
  have "deliver F D pid ys a en = Some (a, en)" if "stop_requested en"
    using that by (cases ys) simp_all
  with Cons.IH show ?case by (auto split: option.split prod.split)
qed simp

lemma deliver_life:
  assumes "life F D pid a0 en0 False a en" "deliver F D pid msgs a en = Some (a', en')"
  shows "life F D pid a0 en0 False a' en'"
  using assms
proof (induction msgs arbitrary: a en)
  case (Cons msg msgs)
  show ?case
  proof (cases "stop_requested en")
    case True
    with Cons.prems show ?thesis by simp
  next
    case False
    with Cons.prems(2) obtain b en1 where
      "handle_message F D pid msg a en = Some (b, en1)" "deliver F D pid msgs b en1 = Some (a', en')"
      by (auto split: option.splits)
    with Cons.IH life.message [OF Cons.prems(1) False] show ?thesis by blast
  qed
qed simp

lemma script_life:
  "started F D pid a0 en0 = Some (a, en) \<Longrightarrow> deliver F D pid msgs a en = Some (a', en') \<Longrightarrow>
     life F D pid a0 en0 False a' en'"
  by (rule deliver_life [OF life.spawned])

lemmas run_transit = transit_def transit_target_def transit_commit_def run_hook_def Let_def
  clear_error_def transition_to_def is_final_def

lemma transit_unanswered:
  assumes "transit F fsm g st ev ep ctx w = (r, fsm', st', w')" "allowed g (current st) ev = None"
  shows "fsm' = fsm" "st' = st" "w' = w"
  using assms by (auto simp: transit_def split: if_splits)

end
