(* ===== verification/Ex_Turnstile.thy ===== *)
theory Ex_Turnstile
  imports Fsm_Entry Fsm_Data Fsm_System
begin

section \<open>Example: the turnstile (finitomata/examples/turnstile.rs)\<close>

text \<open>
  The machine of the example from its attribute to its actor. \<open>println!\<close> appends to the output,
  which is the outside world here: each call is a constructor with the values it formats. The two
  counters of the struct and of the payload are \<open>u32\<close>; their additions wrap, as in a release build.
\<close>

subsection \<open>What the examples share\<close>

text \<open>A raw string literal of an attribute: each line on its own, indented by eight blanks.\<close>

definition raw_fsm :: "string list \<Rightarrow> string" where
  "raw_fsm ls = concat (map (\<lambda>l. newline # replicate 8 (CHR '' '') @ l) ls) @ newline # replicate 4 (CHR '' '')"

text \<open>
  The generated enums are datatypes. The graph that the generated \<open>build_graph\<close> returns is over
  the names of the variants; \<open>rename_graph\<close> is the graph over the names for one over the enums.
\<close>

definition rename_graph :: "('s \<Rightarrow> string) \<Rightarrow> ('e \<Rightarrow> string) \<Rightarrow> ('s, 'e) TransitionGraph \<Rightarrow>
    (string, string) TransitionGraph" where
  "rename_graph f h g =
     TransitionGraph_new (f (initial g)) (f |`| finals g)
       (map (\<lambda>t. \<lparr>t_from = f (t_from t), t_to = map f (t_to t), t_event = h (t_event t), t_kind = t_kind t\<rparr>)
         (transitions g))"

subsection \<open>The attribute and what it generates\<close>

definition turnstile_attrs :: "'i Meta list" where
  "turnstile_attrs =
     [Meta_NameValue (Some ''fsm'') (Expr_Lit (Lit_Str (raw_fsm
        [''[*] --> locked'',
         ''locked --> |coin| unlocked'',
         ''unlocked --> |push| locked'',
         ''unlocked --> |coin| unlocked'',
         ''locked --> |off| off'',
         ''off --> |reset| [*]'']))),
      Meta_NameValue (Some ''syntax'') (Expr_Lit (Lit_Str ''mermaid'')),
      Meta_NameValue (Some ''auto_terminate'') (Expr_Lit (Lit_Bool True))]"

datatype TurnstileState = Ts_Locked | Ts_Off | Ts_Unlocked
datatype TurnstileEvent = Te_Coin | Te_Off | Te_Push | Te_Reset

fun TurnstileState_variant :: "TurnstileState \<Rightarrow> string" where
  "TurnstileState_variant Ts_Locked = ''Locked''"
| "TurnstileState_variant Ts_Off = ''Off''"
| "TurnstileState_variant Ts_Unlocked = ''Unlocked''"

fun TurnstileEvent_variant :: "TurnstileEvent \<Rightarrow> string" where
  "TurnstileEvent_variant Te_Coin = ''Coin''"
| "TurnstileEvent_variant Te_Off = ''Off''"
| "TurnstileEvent_variant Te_Push = ''Push''"
| "TurnstileEvent_variant Te_Reset = ''Reset''"

definition turnstile_graph :: "(TurnstileState, TurnstileEvent) TransitionGraph" where
  "turnstile_graph = TransitionGraph_new Ts_Locked {|Ts_Off|}
     [\<lparr>t_from = Ts_Locked, t_to = [Ts_Unlocked], t_event = Te_Coin, t_kind = Normal\<rparr>,
      \<lparr>t_from = Ts_Unlocked, t_to = [Ts_Locked], t_event = Te_Push, t_kind = Normal\<rparr>,
      \<lparr>t_from = Ts_Unlocked, t_to = [Ts_Unlocked], t_event = Te_Coin, t_kind = Normal\<rparr>,
      \<lparr>t_from = Ts_Locked, t_to = [Ts_Off], t_event = Te_Off, t_kind = Normal\<rparr>,
      \<lparr>t_from = Ts_Off, t_to = [Ts_Off], t_event = Te_Reset, t_kind = Normal\<rparr>]"

text \<open>The text of the attribute, and the machine the macro reads from it.\<close>

definition turnstile_text :: string where
  "turnstile_text = raw_fsm
     [''[*] --> locked'', ''locked --> |coin| unlocked'', ''unlocked --> |push| locked'',
      ''unlocked --> |coin| unlocked'', ''locked --> |off| off'', ''off --> |reset| [*]'']"

definition turnstile_fsm :: ParsedFsm where
  "turnstile_fsm =
     \<lparr>pf_initial = ''locked'', pf_finals = [''off''],
      pf_transitions =
       [\<lparr>pt_from = ''locked'', pt_to = ''unlocked'', pt_event = ''coin'', pt_kind = Normal\<rparr>,
        \<lparr>pt_from = ''unlocked'', pt_to = ''locked'', pt_event = ''push'', pt_kind = Normal\<rparr>,
        \<lparr>pt_from = ''unlocked'', pt_to = ''unlocked'', pt_event = ''coin'', pt_kind = Normal\<rparr>,
        \<lparr>pt_from = ''locked'', pt_to = ''off'', pt_event = ''off'', pt_kind = Normal\<rparr>,
        \<lparr>pt_from = ''off'', pt_to = terminal, pt_event = ''reset'', pt_kind = Normal\<rparr>],
      pf_states = [''locked'', ''off'', ''unlocked'']\<rparr>"

lemma turnstile_parsed: "parse_mermaid turnstile_text = Inr turnstile_fsm"
  by code_simp

lemma turnstile_valid: "macro_validate turnstile_fsm = Inr ()"
  by code_simp

lemma turnstile_generated:
  "gen_graph (generate turnstile_fsm cfg) = rename_graph TurnstileState_variant TurnstileEvent_variant turnstile_graph"
  "gen_state_display (generate turnstile_fsm cfg) = [(''Locked'', ''locked''), (''Off'', ''off''), (''Unlocked'', ''unlocked'')]"
  "gen_event_display (generate turnstile_fsm cfg) =
     [(''Coin'', ''coin''), (''Off'', ''off''), (''Push'', ''push''), (''Reset'', ''reset'')]"
proof -
  have "build_graph turnstile_fsm = rename_graph TurnstileState_variant TurnstileEvent_variant turnstile_graph"
    by code_simp
  then show "gen_graph (generate turnstile_fsm cfg) = rename_graph TurnstileState_variant TurnstileEvent_variant turnstile_graph"
    by (simp add: generate_def)
  have "map (\<lambda>s. (to_pascal_case s, s)) (pf_states turnstile_fsm) = [(''Locked'', ''locked''), (''Off'', ''off''), (''Unlocked'', ''unlocked'')]"
    "map (\<lambda>e. (to_pascal_case e, e)) (sorted_events (pf_transitions turnstile_fsm)) =
     [(''Coin'', ''coin''), (''Off'', ''off''), (''Push'', ''push''), (''Reset'', ''reset'')]"
    by code_simp+
  then show "gen_state_display (generate turnstile_fsm cfg) = [(''Locked'', ''locked''), (''Off'', ''off''), (''Unlocked'', ''unlocked'')]"
    "gen_event_display (generate turnstile_fsm cfg) =
     [(''Coin'', ''coin''), (''Off'', ''off''), (''Push'', ''push''), (''Reset'', ''reset'')]"
    by (simp_all add: generate_def)
qed

lemma turnstile_expands:
  assumes "parse_item item = Inr (''Turnstile'', input)" "parse_attrs attr = Inr turnstile_attrs"
  shows "finitomata parse_item parse_attrs base10_parse attr item =
    Inr (input, generate turnstile_fsm
      \<lparr>struct_name = ''Turnstile'', timer = None, auto_terminate = True, cache_state = True\<rparr>)"
  using assms turnstile_parsed turnstile_valid
  by (simp add: finitomata_def parse_finitomata_attrs_def turnstile_attrs_def turnstile_text_def attr_start_def
      attr_key_def expand_def)

subsection \<open>The callbacks\<close>

record Turnstile =
  coins :: "32 word"
  pushes :: "32 word"

record TurnstilePayload =
  total_coins :: "32 word"
  total_pushes :: "32 word"

datatype turnstile_line =
    Ts_Entered TurnstileState
  | Ts_Exiting TurnstileState
  | Ts_ShuttingDown "32 word" "32 word"

type_synonym turnstile_out = "turnstile_line list"

fun Turnstile_on_transition :: "TurnstileState \<Rightarrow> TurnstileEvent \<Rightarrow> TurnstilePayload \<Rightarrow>
    Turnstile \<times> TurnstilePayload \<times> turnstile_out \<Rightarrow>
    (TurnstileState, TurnstilePayload) TransitionResult \<times> Turnstile \<times> TurnstilePayload \<times> turnstile_out" where
  "Turnstile_on_transition frm Te_Coin ep (f, p, w) =
     (Ok Ts_Unlocked, f\<lparr>coins := coins f + 1\<rparr>, p\<lparr>total_coins := total_coins p + 1\<rparr>, w)"
| "Turnstile_on_transition frm Te_Push ep (f, p, w) =
     (Ok Ts_Locked, f\<lparr>pushes := pushes f + 1\<rparr>, p\<lparr>total_pushes := total_pushes p + 1\<rparr>, w)"
| "Turnstile_on_transition frm Te_Off ep (f, p, w) = (Ok Ts_Off, f, p, w)"
| "Turnstile_on_transition frm Te_Reset ep (f, p, w) = (Ok Ts_Off, f, p, w)"

definition Turnstile :: "(Turnstile, turnstile_out, TurnstileState, TurnstileEvent, TurnstilePayload) Finitomata" where
  "Turnstile =
     (default_callbacks Turnstile_on_transition TurnstileState_variant TurnstileEvent_variant)
       \<lparr>on_enter := (\<lambda>s (f, p, w). (f, p, w @ [Ts_Entered s])),
        on_exit := (\<lambda>s (f, p, w). (f, p, w @ [Ts_Exiting s])),
        on_terminate := (\<lambda>(f, p, w). (f, p, w @ [Ts_ShuttingDown (coins f) (pushes f)]))\<rparr>"

definition Turnstile_default :: Turnstile where
  "Turnstile_default = \<lparr>coins = 0, pushes = 0\<rparr>"

definition turnstile_payload :: TurnstilePayload where
  "turnstile_payload = \<lparr>total_coins = 0, total_pushes = 0\<rparr>"

definition turnstile_supervisor :: "ActorSystem \<Rightarrow> (turnstile_out, TurnstileState, TurnstileEvent, TurnstilePayload) FinitomataSupervisor" where
  "turnstile_supervisor sys = with_auto_terminate True (FinitomataSupervisor_new sys ''turnstile_sup'' turnstile_graph)"

lemma Turnstile_simps [simp]:
  "on_transition Turnstile = Turnstile_on_transition"
  "on_start Turnstile x = x" "on_enter Turnstile s (f, p, w) = (f, p, w @ [Ts_Entered s])"
  "on_exit Turnstile s (f, p, w) = (f, p, w @ [Ts_Exiting s])" "on_failure Turnstile e er x = x"
  "on_timer Turnstile s x = (None, x)" "on_terminate Turnstile (f, p, w) = (f, p, w @ [Ts_ShuttingDown (coins f) (pushes f)])"
  by (simp_all add: Turnstile_def default_callbacks_def)

lemma turnstile_graph_simps [simp]:
  "graph_inv turnstile_graph" "initial turnstile_graph = Ts_Locked" "finals turnstile_graph = {|Ts_Off|}"
  "allowed turnstile_graph Ts_Locked Te_Coin = Some ([Ts_Unlocked], Normal)"
  "allowed turnstile_graph Ts_Locked Te_Off = Some ([Ts_Off], Normal)"
  "allowed turnstile_graph Ts_Locked Te_Push = None" "allowed turnstile_graph Ts_Locked Te_Reset = None"
  "allowed turnstile_graph Ts_Unlocked Te_Coin = Some ([Ts_Unlocked], Normal)"
  "allowed turnstile_graph Ts_Unlocked Te_Push = Some ([Ts_Locked], Normal)"
  "allowed turnstile_graph Ts_Unlocked Te_Off = None" "allowed turnstile_graph Ts_Unlocked Te_Reset = None"
  by (simp_all add: turnstile_graph_def allowed_scan graph_inv_new)

subsection \<open>What the output says about the counters\<close>

text \<open>
  Every coin makes the turnstile enter \<open>unlocked\<close> and every push makes it enter \<open>locked\<close>, which it
  also enters once at the start. So the two counters count these lines, modulo \<open>2 ^ 32\<close>, the
  payload's totals are the struct's counters, and nobody pushes through without a coin.
\<close>

definition times_entered :: "TurnstileState \<Rightarrow> turnstile_out \<Rightarrow> nat" where
  "times_entered s out = count_list out (Ts_Entered s)"

definition turnstile_inv :: "Turnstile \<Rightarrow> (TurnstileState, TurnstilePayload) FsmState \<Rightarrow> turnstile_out \<Rightarrow> bool" where
  "turnstile_inv f st out \<longleftrightarrow>
     coins f = total_coins (payload st) \<and> pushes f = total_pushes (payload st) \<and>
     coins f = of_nat (times_entered Ts_Unlocked out) \<and> pushes f + 1 = of_nat (times_entered Ts_Locked out) \<and>
     times_entered Ts_Locked out \<le> times_entered Ts_Unlocked out + (if current st = Ts_Unlocked then 0 else 1)"

lemma times_entered_simps [simp]:
  "times_entered s [] = 0" "times_entered s (xs @ ys) = times_entered s xs + times_entered s ys"
  "times_entered s (Ts_Entered t # xs) = times_entered s xs + (if s = t then 1 else 0)"
  "times_entered s (Ts_Exiting t # xs) = times_entered s xs"
  "times_entered s (Ts_ShuttingDown a b # xs) = times_entered s xs"
  by (simp_all add: times_entered_def)

interpretation turnstile: data_invariant Turnstile turnstile_graph None None turnstile_inv
proof
  fix fsm st ev ep w r fsm' st' w'
  assume t: "transit Turnstile fsm turnstile_graph st ev ep
      \<lparr>tc_persistency = None, tc_listener = None, tc_auto_terminate = True\<rparr> w = (r, fsm', st', w')"
    and nf: "\<not> is_final turnstile_graph (current st)" and inv: "turnstile_inv fsm st w"
  from t nf inv show "turnstile_inv fsm' st' w'"
    by (cases "current st"; cases ev)
      (auto simp: transit_def transit_target_def transit_commit_def run_hook_def Let_def clear_error_def
        transition_to_def is_final_def turnstile_inv_def ac_simps split: if_splits)
qed (auto simp: turnstile_inv_def)

subsection \<open>The run of main\<close>

text \<open>
  The \<open>main\<close> of an example starts its machine, and the actor's \<open>started\<close> hook runs; then it sends
  messages and sleeps until each is handled. The headings it prints itself and its final look at
  the cache are left out.
\<close>

definition turnstile_main :: "('m, TurnstileState, TurnstilePayload) cache_map \<Rightarrow> ActorSystem \<Rightarrow> Pid \<Rightarrow>
    ((Turnstile, turnstile_out, TurnstileState, TurnstileEvent, TurnstilePayload) FsmActor \<times> ('m, turnstile_out) env) option" where
  "turnstile_main D sys pid =
     (case start_actor D Turnstile (turnstile_supervisor sys) ''gate_1'' Turnstile_default turnstile_payload
         (sup_env_new D [] ()) of
        (actor, cache, out) \<Rightarrow>
          Option.bind (started Turnstile D pid actor \<lparr>en_cache = cache, en_world = out, en_requests = []\<rparr>)
            (\<lambda>(a, en). deliver Turnstile D pid
               [TransitionMsg Te_Coin turnstile_payload, TransitionMsg Te_Push turnstile_payload,
                TransitionMsg Te_Off turnstile_payload] a en))"

lemma turnstile_no_hard [simp]: "hard_event turnstile_graph s = None"
  by (simp add: hard_event_def events_for_scan) (simp add: turnstile_graph_def)

lemma turnstile_actor:
  assumes "start_actor D Turnstile (turnstile_supervisor sys) nm Turnstile_default turnstile_payload env = (a, cache, out)"
  shows "a = \<lparr>fa_fsm = Turnstile_default, fa_state = (FsmState_new nm Ts_Locked turnstile_payload)\<lparr>lifecycle := Running\<rparr>,
      fa_graph = turnstile_graph, fa_persistency = None, fa_listener = None, fa_auto_terminate = True,
      fa_timer_interval = None, fa_name = nm, fa_recover_on_start = False, fa_system = None\<rparr>"
    "out = se_world env @ [Ts_Entered Ts_Locked]" "cache = StateCache_update D (fa_state a) (se_cache env)"
  using assms
  by (auto simp: start_actor_def initial_entry_def turnstile_supervisor_def with_auto_terminate_def
      FinitomataSupervisor_new_def run_hook_def FsmState_new_def Let_def)

lemma turnstile_main_run:
  "\<exists>a en. turnstile_main D sys pid = Some (a, en) \<and> current (fa_state a) = Ts_Off \<and>
     lifecycle (fa_state a) = Terminated \<and> payload (fa_state a) = \<lparr>total_coins = 1, total_pushes = 1\<rparr> \<and>
     en_requests en = [ReqStopNormal] \<and>
     en_world en = [Ts_Entered Ts_Locked, Ts_Exiting Ts_Locked, Ts_Entered Ts_Unlocked, Ts_Exiting Ts_Unlocked,
       Ts_Entered Ts_Locked, Ts_Exiting Ts_Locked, Ts_Entered Ts_Off, Ts_ShuttingDown 1 1]"
proof -
  obtain a0 cache out where a0: "start_actor D Turnstile (turnstile_supervisor sys) ''gate_1'' Turnstile_default
      turnstile_payload (sup_env_new D [] ()) = (a0, cache, out)"
    using prod_cases3 by blast
  note a = turnstile_actor [OF this]
  show ?thesis
    unfolding turnstile_main_def a0
    by (simp add: a started_def started_recover_def handle_message_def do_transition_turn turn_def
        run_transit actor_ctx_def chain_end_def chain_next_def stop_requested_def FsmState_new_def
        turnstile_payload_def Turnstile_default_def sup_env_new_def)
qed

end
