(* ===== verification/Ex_Order.thy ===== *)
theory Ex_Order
  imports Ex_Turnstile
begin

section \<open>Example: the order workflow (finitomata/examples/order_workflow.rs)\<close>

text \<open>
  An order that confirms itself (a hard event), is shipped by a timer and keeps notes of its
  transitions. \<open>f64\<close> is the type \<open>'r\<close>: the amount is only printed. The arrow in the notes is
  U+2192, outside the characters of the model; it is written as its UTF-8 bytes.
\<close>

subsection \<open>The attribute and what it generates\<close>

definition order_text :: string where
  "order_text = raw_fsm
     [''[*] --> pending'', ''pending --> |confirm!| confirmed'', ''confirmed --> |ship| shipped'',
      ''shipped --> |deliver| delivered'', ''delivered --> |close| [*]'', ''pending --> |cancel| cancelled'',
      ''confirmed --> |cancel| cancelled'', ''cancelled --> |close| [*]'']"

definition order_attrs :: "'i \<Rightarrow> 'i Meta list" where
  "order_attrs two_thousand =
     [Meta_NameValue (Some ''fsm'') (Expr_Lit (Lit_Str order_text)),
      Meta_NameValue (Some ''syntax'') (Expr_Lit (Lit_Str ''mermaid'')),
      Meta_NameValue (Some ''auto_terminate'') (Expr_Lit (Lit_Bool True)),
      Meta_NameValue (Some ''timer'') (Expr_Lit (Lit_Int two_thousand))]"

definition order_fsm :: ParsedFsm where
  "order_fsm =
     \<lparr>pf_initial = ''pending'', pf_finals = [''cancelled'', ''delivered''],
      pf_transitions =
       [\<lparr>pt_from = ''pending'', pt_to = ''confirmed'', pt_event = ''confirm'', pt_kind = Hard\<rparr>,
        \<lparr>pt_from = ''confirmed'', pt_to = ''shipped'', pt_event = ''ship'', pt_kind = Normal\<rparr>,
        \<lparr>pt_from = ''shipped'', pt_to = ''delivered'', pt_event = ''deliver'', pt_kind = Normal\<rparr>,
        \<lparr>pt_from = ''delivered'', pt_to = terminal, pt_event = ''close'', pt_kind = Normal\<rparr>,
        \<lparr>pt_from = ''pending'', pt_to = ''cancelled'', pt_event = ''cancel'', pt_kind = Normal\<rparr>,
        \<lparr>pt_from = ''confirmed'', pt_to = ''cancelled'', pt_event = ''cancel'', pt_kind = Normal\<rparr>,
        \<lparr>pt_from = ''cancelled'', pt_to = terminal, pt_event = ''close'', pt_kind = Normal\<rparr>],
      pf_states = [''cancelled'', ''confirmed'', ''delivered'', ''pending'', ''shipped'']\<rparr>"

datatype OrderState = Os_Cancelled | Os_Confirmed | Os_Delivered | Os_Pending | Os_Shipped
datatype OrderEvent = Oe_Cancel | Oe_Close | Oe_Confirm | Oe_Deliver | Oe_Ship

fun OrderState_variant :: "OrderState \<Rightarrow> string" where
  "OrderState_variant Os_Cancelled = ''Cancelled''"
| "OrderState_variant Os_Confirmed = ''Confirmed''"
| "OrderState_variant Os_Delivered = ''Delivered''"
| "OrderState_variant Os_Pending = ''Pending''"
| "OrderState_variant Os_Shipped = ''Shipped''"

fun OrderState_display :: "OrderState \<Rightarrow> string" where
  "OrderState_display Os_Cancelled = ''cancelled''"
| "OrderState_display Os_Confirmed = ''confirmed''"
| "OrderState_display Os_Delivered = ''delivered''"
| "OrderState_display Os_Pending = ''pending''"
| "OrderState_display Os_Shipped = ''shipped''"

fun OrderEvent_variant :: "OrderEvent \<Rightarrow> string" where
  "OrderEvent_variant Oe_Cancel = ''Cancel''"
| "OrderEvent_variant Oe_Close = ''Close''"
| "OrderEvent_variant Oe_Confirm = ''Confirm''"
| "OrderEvent_variant Oe_Deliver = ''Deliver''"
| "OrderEvent_variant Oe_Ship = ''Ship''"

definition order_graph :: "(OrderState, OrderEvent) TransitionGraph" where
  "order_graph = TransitionGraph_new Os_Pending {|Os_Cancelled, Os_Delivered|}
     [\<lparr>t_from = Os_Pending, t_to = [Os_Confirmed], t_event = Oe_Confirm, t_kind = Hard\<rparr>,
      \<lparr>t_from = Os_Confirmed, t_to = [Os_Shipped], t_event = Oe_Ship, t_kind = Normal\<rparr>,
      \<lparr>t_from = Os_Shipped, t_to = [Os_Delivered], t_event = Oe_Deliver, t_kind = Normal\<rparr>,
      \<lparr>t_from = Os_Delivered, t_to = [Os_Delivered], t_event = Oe_Close, t_kind = Normal\<rparr>,
      \<lparr>t_from = Os_Pending, t_to = [Os_Cancelled], t_event = Oe_Cancel, t_kind = Normal\<rparr>,
      \<lparr>t_from = Os_Confirmed, t_to = [Os_Cancelled], t_event = Oe_Cancel, t_kind = Normal\<rparr>,
      \<lparr>t_from = Os_Cancelled, t_to = [Os_Cancelled], t_event = Oe_Close, t_kind = Normal\<rparr>]"

lemma order_parsed: "parse_mermaid order_text = Inr order_fsm"
  by code_simp

lemma order_valid: "macro_validate order_fsm = Inr ()"
  by code_simp

lemma order_generated:
  "gen_graph (generate order_fsm cfg) = rename_graph OrderState_variant OrderEvent_variant order_graph"
proof -
  have "build_graph order_fsm = rename_graph OrderState_variant OrderEvent_variant order_graph"
    by code_simp
  then show ?thesis by (simp add: generate_def)
qed

lemma order_display:
  "map fst (gen_state_display (generate order_fsm cfg)) =
     map OrderState_variant [Os_Cancelled, Os_Confirmed, Os_Delivered, Os_Pending, Os_Shipped]"
  "map snd (gen_state_display (generate order_fsm cfg)) =
     map OrderState_display [Os_Cancelled, Os_Confirmed, Os_Delivered, Os_Pending, Os_Shipped]"
proof -
  have "map to_pascal_case (pf_states order_fsm) =
      map OrderState_variant [Os_Cancelled, Os_Confirmed, Os_Delivered, Os_Pending, Os_Shipped]"
    by code_simp
  then show "map fst (gen_state_display (generate order_fsm cfg)) =
     map OrderState_variant [Os_Cancelled, Os_Confirmed, Os_Delivered, Os_Pending, Os_Shipped]"
    by (simp add: generate_def o_def)
  show "map snd (gen_state_display (generate order_fsm cfg)) =
     map OrderState_display [Os_Cancelled, Os_Confirmed, Os_Delivered, Os_Pending, Os_Shipped]"
    by (simp add: generate_def order_fsm_def)
qed

lemma order_expands:
  assumes "parse_item item = Inr (''OrderWorkflow'', input)" "parse_attrs attr = Inr (order_attrs i)"
    and "base10_parse i = Inr 2000"
  shows "finitomata parse_item parse_attrs base10_parse attr item =
    Inr (input, generate order_fsm
      \<lparr>struct_name = ''OrderWorkflow'', timer = Some 2000, auto_terminate = True, cache_state = True\<rparr>)"
  using assms order_parsed order_valid
  by (simp add: finitomata_def parse_finitomata_attrs_def order_attrs_def attr_start_def
      attr_key_def expand_def)

subsection \<open>The callbacks\<close>

record OrderWorkflow =
  retry_count :: "32 word"

record 'r OrderPayload =
  order_id :: string
  customer :: string
  amount :: 'r
  order_notes :: "string list"

datatype 'r order_line =
    Ol_PaymentConfirmed string 'r
  | Ol_Shipped string string
  | Ol_Delivered string
  | Ol_Cancelled string OrderState
  | Ol_Closed string
  | Ol_Entered string OrderState
  | Ol_Tick string "32 word" OrderState
  | Ol_Complete string "string list"

definition note_arrow :: string where
  "note_arrow = [CHR 0x20, CHR 0xE2, CHR 0x86, CHR 0x92, CHR 0x20]"

definition order_note :: "OrderState \<Rightarrow> OrderEvent \<Rightarrow> string" where
  "order_note frm ev = OrderState_display frm @ note_arrow @ OrderEvent_variant ev"

definition OrderWorkflow_on_transition :: "OrderState \<Rightarrow> OrderEvent \<Rightarrow> 'r OrderPayload \<Rightarrow>
    OrderWorkflow \<times> 'r OrderPayload \<times> 'r order_line list \<Rightarrow>
    (OrderState, 'r OrderPayload) TransitionResult \<times> OrderWorkflow \<times> 'r OrderPayload \<times> 'r order_line list" where
  "OrderWorkflow_on_transition frm ev ep x =
     (case x of (f, p, w) \<Rightarrow>
        (let note = order_note frm ev;
             p = p\<lparr>order_notes := order_notes p @ [note]\<rparr>
         in case ev of
              Oe_Confirm \<Rightarrow> (Ok Os_Confirmed, f, p, w @ [Ol_PaymentConfirmed (order_id p) (amount p)])
            | Oe_Ship \<Rightarrow> (Ok Os_Shipped, f, p, w @ [Ol_Shipped (order_id p) (customer p)])
            | Oe_Deliver \<Rightarrow> (Ok Os_Delivered, f, p, w @ [Ol_Delivered (order_id p)])
            | Oe_Cancel \<Rightarrow> (Ok Os_Cancelled, f, p, w @ [Ol_Cancelled (order_id p) frm])
            | Oe_Close \<Rightarrow> (Ok Os_Delivered, f, p, w @ [Ol_Closed (order_id p)])))"

definition OrderWorkflow_on_timer :: "OrderState \<Rightarrow> OrderWorkflow \<times> 'r OrderPayload \<times> 'r order_line list \<Rightarrow>
    (OrderEvent \<times> 'r OrderPayload) option \<times> OrderWorkflow \<times> 'r OrderPayload \<times> 'r order_line list" where
  "OrderWorkflow_on_timer s x =
     (case x of (f, p, w) \<Rightarrow>
        (let f = f\<lparr>retry_count := retry_count f + 1\<rparr>;
             w = w @ [Ol_Tick (order_id p) (retry_count f) s]
         in (if s = Os_Confirmed \<and> retry_count f \<ge> 2 then Some (Oe_Ship, p) else None, f, p, w)))"

definition OrderWorkflow :: "(OrderWorkflow, 'r order_line list, OrderState, OrderEvent, 'r OrderPayload) Finitomata" where
  "OrderWorkflow =
     (default_callbacks OrderWorkflow_on_transition OrderState_variant OrderEvent_variant)
       \<lparr>on_enter := (\<lambda>s (f, p, w). (f, p, w @ [Ol_Entered (order_id p) s])),
        on_timer := OrderWorkflow_on_timer,
        on_terminate := (\<lambda>(f, p, w). (f, p, w @ [Ol_Complete (order_id p) (order_notes p)]))\<rparr>"

definition OrderWorkflow_default :: OrderWorkflow where
  "OrderWorkflow_default = \<lparr>retry_count = 0\<rparr>"

text \<open>A second is a thousand of the units of \<open>Duration\<close> here.\<close>

definition order_supervisor :: "ActorSystem \<Rightarrow> ('r order_line list, OrderState, OrderEvent, 'r OrderPayload) FinitomataSupervisor" where
  "order_supervisor sys =
     with_timer 1000 (with_auto_terminate True (FinitomataSupervisor_new sys ''orders'' order_graph))"

lemma OrderWorkflow_simps [simp]:
  "on_transition OrderWorkflow = OrderWorkflow_on_transition"
  "on_start OrderWorkflow x = x" "on_enter OrderWorkflow s (f, p, w) = (f, p, w @ [Ol_Entered (order_id p) s])"
  "on_exit OrderWorkflow s x = x" "on_failure OrderWorkflow e er x = x"
  "on_timer OrderWorkflow = OrderWorkflow_on_timer"
  "on_terminate OrderWorkflow (f, p, w) = (f, p, w @ [Ol_Complete (order_id p) (order_notes p)])"
  by (simp_all add: OrderWorkflow_def default_callbacks_def)

lemma order_graph_simps [simp]:
  "graph_inv order_graph" "initial order_graph = Os_Pending" "finals order_graph = {|Os_Cancelled, Os_Delivered|}"
  "allowed order_graph Os_Pending Oe_Confirm = Some ([Os_Confirmed], Hard)"
  "allowed order_graph Os_Pending Oe_Cancel = Some ([Os_Cancelled], Normal)"
  "allowed order_graph Os_Confirmed Oe_Ship = Some ([Os_Shipped], Normal)"
  "allowed order_graph Os_Confirmed Oe_Cancel = Some ([Os_Cancelled], Normal)"
  "allowed order_graph Os_Shipped Oe_Deliver = Some ([Os_Delivered], Normal)"
  "allowed order_graph Os_Pending Oe_Ship = None" "allowed order_graph Os_Pending Oe_Deliver = None"
  "allowed order_graph Os_Pending Oe_Close = None" "allowed order_graph Os_Confirmed Oe_Confirm = None"
  "allowed order_graph Os_Confirmed Oe_Deliver = None" "allowed order_graph Os_Confirmed Oe_Close = None"
  "allowed order_graph Os_Shipped Oe_Confirm = None" "allowed order_graph Os_Shipped Oe_Ship = None"
  "allowed order_graph Os_Shipped Oe_Cancel = None" "allowed order_graph Os_Shipped Oe_Close = None"
  by (simp_all add: order_graph_def allowed_scan graph_inv_new)

lemma order_hard [simp]:
  "hard_event order_graph s = (if s = Os_Pending then Some Oe_Confirm else None)"
  by (simp add: hard_event_def events_for_scan) (cases s; simp add: order_graph_def)

subsection \<open>The notes are the path\<close>

text \<open>The notes of a path of the graph: one for each transition, with the state it left.\<close>

fun audit :: "OrderState \<Rightarrow> (OrderEvent \<times> OrderState) list \<Rightarrow> string list" where
  "audit s [] = []"
| "audit s ((ev, t) # p) = order_note s ev # audit t p"

lemma audit_snoc: "graph_path g s p x \<Longrightarrow> audit s (p @ [(ev, y)]) = audit s p @ [order_note x ev]"
  by (induction s p rule: audit.induct) auto

definition ticks :: "'r order_line list \<Rightarrow> nat" where
  "ticks out = length (filter (\<lambda>l. case l of Ol_Tick i n s \<Rightarrow> True | _ \<Rightarrow> False) out)"

lemma ticks_simps [simp]: "ticks [] = 0" "ticks (xs @ ys) = ticks xs + ticks ys"
  "ticks (l # ls) = (case l of Ol_Tick i n s \<Rightarrow> 1 | _ \<Rightarrow> 0) + ticks ls"
  by (simp_all add: ticks_def split: order_line.split)

definition order_inv :: "'r OrderPayload \<Rightarrow> OrderWorkflow \<Rightarrow> (OrderState, 'r OrderPayload) FsmState \<Rightarrow> 'r order_line list \<Rightarrow> bool" where
  "order_inv p0 f st out \<longleftrightarrow>
     (\<exists>p. graph_path order_graph Os_Pending p (current st) \<and>
        payload st = p0\<lparr>order_notes := order_notes p0 @ audit Os_Pending p\<rparr>) \<and>
     retry_count f = of_nat (ticks out)"

lemma order_transit:
  assumes t: "transit OrderWorkflow fsm order_graph st ev ep
      \<lparr>tc_persistency = None, tc_listener = None, tc_auto_terminate = True\<rparr> w = (r, fsm', st', w')"
    and nf: "\<not> is_final order_graph (current st)"
  shows "fsm' = fsm \<and> ticks w' = ticks w \<and>
    (current st' = current st \<and> payload st' = payload st \<or>
     graph_edge order_graph (current st) ev (current st') \<and>
       payload st' = (payload st)\<lparr>order_notes := order_notes (payload st) @ [order_note (current st) ev]\<rparr>)"
proof -
  have e: "graph_edge order_graph s e x \<longleftrightarrow> (s, e, x) \<in> {(Os_Pending, Oe_Confirm, Os_Confirmed),
      (Os_Confirmed, Oe_Ship, Os_Shipped), (Os_Shipped, Oe_Deliver, Os_Delivered), (Os_Delivered, Oe_Close, Os_Delivered),
      (Os_Pending, Oe_Cancel, Os_Cancelled), (Os_Confirmed, Oe_Cancel, Os_Cancelled), (Os_Cancelled, Oe_Close, Os_Cancelled)}" for s e x
    by (auto simp: graph_edge_def order_graph_def)
  show ?thesis
  proof (cases "allowed order_graph (current st) ev")
    case None
    from transit_unanswered [OF t this] show ?thesis by simp
  next
    case (Some x)
    with nf consider "current st = Os_Pending" "ev = Oe_Confirm" | "current st = Os_Pending" "ev = Oe_Cancel"
      | "current st = Os_Confirmed" "ev = Oe_Ship" | "current st = Os_Confirmed" "ev = Oe_Cancel"
      | "current st = Os_Shipped" "ev = Oe_Deliver"
      by (cases "current st"; cases ev) (simp_all add: is_final_def)
    then show ?thesis
      by cases (use t in \<open>auto simp: run_transit OrderWorkflow_on_transition_def e\<close>)
  qed
qed

interpretation order: data_invariant OrderWorkflow order_graph None None "order_inv p0" for p0
proof
  fix fsm st ev ep w r fsm' st' w'
  assume t: "transit OrderWorkflow fsm order_graph st ev ep
      \<lparr>tc_persistency = None, tc_listener = None, tc_auto_terminate = True\<rparr> w = (r, fsm', st', w')"
    and nf: "\<not> is_final order_graph (current st)" and inv: "order_inv p0 fsm st w"
  obtain p where p: "graph_path order_graph Os_Pending p (current st)"
    "payload st = p0\<lparr>order_notes := order_notes p0 @ audit Os_Pending p\<rparr>"
    using inv by (auto simp: order_inv_def)
  have "\<exists>q. graph_path order_graph Os_Pending q (current st') \<and>
      payload st' = p0\<lparr>order_notes := order_notes p0 @ audit Os_Pending q\<rparr>"
    using order_transit [OF t nf]
  proof (elim conjE disjE)
    assume "current st' = current st" "payload st' = payload st"
    with p show ?thesis by auto
  next
    assume "graph_edge order_graph (current st) ev (current st')"
      "payload st' = (payload st)\<lparr>order_notes := order_notes (payload st) @ [order_note (current st) ev]\<rparr>"
    with p show ?thesis
      by (intro exI [of _ "p @ [(ev, current st')]"]) (auto simp: graph_path_snoc audit_snoc)
  qed
  with order_transit [OF t nf] inv show "order_inv p0 fsm' st' w'" by (simp add: order_inv_def)
next
  fix st fsm w res fsm' p' w'
  assume "on_timer OrderWorkflow (current st) (fsm, payload st, w) = (res, fsm', p', w')" "order_inv p0 fsm st w"
  then show "order_inv p0 fsm' (st\<lparr>payload := p'\<rparr>) w'"
    by (auto simp: OrderWorkflow_on_timer_def order_inv_def Let_def)
qed (auto simp: order_inv_def)

subsection \<open>The run of main\<close>

text \<open>
  \<open>main\<close> starts the order and sleeps: the hard event confirms it at once, then the timer ticks
  every second. \<open>n\<close> is the number of ticks the actor has handled.
\<close>

definition order_main :: "('m, OrderState, 'r OrderPayload) cache_map \<Rightarrow> 'r \<Rightarrow> ActorSystem \<Rightarrow> Pid \<Rightarrow> nat \<Rightarrow>
    ((OrderWorkflow, 'r order_line list, OrderState, OrderEvent, 'r OrderPayload) FsmActor \<times> ('m, 'r order_line list) env) option" where
  "order_main D price sys pid n =
     (case start_actor D OrderWorkflow (order_supervisor sys) ''order_1'' OrderWorkflow_default
         \<lparr>order_id = ''ORD-001'', customer = ''Acme Corp'', amount = price, order_notes = []\<rparr>
         (sup_env_new D [] ()) of
        (actor, cache, out) \<Rightarrow>
          Option.bind (started OrderWorkflow D pid actor \<lparr>en_cache = cache, en_world = out, en_requests = []\<rparr>)
            (\<lambda>(a, en). deliver OrderWorkflow D pid (replicate n TimerTickMsg) a en))"

lemma order_actor:
  assumes "start_actor D OrderWorkflow (order_supervisor sys) nm OrderWorkflow_default p0 env = (a, cache, out)"
  shows "a = \<lparr>fa_fsm = OrderWorkflow_default, fa_state = (FsmState_new nm Os_Pending p0)\<lparr>lifecycle := Running\<rparr>,
      fa_graph = order_graph, fa_persistency = None, fa_listener = None, fa_auto_terminate = True,
      fa_timer_interval = Some 1000, fa_name = nm, fa_recover_on_start = False, fa_system = None\<rparr>"
    "out = se_world env @ [Ol_Entered (order_id p0) Os_Pending]" "cache = StateCache_update D (fa_state a) (se_cache env)"
  using assms
  by (auto simp: start_actor_def initial_entry_def order_supervisor_def with_auto_terminate_def with_timer_def
      FinitomataSupervisor_new_def run_hook_def FsmState_new_def Let_def)

text \<open>A tick in a state that is not \<open>Confirmed\<close>, or too early, only counts.\<close>

lemma order_tick_waits:
  assumes "current (fa_state a) = Os_Confirmed \<longrightarrow> \<not> retry_count (fa_fsm a) + 1 \<ge> 2"
  shows "\<exists>en'. handle_message OrderWorkflow D pid TimerTickMsg a en =
      Some (a\<lparr>fa_fsm := \<lparr>retry_count = retry_count (fa_fsm a) + 1\<rparr>\<rparr>, en') \<and>
    en_cache en' = en_cache en \<and> (stop_requested en' \<longleftrightarrow> stop_requested en)"
  using assms
  by (auto simp: handle_message_def handle_timer_tick_def OrderWorkflow_on_timer_def Let_def stop_requested_def
      split: option.split prod.split)

lemma order_ticks_wait:
  assumes "current (fa_state a) \<noteq> Os_Confirmed" "\<not> stop_requested en"
  shows "\<exists>en'. deliver OrderWorkflow D pid (replicate n TimerTickMsg) a en =
      Some (a\<lparr>fa_fsm := \<lparr>retry_count = retry_count (fa_fsm a) + of_nat n\<rparr>\<rparr>, en') \<and>
    en_cache en' = en_cache en"
  using assms
proof (induction n arbitrary: a en)
  case 0
  show ?case by simp
next
  case (Suc n)
  from order_tick_waits [of a D pid en] Suc.prems(1) obtain en1 where
    h: "handle_message OrderWorkflow D pid TimerTickMsg a en =
      Some (a\<lparr>fa_fsm := \<lparr>retry_count = retry_count (fa_fsm a) + 1\<rparr>\<rparr>, en1)"
    and en1: "en_cache en1 = en_cache en" "\<not> stop_requested en1"
    using Suc.prems(2) by auto
  from Suc.IH [of "a\<lparr>fa_fsm := \<lparr>retry_count = retry_count (fa_fsm a) + 1\<rparr>\<rparr>" en1] Suc.prems(1) en1 h Suc.prems(2)
  show ?case by (auto simp: ac_simps)
qed

lemma order_main_run:
  "\<exists>a en. order_main D price sys pid n = Some (a, en) \<and>
     current (fa_state a) = (if n < 2 then Os_Confirmed else Os_Shipped) \<and> lifecycle (fa_state a) = Running \<and>
     order_notes (payload (fa_state a)) =
       order_note Os_Pending Oe_Confirm # (if n < 2 then [] else [order_note Os_Confirmed Oe_Ship]) \<and>
     retry_count (fa_fsm a) = of_nat n"
proof -
  have two: "\<not> 2 \<le> (1 :: 32 word)" by (simp add: word_le_nat_alt)
  let ?p = "\<lparr>order_id = ''ORD-001'', customer = ''Acme Corp'', amount = price, order_notes = []\<rparr>"
  obtain a0 cache out where a0: "start_actor D OrderWorkflow (order_supervisor sys) ''order_1'' OrderWorkflow_default
      ?p (sup_env_new D [] ()) = (a0, cache, out)"
    using prod_cases3 by blast
  note a = order_actor [OF this]
  have "\<exists>a en. order_main D price sys pid m = Some (a, en) \<and>
     current (fa_state a) = (if m < 2 then Os_Confirmed else Os_Shipped) \<and> lifecycle (fa_state a) = Running \<and>
     order_notes (payload (fa_state a)) =
       order_note Os_Pending Oe_Confirm # (if m < 2 then [] else [order_note Os_Confirmed Oe_Ship]) \<and>
     retry_count (fa_fsm a) = of_nat m \<and> \<not> stop_requested en" if "m = 0 \<or> m = 1 \<or> m = 2" for m
    using that unfolding order_main_def a0
    by (elim disjE)
      (simp_all add: a started_def started_recover_def handle_message_def handle_timer_tick_def do_transition_turn turn_def
        run_transit actor_ctx_def chain_end_def chain_next_def stop_requested_def FsmState_new_def
        OrderWorkflow_default_def sup_env_new_def OrderWorkflow_on_transition_def OrderWorkflow_on_timer_def numeral_2_eq_2 two)
  note short = this
  show ?thesis
  proof (cases "n < 2")
    case True
    then have "n = 0 \<or> n = 1" by auto
    with short [of n] show ?thesis by auto
  next
    case False
    then have "n = 2 + (n - 2)" by simp
    then have n: "replicate n TimerTickMsg = replicate 2 TimerTickMsg @ replicate (n - 2) TimerTickMsg"
      by (metis replicate_add)
    from short [of 2] obtain b en where b: "order_main D price sys pid 2 = Some (b, en)"
      and b': "current (fa_state b) = Os_Shipped" "lifecycle (fa_state b) = Running" "retry_count (fa_fsm b) = 2"
        "order_notes (payload (fa_state b)) = [order_note Os_Pending Oe_Confirm, order_note Os_Confirmed Oe_Ship]"
        "\<not> stop_requested en" by auto
    have "order_main D price sys pid n =
        Option.bind (order_main D price sys pid 2) (\<lambda>(a, en). deliver OrderWorkflow D pid (replicate (n - 2) TimerTickMsg) a en)"
      unfolding order_main_def a0 n deliver_append by (auto simp: split_def)
    with b order_ticks_wait [of b en D pid "n - 2"] b' False show ?thesis by auto
  qed
qed

end
