(* ===== verification/Ex_Document.thy ===== *)
theory Ex_Document
  imports Ex_Turnstile
begin

section \<open>Example: the document workflow (finitomata/examples/persistent_fsm.rs)\<close>

text \<open>
  A document with an in-memory backend. The world is the content of the backend and the output;
  the backend's \<open>DashMap\<close> is a parameter, with the laws of the locale \<open>dash_map\<close>.
\<close>

subsection \<open>The attribute and what it generates\<close>

definition document_text :: string where
  "document_text = raw_fsm
     [''[*] --> draft'', ''draft --> |submit| review'', ''review --> |approve| published'',
      ''review --> |reject| draft'', ''published --> |archive| archived'', ''archived --> |restore| draft'',
      ''draft --> |delete| deleted'', ''deleted --> |confirm| [*]'']"

definition document_attrs :: "'i Meta list" where
  "document_attrs =
     [Meta_NameValue (Some ''fsm'') (Expr_Lit (Lit_Str document_text)),
      Meta_NameValue (Some ''syntax'') (Expr_Lit (Lit_Str ''mermaid'')),
      Meta_NameValue (Some ''auto_terminate'') (Expr_Lit (Lit_Bool True))]"

definition document_fsm :: ParsedFsm where
  "document_fsm =
     \<lparr>pf_initial = ''draft'', pf_finals = [''deleted''],
      pf_transitions =
       [\<lparr>pt_from = ''draft'', pt_to = ''review'', pt_event = ''submit'', pt_kind = Normal\<rparr>,
        \<lparr>pt_from = ''review'', pt_to = ''published'', pt_event = ''approve'', pt_kind = Normal\<rparr>,
        \<lparr>pt_from = ''review'', pt_to = ''draft'', pt_event = ''reject'', pt_kind = Normal\<rparr>,
        \<lparr>pt_from = ''published'', pt_to = ''archived'', pt_event = ''archive'', pt_kind = Normal\<rparr>,
        \<lparr>pt_from = ''archived'', pt_to = ''draft'', pt_event = ''restore'', pt_kind = Normal\<rparr>,
        \<lparr>pt_from = ''draft'', pt_to = ''deleted'', pt_event = ''delete'', pt_kind = Normal\<rparr>,
        \<lparr>pt_from = ''deleted'', pt_to = terminal, pt_event = ''confirm'', pt_kind = Normal\<rparr>],
      pf_states = [''archived'', ''deleted'', ''draft'', ''published'', ''review'']\<rparr>"

datatype DocumentState = Ds_Archived | Ds_Deleted | Ds_Draft | Ds_Published | Ds_Review
datatype DocumentEvent = De_Approve | De_Archive | De_Confirm | De_Delete | De_Reject | De_Restore | De_Submit

fun DocumentState_variant :: "DocumentState \<Rightarrow> string" where
  "DocumentState_variant Ds_Archived = ''Archived''"
| "DocumentState_variant Ds_Deleted = ''Deleted''"
| "DocumentState_variant Ds_Draft = ''Draft''"
| "DocumentState_variant Ds_Published = ''Published''"
| "DocumentState_variant Ds_Review = ''Review''"

fun DocumentEvent_variant :: "DocumentEvent \<Rightarrow> string" where
  "DocumentEvent_variant De_Approve = ''Approve''"
| "DocumentEvent_variant De_Archive = ''Archive''"
| "DocumentEvent_variant De_Confirm = ''Confirm''"
| "DocumentEvent_variant De_Delete = ''Delete''"
| "DocumentEvent_variant De_Reject = ''Reject''"
| "DocumentEvent_variant De_Restore = ''Restore''"
| "DocumentEvent_variant De_Submit = ''Submit''"

definition document_graph :: "(DocumentState, DocumentEvent) TransitionGraph" where
  "document_graph = TransitionGraph_new Ds_Draft {|Ds_Deleted|}
     [\<lparr>t_from = Ds_Draft, t_to = [Ds_Review], t_event = De_Submit, t_kind = Normal\<rparr>,
      \<lparr>t_from = Ds_Review, t_to = [Ds_Published], t_event = De_Approve, t_kind = Normal\<rparr>,
      \<lparr>t_from = Ds_Review, t_to = [Ds_Draft], t_event = De_Reject, t_kind = Normal\<rparr>,
      \<lparr>t_from = Ds_Published, t_to = [Ds_Archived], t_event = De_Archive, t_kind = Normal\<rparr>,
      \<lparr>t_from = Ds_Archived, t_to = [Ds_Draft], t_event = De_Restore, t_kind = Normal\<rparr>,
      \<lparr>t_from = Ds_Draft, t_to = [Ds_Deleted], t_event = De_Delete, t_kind = Normal\<rparr>,
      \<lparr>t_from = Ds_Deleted, t_to = [Ds_Deleted], t_event = De_Confirm, t_kind = Normal\<rparr>]"

lemma document_parsed: "parse_mermaid document_text = Inr document_fsm"
  by code_simp

lemma document_valid: "macro_validate document_fsm = Inr ()"
  by code_simp

lemma document_generated:
  "gen_graph (generate document_fsm cfg) = rename_graph DocumentState_variant DocumentEvent_variant document_graph"
proof -
  have "build_graph document_fsm = rename_graph DocumentState_variant DocumentEvent_variant document_graph"
    by code_simp
  then show ?thesis by (simp add: generate_def)
qed

lemma document_expands:
  assumes "parse_item item = Inr (''Document'', input)" "parse_attrs attr = Inr document_attrs"
  shows "finitomata parse_item parse_attrs base10_parse attr item =
    Inr (input, generate document_fsm
      \<lparr>struct_name = ''Document'', timer = None, auto_terminate = True, cache_state = True\<rparr>)"
  using assms document_parsed document_valid
  by (simp add: finitomata_def parse_finitomata_attrs_def document_attrs_def attr_start_def
      attr_key_def expand_def)

subsection \<open>The callbacks\<close>

text \<open>The struct \<open>Document\<close> has no field.\<close>

record DocPayload =
  doc_title :: string
  doc_version :: "32 word"
  doc_reviewer :: "string option"

datatype document_line =
    Dl_Submitted string "32 word"
  | Dl_Approved string "string option"
  | Dl_Rejected string
  | Dl_Archived string
  | Dl_Restored string
  | Dl_Deleted string
  | Dl_ConfirmedDeletion string
  | Dl_Entered string DocumentState

type_synonym 'm document_world = "'m \<times> document_line list"

fun Document_on_transition :: "DocumentState \<Rightarrow> DocumentEvent \<Rightarrow> DocPayload \<Rightarrow>
    unit \<times> DocPayload \<times> 'm document_world \<Rightarrow>
    (DocumentState, DocPayload) TransitionResult \<times> unit \<times> DocPayload \<times> 'm document_world" where
  "Document_on_transition frm De_Submit ep (f, p, m, w) =
     (let p = p\<lparr>doc_version := doc_version p + 1\<rparr>
      in (Ok Ds_Review, f, p, m, w @ [Dl_Submitted (doc_title p) (doc_version p)]))"
| "Document_on_transition frm De_Approve ep (f, p, m, w) =
     (let p = p\<lparr>doc_reviewer := Some ''editor@example.com''\<rparr>
      in (Ok Ds_Published, f, p, m, w @ [Dl_Approved (doc_title p) (doc_reviewer p)]))"
| "Document_on_transition frm De_Reject ep (f, p, m, w) = (Ok Ds_Draft, f, p, m, w @ [Dl_Rejected (doc_title p)])"
| "Document_on_transition frm De_Archive ep (f, p, m, w) = (Ok Ds_Archived, f, p, m, w @ [Dl_Archived (doc_title p)])"
| "Document_on_transition frm De_Restore ep (f, p, m, w) =
     (Ok Ds_Draft, f, p\<lparr>doc_reviewer := None\<rparr>, m, w @ [Dl_Restored (doc_title p)])"
| "Document_on_transition frm De_Delete ep (f, p, m, w) = (Ok Ds_Deleted, f, p, m, w @ [Dl_Deleted (doc_title p)])"
| "Document_on_transition frm De_Confirm ep (f, p, m, w) =
     (Ok Ds_Deleted, f, p, m, w @ [Dl_ConfirmedDeletion (doc_title p)])"

definition Document :: "(unit, 'm document_world, DocumentState, DocumentEvent, DocPayload) Finitomata" where
  "Document =
     (default_callbacks Document_on_transition DocumentState_variant DocumentEvent_variant)
       \<lparr>on_enter := (\<lambda>s (f, p, m, w). (f, p, m, w @ [Dl_Entered (doc_title p) s]))\<rparr>"

abbreviation document_backend :: "('m, string, (DocumentState, DocPayload) persisted) DashMap \<Rightarrow>
    ('m document_world, DocumentState, DocPayload) Persistency" where
  "document_backend S \<equiv> in_fst (InMemoryPersistency S)"

definition document_supervisor :: "('m, string, (DocumentState, DocPayload) persisted) DashMap \<Rightarrow> ActorSystem \<Rightarrow>
    ('m document_world, DocumentState, DocumentEvent, DocPayload) FinitomataSupervisor" where
  "document_supervisor S sys =
     with_auto_terminate True (with_persistency (document_backend S) (FinitomataSupervisor_new sys ''docs'' document_graph))"

lemma Document_simps [simp]:
  "on_transition Document = Document_on_transition"
  "on_start Document x = x" "on_enter Document s (f, p, m, w) = (f, p, m, w @ [Dl_Entered (doc_title p) s])"
  "on_exit Document s x = x" "on_failure Document e er x = x"
  "on_timer Document s x = (None, x)" "on_terminate Document x = x"
  by (simp_all add: Document_def default_callbacks_def)

lemma document_graph_simps [simp]:
  "graph_inv document_graph" "initial document_graph = Ds_Draft" "finals document_graph = {|Ds_Deleted|}"
  by (simp_all add: document_graph_def graph_inv_new)

lemma document_allowed [simp]:
  "allowed document_graph Ds_Draft De_Submit = Some ([Ds_Review], Normal)"
  "allowed document_graph Ds_Draft De_Delete = Some ([Ds_Deleted], Normal)"
  "allowed document_graph Ds_Review De_Approve = Some ([Ds_Published], Normal)"
  "allowed document_graph Ds_Review De_Reject = Some ([Ds_Draft], Normal)"
  "allowed document_graph Ds_Published De_Archive = Some ([Ds_Archived], Normal)"
  "allowed document_graph Ds_Archived De_Restore = Some ([Ds_Draft], Normal)"
  by (simp_all add: document_graph_def allowed_scan graph_inv_new)

lemma document_moves:
  assumes "allowed document_graph s ev \<noteq> None" "s \<noteq> Ds_Deleted"
  shows "(s, ev) \<in> {(Ds_Draft, De_Submit), (Ds_Draft, De_Delete), (Ds_Review, De_Approve), (Ds_Review, De_Reject),
    (Ds_Published, De_Archive), (Ds_Archived, De_Restore)}"
proof -
  from assms(1) obtain t where "t \<in> set (transitions document_graph)" "t_from t = s" "t_event t = ev"
    by (auto simp: allowed_scan find_map_if_find dest: find_SomeD)
  with assms(2) show ?thesis by (auto simp: document_graph_def)
qed

lemma document_no_hard [simp]: "hard_event document_graph s = None"
  by (simp add: hard_event_def events_for_scan) (simp add: document_graph_def)

subsection \<open>The backend is an exact copy\<close>

text \<open>
  Callbacks after \<open>store\<close> leave the payload alone, so what the backend holds for the document is
  its state and its payload; before the first transition it holds what the document was started from.
  A document has a reviewer exactly when it is published or archived, if that was so at the start, its
  title never changes, and its version counts the submissions printed.
\<close>

text \<open>What a document is started from: the state and the payload of an entry, or a draft.\<close>

definition document_start :: "(DocumentState, DocPayload) persisted option \<Rightarrow> DocPayload \<Rightarrow> DocumentState \<times> DocPayload" where
  "document_start entry p0 = (case entry of None \<Rightarrow> (Ds_Draft, p0) | Some (lc, s, q) \<Rightarrow> (s, q))"

definition reviewed :: "DocumentState \<Rightarrow> DocPayload \<Rightarrow> bool" where
  "reviewed s q \<longleftrightarrow> (doc_reviewer q \<noteq> None \<longleftrightarrow> s \<in> {Ds_Published, Ds_Archived})"

definition submissions :: "document_line list \<Rightarrow> nat" where
  "submissions out = length (filter (\<lambda>l. case l of Dl_Submitted t v \<Rightarrow> True | _ \<Rightarrow> False) out)"

lemma submissions_simps [simp]: "submissions [] = 0" "submissions (xs @ ys) = submissions xs + submissions ys"
  "submissions (l # ls) = (case l of Dl_Submitted t v \<Rightarrow> 1 | _ \<Rightarrow> 0) + submissions ls"
  by (simp_all add: submissions_def split: document_line.split)

definition document_inv :: "('m, string, (DocumentState, DocPayload) persisted) DashMap \<Rightarrow> string \<Rightarrow>
    (DocumentState, DocPayload) persisted option \<Rightarrow> DocPayload \<Rightarrow> unit \<Rightarrow> (DocumentState, DocPayload) FsmState \<Rightarrow>
    'm document_world \<Rightarrow> bool" where
  "document_inv S nm entry p0 f st w \<longleftrightarrow> (case document_start entry p0 of (s0, q0) \<Rightarrow>
     name st = nm \<and>
     (dm_get S (fst w) nm = Some (Running, current st, payload st) \<or>
      dm_get S (fst w) nm = entry \<and> current st = s0 \<and> payload st = q0 \<and> history st = history (FsmState_new nm s0 q0)) \<and>
     doc_title (payload st) = doc_title q0 \<and>
     (reviewed s0 q0 \<longrightarrow> reviewed (current st) (payload st)) \<and>
     doc_version (payload st) = doc_version q0 + of_nat (submissions (snd w)))"

lemma document_keeps:
  assumes S: "dash_map S"
  shows "data_invariant Document document_graph (Some (document_backend S)) None (document_inv S nm entry p0)"
proof
  fix fsm st ev ep w r fsm' st' w'
  assume t: "transit Document fsm document_graph st ev ep
      \<lparr>tc_persistency = Some (document_backend S), tc_listener = None, tc_auto_terminate = True\<rparr> w = (r, fsm', st', w')"
    and nf: "\<not> is_final document_graph (current st)" and inv: "document_inv S nm entry p0 fsm st w"
  show "document_inv S nm entry p0 fsm' st' w'"
  proof (cases "allowed document_graph (current st) ev")
    case None
    from transit_unanswered [OF t this] inv show ?thesis by simp
  next
    case (Some x)
    obtain m out where w: "w = (m, out)" by fastforce
    from Some nf consider "current st = Ds_Draft" "ev = De_Submit" | "current st = Ds_Draft" "ev = De_Delete"
      | "current st = Ds_Review" "ev = De_Approve" | "current st = Ds_Review" "ev = De_Reject"
      | "current st = Ds_Published" "ev = De_Archive" | "current st = Ds_Archived" "ev = De_Restore"
      using document_moves [of "current st" ev] by (auto simp: is_final_def)
    then show ?thesis
      by cases (use t inv in \<open>auto simp: w run_transit document_inv_def reviewed_def dash_map.get_insert [OF S] ac_simps
        split: prod.splits\<close>)
  qed
qed (auto simp: document_inv_def)

interpretation document: data_invariant Document document_graph "Some (document_backend fmap_dash_map)" None
    "document_inv fmap_dash_map nm entry p0" for nm entry p0
  by (rule document_keeps) (rule fmap_dm.dash_map_axioms)

subsection \<open>The run of main\<close>

definition document_payload :: DocPayload where
  "document_payload = \<lparr>doc_title = ''Architecture RFC'', doc_version = 0, doc_reviewer = None\<rparr>"

definition document_event_payload :: DocPayload where
  "document_event_payload = \<lparr>doc_title = [], doc_version = 0, doc_reviewer = None\<rparr>"

definition document_main :: "('m, string, (DocumentState, DocPayload) persisted) DashMap \<Rightarrow>
    ('c, DocumentState, DocPayload) cache_map \<Rightarrow> ActorSystem \<Rightarrow> Pid \<Rightarrow>
    ((unit, 'm document_world, DocumentState, DocumentEvent, DocPayload) FsmActor \<times> ('c, 'm document_world) env) option" where
  "document_main S D sys pid =
     (case start_actor D Document (document_supervisor S sys) ''doc_1'' () document_payload
         (sup_env_new D (InMemoryPersistency_new S, []) ()) of
        (actor, cache, w) \<Rightarrow>
          Option.bind (started Document D pid actor \<lparr>en_cache = cache, en_world = w, en_requests = []\<rparr>)
            (\<lambda>(a, en). deliver Document D pid
               (map (\<lambda>ev. TransitionMsg ev document_event_payload)
                  [De_Submit, De_Reject, De_Submit, De_Approve, De_Archive]) a en))"

lemma document_actor:
  assumes "start_actor D Document (document_supervisor S sys) nm f p0 env = (a, cache, w)"
    and "document_start (dm_get S (fst (se_world env)) nm) p0 = (s0, q0)"
  shows "a = \<lparr>fa_fsm = f, fa_state = (FsmState_new nm s0 q0)\<lparr>lifecycle := Running\<rparr>,
      fa_graph = document_graph, fa_persistency = Some (document_backend S), fa_listener = None, fa_auto_terminate = True,
      fa_timer_interval = None, fa_name = nm, fa_recover_on_start = False, fa_system = None\<rparr>"
    "w = (fst (se_world env), snd (se_world env) @ [Dl_Entered (doc_title q0) s0])"
    "cache = StateCache_update D (fa_state a) (se_cache env)"
  using assms
  by (cases "se_world env"; auto simp: start_actor_def initial_entry_def document_supervisor_def with_auto_terminate_def
      with_persistency_def FinitomataSupervisor_new_def run_hook_def FsmState_new_def Let_def document_start_def
      split: option.splits)+

lemma document_main_run:
  assumes "dash_map S"
  shows "\<exists>a en. document_main S D sys pid = Some (a, en) \<and> current (fa_state a) = Ds_Archived \<and>
     lifecycle (fa_state a) = Running \<and>
     payload (fa_state a) = \<lparr>doc_title = ''Architecture RFC'', doc_version = 2, doc_reviewer = Some ''editor@example.com''\<rparr> \<and>
     BoundedHistory_len (history (fa_state a)) = 6"
proof -
  obtain a0 cache w where a0: "start_actor D Document (document_supervisor S sys) ''doc_1'' () document_payload
      (sup_env_new D (InMemoryPersistency_new S, []) ()) = (a0, cache, w)"
    using prod_cases3 by blast
  have "document_start (dm_get S (fst (se_world (sup_env_new D (InMemoryPersistency_new S, []) ()))) ''doc_1'') document_payload =
      (Ds_Draft, document_payload)"
    using dash_map.get_new [OF assms] by (simp add: sup_env_new_def InMemoryPersistency_new_def document_start_def)
  note a = document_actor [OF a0 this]
  show ?thesis
    unfolding document_main_def a0
    by (simp add: a started_def started_recover_def handle_message_def do_transition_turn turn_def
        run_transit actor_ctx_def chain_end_def chain_next_def stop_requested_def FsmState_new_def
        document_payload_def sup_env_new_def BoundedHistory_push_def BoundedHistory_new_def BoundedHistory_len_def)
qed

end
