(* ===== verification/Ex_Worker.thy ===== *)
theory Ex_Worker
  imports Ex_Turnstile
begin

section \<open>Example: the supervised worker (finitomata/examples/supervised_fsm.rs)\<close>

text \<open>
  A worker under a restarting supervisor whose callback panics on the second task. The world is
  the content of the backend, the output and the global \<open>CRASH_COUNTER\<close>. A panic unwinds the
  actor's handler: nothing after the callback runs and the actor is gone, what the callback did to
  the world before stays.
\<close>

subsection \<open>The attribute and what it generates\<close>

definition worker_text :: string where
  "worker_text = raw_fsm
     [''[*] --> idle'', ''idle --> |process| working'', ''working --> |complete| idle'',
      ''working --> |fail| error'', ''error --> |retry| idle'', ''idle --> |shutdown| off'',
      ''off --> |confirm| [*]'']"

definition worker_attrs :: "'i Meta list" where
  "worker_attrs =
     [Meta_NameValue (Some ''fsm'') (Expr_Lit (Lit_Str worker_text)),
      Meta_NameValue (Some ''syntax'') (Expr_Lit (Lit_Str ''mermaid'')),
      Meta_NameValue (Some ''auto_terminate'') (Expr_Lit (Lit_Bool True))]"

definition worker_fsm :: ParsedFsm where
  "worker_fsm =
     \<lparr>pf_initial = ''idle'', pf_finals = [''off''],
      pf_transitions =
       [\<lparr>pt_from = ''idle'', pt_to = ''working'', pt_event = ''process'', pt_kind = Normal\<rparr>,
        \<lparr>pt_from = ''working'', pt_to = ''idle'', pt_event = ''complete'', pt_kind = Normal\<rparr>,
        \<lparr>pt_from = ''working'', pt_to = ''error'', pt_event = ''fail'', pt_kind = Normal\<rparr>,
        \<lparr>pt_from = ''error'', pt_to = ''idle'', pt_event = ''retry'', pt_kind = Normal\<rparr>,
        \<lparr>pt_from = ''idle'', pt_to = ''off'', pt_event = ''shutdown'', pt_kind = Normal\<rparr>,
        \<lparr>pt_from = ''off'', pt_to = terminal, pt_event = ''confirm'', pt_kind = Normal\<rparr>],
      pf_states = [''error'', ''idle'', ''off'', ''working'']\<rparr>"

datatype WorkerState = Ws_Error | Ws_Idle | Ws_Off | Ws_Working
datatype WorkerEvent = We_Complete | We_Confirm | We_Fail | We_Process | We_Retry | We_Shutdown

fun WorkerState_variant :: "WorkerState \<Rightarrow> string" where
  "WorkerState_variant Ws_Error = ''Error''"
| "WorkerState_variant Ws_Idle = ''Idle''"
| "WorkerState_variant Ws_Off = ''Off''"
| "WorkerState_variant Ws_Working = ''Working''"

fun WorkerEvent_variant :: "WorkerEvent \<Rightarrow> string" where
  "WorkerEvent_variant We_Complete = ''Complete''"
| "WorkerEvent_variant We_Confirm = ''Confirm''"
| "WorkerEvent_variant We_Fail = ''Fail''"
| "WorkerEvent_variant We_Process = ''Process''"
| "WorkerEvent_variant We_Retry = ''Retry''"
| "WorkerEvent_variant We_Shutdown = ''Shutdown''"

definition worker_graph :: "(WorkerState, WorkerEvent) TransitionGraph" where
  "worker_graph = TransitionGraph_new Ws_Idle {|Ws_Off|}
     [\<lparr>t_from = Ws_Idle, t_to = [Ws_Working], t_event = We_Process, t_kind = Normal\<rparr>,
      \<lparr>t_from = Ws_Working, t_to = [Ws_Idle], t_event = We_Complete, t_kind = Normal\<rparr>,
      \<lparr>t_from = Ws_Working, t_to = [Ws_Error], t_event = We_Fail, t_kind = Normal\<rparr>,
      \<lparr>t_from = Ws_Error, t_to = [Ws_Idle], t_event = We_Retry, t_kind = Normal\<rparr>,
      \<lparr>t_from = Ws_Idle, t_to = [Ws_Off], t_event = We_Shutdown, t_kind = Normal\<rparr>,
      \<lparr>t_from = Ws_Off, t_to = [Ws_Off], t_event = We_Confirm, t_kind = Normal\<rparr>]"

lemma worker_parsed: "parse_mermaid worker_text = Inr worker_fsm"
  by code_simp

lemma worker_valid: "macro_validate worker_fsm = Inr ()"
  by code_simp

lemma worker_generated:
  "gen_graph (generate worker_fsm cfg) = rename_graph WorkerState_variant WorkerEvent_variant worker_graph"
proof -
  have "build_graph worker_fsm = rename_graph WorkerState_variant WorkerEvent_variant worker_graph"
    by code_simp
  then show ?thesis by (simp add: generate_def)
qed

lemma worker_expands:
  assumes "parse_item item = Inr (''Worker'', input)" "parse_attrs attr = Inr worker_attrs"
  shows "finitomata parse_item parse_attrs base10_parse attr item =
    Inr (input, generate worker_fsm
      \<lparr>struct_name = ''Worker'', timer = None, auto_terminate = True, cache_state = True\<rparr>)"
  using assms worker_parsed worker_valid
  by (simp add: finitomata_def parse_finitomata_attrs_def worker_attrs_def attr_start_def
      attr_key_def expand_def)

subsection \<open>The callbacks\<close>

record WorkerPayload =
  task_name :: string
  attempts :: "32 word"
  completed :: "32 word"

datatype worker_line =
    Wl_Processing string "32 word"
  | Wl_Crash string
  | Wl_Completed string "32 word"
  | Wl_Failed string
  | Wl_Retrying string
  | Wl_ShuttingDown string
  | Wl_Entered string WorkerState
  | Wl_Started string
  | Wl_Terminated string "32 word" "32 word"

type_synonym 'm worker_world = "'m \<times> worker_line list \<times> 32 word"

text \<open>The callback with its panic: \<open>None\<close> is that it does not return.\<close>

definition Worker_callback :: "WorkerState \<Rightarrow> WorkerEvent \<Rightarrow> WorkerPayload \<Rightarrow>
    unit \<times> WorkerPayload \<times> 'm worker_world \<Rightarrow>
    (WorkerState, WorkerPayload) TransitionResult option \<times> unit \<times> WorkerPayload \<times> 'm worker_world" where
  "Worker_callback frm ev ep x =
     (case x of (f, p, m, out, counter) \<Rightarrow>
        (case ev of
           We_Process \<Rightarrow>
             (let p = p\<lparr>attempts := attempts p + 1\<rparr>;
                  out = out @ [Wl_Processing (task_name p) (attempts p)];
                  crash_count = counter;
                  counter = counter + 1
              in if crash_count = 1 then (None, f, p, m, out @ [Wl_Crash (task_name p)], counter)
                 else (Some (Ok Ws_Working), f, p, m, out, counter))
         | We_Complete \<Rightarrow>
             (let p = p\<lparr>completed := completed p + 1\<rparr>
              in (Some (Ok Ws_Idle), f, p, m, out @ [Wl_Completed (task_name p) (completed p)], counter))
         | We_Fail \<Rightarrow> (Some (Ok Ws_Error), f, p, m, out @ [Wl_Failed (task_name p)], counter)
         | We_Retry \<Rightarrow> (Some (Ok Ws_Idle), f, p, m, out @ [Wl_Retrying (task_name p)], counter)
         | We_Shutdown \<Rightarrow> (Some (Ok Ws_Off), f, p, m, out @ [Wl_ShuttingDown (task_name p)], counter)
         | We_Confirm \<Rightarrow> (Some (Ok Ws_Off), f, p, m, out, counter)))"

text \<open>
  The implementation for the engine. What it answers on a panic is never used: \<open>worker_handle\<close>
  runs the engine only when the callback returns.
\<close>

definition Worker :: "(unit, 'm worker_world, WorkerState, WorkerEvent, WorkerPayload) Finitomata" where
  "Worker =
     (default_callbacks
        (\<lambda>frm ev ep x. case Worker_callback frm ev ep x of
           (Some res, y) \<Rightarrow> (res, y) | (None, y) \<Rightarrow> (Error (err_on_transition ''simulated worker crash''), y))
        WorkerState_variant WorkerEvent_variant)
       \<lparr>on_enter := (\<lambda>s (f, p, m, out, c). (f, p, m, out @ [Wl_Entered (task_name p) s], c)),
        on_start := (\<lambda>(f, p, m, out, c). (f, p, m, out @ [Wl_Started (task_name p)], c)),
        on_terminate := (\<lambda>(f, p, m, out, c). (f, p, m, out @ [Wl_Terminated (task_name p) (attempts p) (completed p)], c))\<rparr>"

text \<open>
  A transition message of the worker: if its state answers the event and the callback panics, the
  actor is gone and the world is what the callback left (\<open>on_exit\<close> is the default, nothing runs
  before it); otherwise the handler runs.
\<close>

definition worker_handle :: "('c, WorkerState, WorkerPayload) cache_map \<Rightarrow> Pid \<Rightarrow> WorkerEvent \<Rightarrow> WorkerPayload \<Rightarrow>
    (unit, 'm worker_world, WorkerState, WorkerEvent, WorkerPayload) FsmActor \<Rightarrow> ('c, 'm worker_world) env \<Rightarrow>
    ('m worker_world + (unit, 'm worker_world, WorkerState, WorkerEvent, WorkerPayload) FsmActor \<times> ('c, 'm worker_world) env) option" where
  "worker_handle D pid ev ep a en =
     (case Worker_callback (current (fa_state a)) ev ep (fa_fsm a, payload (fa_state a), en_world en) of
        (res, f, p, w) \<Rightarrow>
          if responds (fa_graph a) (current (fa_state a)) ev \<and> res = None then Some (Inl w)
          else map_option Inr (handle_message Worker D pid (TransitionMsg ev ep) a en))"

abbreviation worker_backend :: "('m, string, (WorkerState, WorkerPayload) persisted) DashMap \<Rightarrow>
    ('m worker_world, WorkerState, WorkerPayload) Persistency" where
  "worker_backend S \<equiv> in_fst (InMemoryPersistency S)"

definition worker_supervisor :: "('m, string, (WorkerState, WorkerPayload) persisted) DashMap \<Rightarrow> ActorSystem \<Rightarrow>
    ('m worker_world, WorkerState, WorkerEvent, WorkerPayload) FinitomataSupervisor" where
  "worker_supervisor S sys =
     with_auto_terminate True (with_persistency (worker_backend S) (FinitomataSupervisor_new sys ''worker_sup'' worker_graph))"

lemma Worker_simps [simp]:
  "on_start Worker (f, p, m, out, c) = (f, p, m, out @ [Wl_Started (task_name p)], c)"
  "on_enter Worker s (f, p, m, out, c) = (f, p, m, out @ [Wl_Entered (task_name p) s], c)"
  "on_terminate Worker (f, p, m, out, c) = (f, p, m, out @ [Wl_Terminated (task_name p) (attempts p) (completed p)], c)"
  "on_exit Worker s x = x" "on_failure Worker e er x = x" "on_timer Worker s x = (None, x)"
  "on_transition Worker frm ev ep x = (case Worker_callback frm ev ep x of
     (Some res, y) \<Rightarrow> (res, y) | (None, y) \<Rightarrow> (Error (err_on_transition ''simulated worker crash''), y))"
  by (simp_all add: Worker_def default_callbacks_def)

lemma worker_graph_simps [simp]:
  "graph_inv worker_graph" "initial worker_graph = Ws_Idle" "finals worker_graph = {|Ws_Off|}"
  by (simp_all add: worker_graph_def graph_inv_new)

lemma worker_allowed [simp]:
  "allowed worker_graph Ws_Idle We_Process = Some ([Ws_Working], Normal)"
  "allowed worker_graph Ws_Working We_Complete = Some ([Ws_Idle], Normal)"
  by (simp_all add: worker_graph_def allowed_scan graph_inv_new)

lemma worker_responds [simp]: "responds worker_graph Ws_Idle We_Process" "responds worker_graph Ws_Working We_Complete"
  by (simp_all add: responds_def)

lemma worker_no_hard [simp]: "hard_event worker_graph s = None"
  by (simp add: hard_event_def events_for_scan) (simp add: worker_graph_def)

lemma worker_supervisor_simps [simp]:
  "sup_persistency (worker_supervisor S sys) = Some (worker_backend S)" "sup_graph (worker_supervisor S sys) = worker_graph"
  "sup_timer_interval (worker_supervisor S sys) = None" "sup_system (worker_supervisor S sys) = sys"
  "sup_auto_terminate (worker_supervisor S sys) = True" "sup_listener (worker_supervisor S sys) = None"
  by (simp_all add: worker_supervisor_def with_auto_terminate_def with_persistency_def FinitomataSupervisor_new_def)

subsection \<open>A restarted worker\<close>

definition restarted_worker :: "('m, string, (WorkerState, WorkerPayload) persisted) DashMap \<Rightarrow> ActorSystem \<Rightarrow> string \<Rightarrow>
    WorkerState \<Rightarrow> WorkerPayload \<Rightarrow> (unit, 'm worker_world, WorkerState, WorkerEvent, WorkerPayload) FsmActor" where
  "restarted_worker S sys nm s p =
     \<lparr>fa_fsm = (), fa_state = (FsmState_new nm s p)\<lparr>lifecycle := Running\<rparr>, fa_graph = worker_graph,
      fa_persistency = Some (worker_backend S), fa_listener = None, fa_auto_terminate = True,
      fa_timer_interval = None, fa_name = nm, fa_recover_on_start = True, fa_system = Some sys\<rparr>"

lemma worker_restarts:
  assumes "dm_get S m nm = Some (lc, s, p)"
  shows "started Worker D pid (supervised_child (worker_supervisor S sys) nm () p0)
      \<lparr>en_cache = c, en_world = (m, out, n), en_requests = []\<rparr> =
    Some (restarted_worker S sys nm s p,
      \<lparr>en_cache = StateCache_update D (fa_state (restarted_worker S sys nm s p)) c,
       en_world = (m, out @ [Wl_Started (task_name p), Wl_Entered (task_name p) s], n),
       en_requests = [ReqUnregister sys nm, ReqRegister sys nm pid]\<rparr>)"
  using assms
  by (simp add: started_def started_recover_def supervised_child_def recover_def Let_def actor_hook_def run_hook_def
      set_lifecycle_def restarted_worker_def FsmState_new_def env_request_def env_cache_update_def)

lemma worker_process:
  assumes "current (fa_state a) = Ws_Idle" "fa_graph a = worker_graph" "fa_persistency a = Some (worker_backend S)"
    and "fa_auto_terminate a" "fa_listener a = None" "n \<noteq> 1" "en_world en = (m, out, n)"
  shows "\<exists>a' en'. worker_handle D pid We_Process ep a en = Some (Inr (a', en')) \<and>
    fa_state a' = moved Transitioned Ws_Working ((payload (fa_state a))\<lparr>attempts := attempts (payload (fa_state a)) + 1\<rparr>) (fa_state a) \<and>
    same_config a a' \<and> fst (en_world en') = dm_insert S (name (fa_state a))
      (Running, Ws_Working, (payload (fa_state a))\<lparr>attempts := attempts (payload (fa_state a)) + 1\<rparr>) m \<and>
    snd (snd (en_world en')) = n + 1"
  using assms
  by (simp add: worker_handle_def Worker_callback_def Let_def handle_message_def do_transition_turn turn_def run_transit actor_ctx_def
      chain_next_def moved_def chain_end_def same_config_def)

lemma worker_complete:
  assumes "current (fa_state a) = Ws_Working" "fa_graph a = worker_graph" "fa_persistency a = Some (worker_backend S)"
    and "fa_auto_terminate a" "fa_listener a = None" "en_world en = (m, out, n)"
  shows "\<exists>a' en'. worker_handle D pid We_Complete ep a en = Some (Inr (a', en')) \<and>
    fa_state a' = moved Transitioned Ws_Idle ((payload (fa_state a))\<lparr>completed := completed (payload (fa_state a)) + 1\<rparr>) (fa_state a) \<and>
    same_config a a' \<and> fst (en_world en') = dm_insert S (name (fa_state a))
      (Running, Ws_Idle, (payload (fa_state a))\<lparr>completed := completed (payload (fa_state a)) + 1\<rparr>) m \<and>
    snd (snd (en_world en')) = n"
  using assms
  by (simp add: worker_handle_def Worker_callback_def Let_def handle_message_def do_transition_turn turn_def run_transit actor_ctx_def
      chain_next_def moved_def chain_end_def same_config_def)

text \<open>The second task crashes: the backend and the cache are as they were.\<close>

lemma worker_crashes:
  assumes "current (fa_state a) = Ws_Idle" "fa_graph a = worker_graph" "en_world en = (m, out, 1)"
  shows "\<exists>out'. worker_handle D pid We_Process ep a en = Some (Inl (m, out', 2))"
  using assms by (simp add: worker_handle_def Worker_callback_def Let_def)

text \<open>Whether a message was handled, or panicked; \<open>None\<close> is the other outcome.\<close>

definition handled :: "('x + 'y) option \<Rightarrow> 'y option" where
  "handled r = Option.bind r (case_sum (\<lambda>w. None) Some)"

definition panicked :: "('x + 'y) option \<Rightarrow> 'x option" where
  "panicked r = Option.bind r (case_sum Some (\<lambda>y. None))"

subsection \<open>The backend is an exact copy of the worker\<close>

definition worker_copied :: "('m, string, (WorkerState, WorkerPayload) persisted) DashMap \<Rightarrow> string \<Rightarrow>
    (unit, 'm worker_world, WorkerState, WorkerEvent, WorkerPayload) FsmActor \<Rightarrow> 'm worker_world \<Rightarrow> bool" where
  "worker_copied S nm a w \<longleftrightarrow>
     fa_graph a = worker_graph \<and> fa_persistency a = Some (worker_backend S) \<and> fa_listener a = None \<and> fa_auto_terminate a \<and>
     name (fa_state a) = nm \<and> (\<exists>lc. dm_get S (fst w) nm = Some (lc, current (fa_state a), payload (fa_state a)))"

lemma worker_moves:
  assumes "responds worker_graph s ev"
  shows "\<exists>t. allowed worker_graph s ev = Some ([t], Normal) \<and>
    (\<forall>ep x. fst (Worker_callback s ev ep x) \<in> {Some (Ok t), None})"
proof -
  have al: "allowed worker_graph Ws_Idle We_Process = Some ([Ws_Working], Normal)"
    "allowed worker_graph Ws_Working We_Complete = Some ([Ws_Idle], Normal)"
    "allowed worker_graph Ws_Working We_Fail = Some ([Ws_Error], Normal)"
    "allowed worker_graph Ws_Error We_Retry = Some ([Ws_Idle], Normal)"
    "allowed worker_graph Ws_Idle We_Shutdown = Some ([Ws_Off], Normal)"
    "allowed worker_graph Ws_Off We_Confirm = Some ([Ws_Off], Normal)"
    by (simp_all add: allowed_scan) (simp_all add: worker_graph_def)
  have "(s, ev) \<in> {(Ws_Idle, We_Process), (Ws_Working, We_Complete), (Ws_Working, We_Fail), (Ws_Error, We_Retry),
    (Ws_Idle, We_Shutdown), (Ws_Off, We_Confirm)}"
    using assms by (auto simp: responds_def allowed_scan dest!: find_SomeD) (auto simp: worker_graph_def)
  then show ?thesis
    by (auto simp: al Worker_callback_def Let_def split: prod.split)
qed

lemma worker_callback_world: "Worker_callback s ev ep (f, p, w) = (res, f', p', w') \<Longrightarrow> fst w' = fst w"
  by (cases w; cases ev) (auto simp: Worker_callback_def Let_def split: if_splits)

lemma worker_panic_keeps:
  assumes "worker_handle D pid ev ep a en = Some (Inl w)"
  shows "fst w = fst (en_world en)"
  using assms worker_callback_world [of "current (fa_state a)" ev ep "fa_fsm a" "payload (fa_state a)" "en_world en"]
  by (auto simp: worker_handle_def split: prod.splits if_splits)


text \<open>A handled message: the engine's run of \<open>Worker\<close> is one in which the callback returns.\<close>

lemma worker_handled_copied:
  assumes S: "dash_map S" and h: "worker_handle D pid ev ep a en = Some (Inr (b, en'))"
    and inv: "worker_copied S nm a (en_world en)"
  shows "worker_copied S nm b (en_world en') \<and> same_config a b"
proof -
  let ?s = "current (fa_state a)"
  have g: "fa_graph a = worker_graph" "fa_persistency a = Some (worker_backend S)" "fa_listener a = None"
    "fa_auto_terminate a" "name (fa_state a) = nm" using inv by (simp_all add: worker_copied_def)
  from h have run: "do_transition Worker D a ev ep en = Some (b, en')"
    by (auto simp: worker_handle_def handle_message_def split: prod.splits if_splits)
  show ?thesis
  proof (cases "allowed worker_graph ?s ev")
    case None
    with run g inv show ?thesis
      by (auto simp: do_transition_turn turn_def transit_def chain_next_def chain_end_def actor_ctx_def
          worker_copied_def same_config_def split: if_splits)
  next
    case (Some x)
    then have r: "responds worker_graph ?s ev" by (simp add: responds_def)
    from worker_moves [OF this] obtain t where t: "allowed worker_graph ?s ev = Some ([t], Normal)"
      and cb: "fst (Worker_callback ?s ev ep (fa_fsm a, payload (fa_state a), en_world en)) \<in> {Some (Ok t), None}"
      by blast
    obtain res f p m out c where
      w: "Worker_callback ?s ev ep (fa_fsm a, payload (fa_state a), en_world en) = (res, f, p, m, out, c)"
      by (metis prod_cases5 prod.collapse)
    with h r g have "res \<noteq> None" by (auto simp: worker_handle_def split: if_splits)
    with cb w have res: "res = Some (Ok t)" by auto
    with run t w g inv show ?thesis
      by (cases "t = Ws_Off")
        (auto simp: do_transition_turn turn_def run_transit chain_next_def chain_end_def actor_ctx_def
          worker_copied_def same_config_def dash_map.get_insert [OF S])
  qed
qed


text \<open>The messages an incarnation of the worker handles before it panics.\<close>

fun worker_script :: "('c, WorkerState, WorkerPayload) cache_map \<Rightarrow> Pid \<Rightarrow> (WorkerEvent \<times> WorkerPayload) list \<Rightarrow>
    (unit, 'm worker_world, WorkerState, WorkerEvent, WorkerPayload) FsmActor \<Rightarrow> ('c, 'm worker_world) env \<Rightarrow>
    ((unit, 'm worker_world, WorkerState, WorkerEvent, WorkerPayload) FsmActor \<times> ('c, 'm worker_world) env) option" where
  "worker_script D pid [] a en = Some (a, en)"
| "worker_script D pid ((ev, ep) # msgs) a en =
     Option.bind (handled (worker_handle D pid ev ep a en)) (\<lambda>(a, en). worker_script D pid msgs a en)"

lemma handled_Some: "handled r = Some y \<longleftrightarrow> r = Some (Inr y)"
  by (cases r; cases "the r") (auto simp: handled_def)

lemma worker_script_copied:
  assumes S: "dash_map S"
  shows "worker_script D pid msgs a en = Some (b, en') \<Longrightarrow> worker_copied S nm a (en_world en) \<Longrightarrow>
    worker_copied S nm b (en_world en')"
proof (induction D pid msgs a en rule: worker_script.induct)
  case (2 D pid ev ep msgs a en)
  from "2.prems"(1) obtain a1 en1 where h: "worker_handle D pid ev ep a en = Some (Inr (a1, en1))"
    and r: "worker_script D pid msgs a1 en1 = Some (b, en')"
    by (auto simp: bind_eq_Some_conv handled_Some)
  from "2.IH" [OF _ _ r] h worker_handled_copied [OF S h "2.prems"(2)] show ?case by (simp add: handled_Some)
qed simp

lemma worker_resumes:
  assumes S: "dash_map S" and st: "dm_get S (fst (en_world en)) nm = Some (lc, s, p)"
    and run: "worker_script D pid msgs (restarted_worker S sys nm s p) en = Some (b, en1)"
    and crash: "worker_handle D pid ev ep b en1 = Some (Inl w)"
  shows "\<exists>out n. started Worker D pid' (supervised_child (worker_supervisor S sys) nm () p0)
      \<lparr>en_cache = c, en_world = w, en_requests = []\<rparr> =
    Some (restarted_worker S sys nm (current (fa_state b)) (payload (fa_state b)),
      \<lparr>en_cache = StateCache_update D (fa_state (restarted_worker S sys nm (current (fa_state b)) (payload (fa_state b)))) c,
       en_world = (fst w, out, n), en_requests = [ReqUnregister sys nm, ReqRegister sys nm pid']\<rparr>)"
proof -
  have "worker_copied S nm (restarted_worker S sys nm s p) (en_world en)"
    using st by (simp add: worker_copied_def restarted_worker_def FsmState_new_def)
  from worker_script_copied [OF S run this] worker_panic_keeps [OF crash] obtain lc' where
    "dm_get S (fst w) nm = Some (lc', current (fa_state b), payload (fa_state b))"
    by (auto simp: worker_copied_def)
  with worker_restarts [of S "fst w" nm lc' "current (fa_state b)" "payload (fa_state b)" D pid' sys p0 c "fst (snd w)" "snd (snd w)"]
  show ?thesis by (metis prod.collapse)
qed

subsection \<open>The run of main\<close>

definition worker_payload :: WorkerPayload where
  "worker_payload = \<lparr>task_name = ''data-pipeline'', attempts = 0, completed = 0\<rparr>"

definition worker_event_payload :: WorkerPayload where
  "worker_event_payload = \<lparr>task_name = [], attempts = 0, completed = 0\<rparr>"

text \<open>
  The first task runs and completes, the second panics, the supervisor starts the child again from
  its factory over the same cache and backend, and the third task runs.
\<close>

definition worker_main :: "('m, string, (WorkerState, WorkerPayload) persisted) DashMap \<Rightarrow>
    ('c, WorkerState, WorkerPayload) cache_map \<Rightarrow> ActorSystem \<Rightarrow> Pid \<Rightarrow> Pid \<Rightarrow>
    ((unit, 'm worker_world, WorkerState, WorkerEvent, WorkerPayload) FsmActor \<times> ('c, 'm worker_world) env) option" where
  "worker_main S D sys pid pid' =
     (let sv = worker_supervisor S sys;
          w = ensure_stored sv ''worker_1'' worker_payload (InMemoryPersistency_new S, [], 0);
          child = supervised_child sv ''worker_1'' () worker_payload
      in Option.bind (started Worker D pid child \<lparr>en_cache = StateCache_new D, en_world = w, en_requests = []\<rparr>)
           (\<lambda>(a, en). Option.bind (handled (worker_handle D pid We_Process worker_event_payload a en))
           (\<lambda>(a, en). Option.bind (handled (worker_handle D pid We_Complete worker_event_payload a en))
           (\<lambda>(a, en). Option.bind (panicked (worker_handle D pid We_Process worker_event_payload a en))
           (\<lambda>w. Option.bind (started Worker D pid' child \<lparr>en_cache = en_cache en, en_world = w, en_requests = []\<rparr>)
           (\<lambda>(a, en). handled (worker_handle D pid' We_Process worker_event_payload a en)))))))"

lemma worker_main_run:
  assumes S: "dash_map S"
  shows "\<exists>a en. worker_main S D sys pid pid' = Some (a, en) \<and> current (fa_state a) = Ws_Working \<and>
     lifecycle (fa_state a) = Running \<and>
     payload (fa_state a) = \<lparr>task_name = ''data-pipeline'', attempts = 2, completed = 1\<rparr> \<and>
     snd (snd (en_world en)) = 3"
  by (simp add: worker_main_def ensure_stored_def InMemoryPersistency_new_def dash_map.get_new [OF S]
      dash_map.get_insert [OF S] worker_restarts restarted_worker_def FsmState_new_def handled_def panicked_def
      worker_handle_def Worker_callback_def Let_def handle_message_def do_transition_turn turn_def run_transit
      actor_ctx_def chain_next_def chain_end_def worker_payload_def)

end
