(* ===== verification/Props_Examples.thy ===== *)
theory Props_Examples
  imports Ex_Order Ex_Document Ex_Worker
begin

section \<open>Properties of the examples\<close>

text \<open>
  What the machines of \<open>finitomata/examples\<close> do when they run on the library: a whole life of their
  actor, with any messages in any order, and the runs of their \<open>main\<close>, which are the witnesses.
\<close>

subsection \<open>The turnstile\<close>

text \<open>
  C37: over any life of a turnstile the totals of the payload are the counters of the struct, the
  coins count the lines \<open>entered state: unlocked\<close> of the output and the pushes all but the first of
  the lines \<open>entered state: locked\<close>, modulo 2 to the 32, and nobody pushes through without a coin.
  The graph it runs on is the one the macro generates from its attribute.
\<close>

theorem turnstile_counts:
  assumes "start_actor D Turnstile (turnstile_supervisor sys) nm Turnstile_default turnstile_payload
      (sup_env_new D' [] j) = (a0, cache, out0)"
    and "life Turnstile D pid a0 \<lparr>en_cache = cache, en_world = out0, en_requests = []\<rparr> d a en"
  shows "coins (fa_fsm a) = total_coins (payload (fa_state a)) \<and> pushes (fa_fsm a) = total_pushes (payload (fa_state a)) \<and>
    coins (fa_fsm a) = of_nat (times_entered Ts_Unlocked (en_world en)) \<and>
    pushes (fa_fsm a) + 1 = of_nat (times_entered Ts_Locked (en_world en)) \<and>
    times_entered Ts_Locked (en_world en) \<le> times_entered Ts_Unlocked (en_world en) + 1 \<and>
    (\<exists>fsm. parse_mermaid turnstile_text = Inr fsm \<and>
       build_graph fsm = rename_graph TurnstileState_variant TurnstileEvent_variant (fa_graph a))"
proof -
  note a0 = turnstile_actor [OF assms(1)]
  have "turnstile.holds a0 \<lparr>en_cache = cache, en_world = out0, en_requests = []\<rparr>"
    by (simp add: turnstile.holds_def turnstile.configured_def turnstile_inv_def a0 FsmState_new_def
        Turnstile_default_def turnstile_payload_def sup_env_new_def)
  from turnstile.life_keeps [OF assms(2) this] have "turnstile.holds a en"
    by (simp add: a0 FsmState_new_def is_final_def)
  then have "turnstile_inv (fa_fsm a) (fa_state a) (en_world en)" "fa_graph a = turnstile_graph"
    by (simp_all add: turnstile.holds_def turnstile.configured_def)
  with turnstile_parsed turnstile_generated(1) show ?thesis
    by (auto simp: turnstile_inv_def generate_def split: if_splits)
qed

lemma turnstile_main_life:
  assumes "turnstile_main D sys pid = Some (a, en)"
  obtains a0 cache out0 where
    "start_actor D Turnstile (turnstile_supervisor sys) ''gate_1'' Turnstile_default turnstile_payload
      (sup_env_new D [] ()) = (a0, cache, out0)"
    "life Turnstile D pid a0 \<lparr>en_cache = cache, en_world = out0, en_requests = []\<rparr> False a en"
  using assms by (auto simp: turnstile_main_def bind_eq_Some_conv simp del: deliver.simps dest: script_life split: prod.splits)

theorem turnstile_counts_witness:
  "\<exists>a en. turnstile_main fmap_dash_map 0 1 = Some (a, en) \<and> coins (fa_fsm a) = 1 \<and>
     times_entered Ts_Locked (en_world en) = 2"
proof -
  obtain a en where m: "turnstile_main fmap_dash_map 0 1 = Some (a, en)"
    "payload (fa_state a) = \<lparr>total_coins = 1, total_pushes = 1\<rparr>"
    "en_world en = [Ts_Entered Ts_Locked, Ts_Exiting Ts_Locked, Ts_Entered Ts_Unlocked, Ts_Exiting Ts_Unlocked,
       Ts_Entered Ts_Locked, Ts_Exiting Ts_Locked, Ts_Entered Ts_Off, Ts_ShuttingDown 1 1]"
    using turnstile_main_run [of fmap_dash_map 0 1] by blast
  from turnstile_main_life [OF m(1)] obtain a0 cache out0 where
    "start_actor fmap_dash_map Turnstile (turnstile_supervisor 0) ''gate_1'' Turnstile_default turnstile_payload
      (sup_env_new fmap_dash_map [] ()) = (a0, cache, out0)"
    "life Turnstile fmap_dash_map 1 a0 \<lparr>en_cache = cache, en_world = out0, en_requests = []\<rparr> False a en"
    by blast
  from turnstile_counts [OF this] m show ?thesis by simp
qed

subsection \<open>The order\<close>

text \<open>
  C38: over any life of an order its notes are an audit trail: they are the notes it started with
  and then one note for each transition of a path of the graph from \<open>pending\<close> to the state it is
  in, each with the state it left and the event; nothing else of the payload ever changes, and the
  retry counter counts the timer ticks of the output, modulo 2 to the 32.
\<close>

theorem order_audit_trail:
  assumes "start_actor D OrderWorkflow (order_supervisor sys) nm OrderWorkflow_default p0
      (sup_env_new D' [] j) = (a0, cache, out0)"
    and "life OrderWorkflow D pid a0 \<lparr>en_cache = cache, en_world = out0, en_requests = []\<rparr> d a en"
  shows "(\<exists>p. graph_path order_graph Os_Pending p (current (fa_state a)) \<and>
      payload (fa_state a) = p0\<lparr>order_notes := order_notes p0 @ audit Os_Pending p\<rparr>) \<and>
    retry_count (fa_fsm a) = of_nat (ticks (en_world en)) \<and>
    (\<exists>fsm. parse_mermaid order_text = Inr fsm \<and>
       build_graph fsm = rename_graph OrderState_variant OrderEvent_variant (fa_graph a))"
proof -
  note a0 = order_actor [OF assms(1)]
  have "order.holds p0 a0 \<lparr>en_cache = cache, en_world = out0, en_requests = []\<rparr>"
    by (auto simp: order.holds_def order.configured_def order_inv_def a0 FsmState_new_def
        OrderWorkflow_default_def sup_env_new_def intro!: exI [of _ "[]"])
  from order.life_keeps [OF assms(2) this] have "order.holds p0 a en"
    by (simp add: a0 FsmState_new_def is_final_def)
  then have "order_inv p0 (fa_fsm a) (fa_state a) (en_world en)" "fa_graph a = order_graph"
    by (simp_all add: order.holds_def order.configured_def)
  with order_parsed order_generated show ?thesis by (auto simp: order_inv_def generate_def)
qed

lemma order_main_life:
  assumes "order_main D price sys pid n = Some (a, en)"
  obtains a0 cache out0 where
    "start_actor D OrderWorkflow (order_supervisor sys) ''order_1'' OrderWorkflow_default
      \<lparr>order_id = ''ORD-001'', customer = ''Acme Corp'', amount = price, order_notes = []\<rparr>
      (sup_env_new D [] ()) = (a0, cache, out0)"
    "life OrderWorkflow D pid a0 \<lparr>en_cache = cache, en_world = out0, en_requests = []\<rparr> False a en"
  using assms by (auto simp: order_main_def bind_eq_Some_conv simp del: deliver.simps dest: script_life split: prod.splits)

theorem order_audit_trail_witness:
  "\<exists>a en p. order_main fmap_dash_map (1250::nat) 0 1 2 = Some (a, en) \<and>
     graph_path order_graph Os_Pending p Os_Shipped \<and> order_notes (payload (fa_state a)) = audit Os_Pending p"
proof -
  obtain a en where m: "order_main fmap_dash_map (1250::nat) 0 1 2 = Some (a, en)" "current (fa_state a) = Os_Shipped"
    using order_main_run [of fmap_dash_map "1250::nat" 0 1 2] by auto
  from order_main_life [OF m(1)] obtain a0 cache out0 where
    "start_actor fmap_dash_map OrderWorkflow (order_supervisor 0) ''order_1'' OrderWorkflow_default
      \<lparr>order_id = ''ORD-001'', customer = ''Acme Corp'', amount = 1250::nat, order_notes = []\<rparr>
      (sup_env_new fmap_dash_map [] ()) = (a0, cache, out0)"
    "life OrderWorkflow fmap_dash_map 1 a0 \<lparr>en_cache = cache, en_world = out0, en_requests = []\<rparr> False a en"
    by blast
  from order_audit_trail [OF this] m show ?thesis by auto
qed

text \<open>
  The run of the example's \<open>main\<close>, for any number of ticks: the hard event confirms the order
  at once, the second tick ships it, no later tick does anything but count, and the order stays
  \<open>Running\<close> in \<open>shipped\<close>.
\<close>

lemma order_main_ships:
  "\<exists>a en. order_main D price sys pid n = Some (a, en) \<and>
     current (fa_state a) = (if n < 2 then Os_Confirmed else Os_Shipped) \<and> lifecycle (fa_state a) = Running \<and>
     order_notes (payload (fa_state a)) =
       order_note Os_Pending Oe_Confirm # (if n < 2 then [] else [order_note Os_Confirmed Oe_Ship]) \<and>
     retry_count (fa_fsm a) = of_nat n"
  using order_main_run .

subsection \<open>The document\<close>


lemma document_main_life:
  assumes "document_main S D sys pid = Some (a, en)"
  obtains a0 cache w0 where
    "start_actor D Document (document_supervisor S sys) ''doc_1'' () document_payload
      (sup_env_new D (InMemoryPersistency_new S, []) ()) = (a0, cache, w0)"
    "life Document D pid a0 \<lparr>en_cache = cache, en_world = w0, en_requests = []\<rparr> False a en"
  using assms by (auto simp: document_main_def bind_eq_Some_conv simp del: deliver.simps dest: script_life split: prod.splits)


subsection \<open>The worker\<close>

text \<open>
  C40: a panic loses the interrupted task and nothing else: an incarnation of the worker that came
  up from the backend handles any messages and then panics in its callback; the child that is
  started again from the factory, over whatever the cache holds then, comes up \<open>Running\<close> in the state
  and with the payload of the last completed transition, and the backend is as it was before the
  panic.
\<close>

theorem worker_recovers:
  assumes "dash_map S" "dm_get S (fst (en_world en)) nm = Some (lc, s, p)"
    and "worker_script D pid msgs (restarted_worker S sys nm s p) en = Some (b, en1)"
    and "worker_handle D pid ev ep b en1 = Some (Inl w)"
  shows "\<exists>a' en'. started Worker D pid' (supervised_child (worker_supervisor S sys) nm () p0)
      \<lparr>en_cache = c, en_world = w, en_requests = []\<rparr> = Some (a', en') \<and>
    current (fa_state a') = current (fa_state b) \<and> payload (fa_state a') = payload (fa_state b) \<and>
    lifecycle (fa_state a') = Running \<and> fst (en_world en') = fst (en_world en1)"
proof -
  from worker_resumes [OF assms, of pid' p0 c] obtain out n where
    run: "started Worker D pid' (supervised_child (worker_supervisor S sys) nm () p0)
      \<lparr>en_cache = c, en_world = w, en_requests = []\<rparr> =
    Some (restarted_worker S sys nm (current (fa_state b)) (payload (fa_state b)),
      \<lparr>en_cache = StateCache_update D (fa_state (restarted_worker S sys nm (current (fa_state b)) (payload (fa_state b)))) c,
       en_world = (fst w, out, n), en_requests = [ReqUnregister sys nm, ReqRegister sys nm pid']\<rparr>)"
    by blast
  show ?thesis
    unfolding run using worker_panic_keeps [OF assms(4)] by (simp add: restarted_worker_def FsmState_new_def)
qed

text \<open>The run of \<open>main\<close>: the second task panics, the state after the first is recovered.\<close>

theorem worker_recovers_witness:
  "\<exists>b en1 w a' en'. worker_script fmap_dash_map 1 [(We_Process, worker_event_payload), (We_Complete, worker_event_payload)]
      (restarted_worker fmap_dash_map 0 ''worker_1'' Ws_Idle worker_payload)
      \<lparr>en_cache = fmempty, en_world = (fmupd ''worker_1'' (Running, Ws_Idle, worker_payload) fmempty, [], 0),
       en_requests = []\<rparr> = Some (b, en1) \<and>
    worker_handle fmap_dash_map 1 We_Process worker_event_payload b en1 = Some (Inl w) \<and>
    started Worker fmap_dash_map 2 (supervised_child (worker_supervisor fmap_dash_map 0) ''worker_1'' () worker_payload)
      \<lparr>en_cache = fmempty, en_world = w, en_requests = []\<rparr> = Some (a', en') \<and>
    current (fa_state a') = Ws_Idle \<and> completed (payload (fa_state a')) = 1"
proof -
  let ?en = "\<lparr>en_cache = fmempty, en_world = (fmupd ''worker_1'' (Running, Ws_Idle, worker_payload) fmempty, [], 0),
       en_requests = []\<rparr>"
  let ?a = "restarted_worker fmap_dash_map 0 ''worker_1'' Ws_Idle worker_payload"
  obtain b en1 m out where
    b: "worker_script fmap_dash_map 1 [(We_Process, worker_event_payload), (We_Complete, worker_event_payload)] ?a ?en = Some (b, en1)"
    and st: "current (fa_state b) = Ws_Idle" "fa_graph b = worker_graph" "completed (payload (fa_state b)) = 1"
    and w: "en_world en1 = (m, out, 1)"
    by (simp add: worker_handle_def Worker_callback_def Let_def handle_message_def do_transition_turn turn_def run_transit
        actor_ctx_def chain_next_def chain_end_def restarted_worker_def FsmState_new_def worker_payload_def handled_def)
  from worker_crashes [OF st(1,2) w] obtain out' where
    crash: "worker_handle fmap_dash_map 1 We_Process worker_event_payload b en1 = Some (Inl (m, out', 2))" by blast
  have "dm_get fmap_dash_map (fst (en_world ?en)) ''worker_1'' = Some (Running, Ws_Idle, worker_payload)"
    by (simp add: fmap_dash_map_def)
  from worker_recovers [OF fmap_dm.dash_map_axioms this b crash, of 2 worker_payload fmempty] b crash st
  show ?thesis by auto
qed

end
