(* ===== verification/Fsm_Tests.thy ===== *)
theory Fsm_Tests
  imports Fsm_Render Fsm_Search Fsm_Example Fsm_Timer
begin

section \<open>The unit tests of the crate, on the model\<close>

text \<open>
  The tests in the files of \<open>finitomata/src\<close>, each as a definition that computes whether its
  assertions hold of the model, and the lemma that they do. They show that the definitions of the
  other theories agree with the code where its authors wrote down what they expect. The tests of
  \<open>timer.rs\<close> depend on the scheduling of \<open>tokio\<close>: each is on the run that is on time.
\<close>

definition is_ok :: "'e + 'a \<Rightarrow> bool" where
  "is_ok r = (case r of Inl e \<Rightarrow> False | Inr x \<Rightarrow> True)"

text \<open>\<open>xs[i]\<close>, which panics out of range: then no assertion about it holds.\<close>

definition at :: "'a list \<Rightarrow> nat \<Rightarrow> ('a \<Rightarrow> bool) \<Rightarrow> bool" where
  "at xs i P \<longleftrightarrow> i < length xs \<and> P (xs ! i)"

text \<open>What a parse yields: \<open>unwrap\<close> panics on an error.\<close>

definition unwrapped :: "'e + 'a \<Rightarrow> ('a \<Rightarrow> bool) \<Rightarrow> bool" where
  "unwrapped r P = (case r of Inl e \<Rightarrow> False | Inr x \<Rightarrow> P x)"

subsection \<open>transition.rs\<close>

definition test_basic_graph :: bool where
  "test_basic_graph =
     (let graph = TransitionGraph_new ''idle'' {|''done''|}
        [\<lparr>t_from = ''idle'', t_to = [''running''], t_event = ''start'', t_kind = Normal\<rparr>,
         \<lparr>t_from = ''running'', t_to = [''done''], t_event = ''finish'', t_kind = Normal\<rparr>]
      in initial graph = ''idle'' \<and> is_final graph ''done'' \<and> responds graph ''idle'' ''start'' \<and>
         \<not> responds graph ''idle'' ''finish'' \<and> is_ok (validate (\<lambda>s. s) graph))"

definition test_shortest_path :: bool where
  "test_shortest_path =
     (let graph = TransitionGraph_new ''a'' {|''c''|}
        [\<lparr>t_from = ''a'', t_to = [''b''], t_event = ''go'', t_kind = Normal\<rparr>,
         \<lparr>t_from = ''b'', t_to = [''c''], t_event = ''end'', t_kind = Normal\<rparr>]
      in shortest_path graph ''a'' ''c'' = Some [(''go'', ''b''), (''end'', ''c'')])"

definition test_unreachable_state :: bool where
  "test_unreachable_state =
     (let graph = TransitionGraph_new ''a'' {|''c''|}
        [\<lparr>t_from = ''a'', t_to = [''b''], t_event = ''go'', t_kind = Normal\<rparr>,
         \<lparr>t_from = ''c'', t_to = [''a''], t_event = ''loop'', t_kind = Normal\<rparr>]
      in case validate (\<lambda>s. s) graph of
           Inr u \<Rightarrow> False
         | Inl errors \<Rightarrow> list_ex (\<lambda>e. case e of UnreachableState s \<Rightarrow> True | _ \<Rightarrow> False) errors)"

definition test_no_final_state :: bool where
  "test_no_final_state =
     (let graph = TransitionGraph_new ''a'' {||}
        [\<lparr>t_from = ''a'', t_to = [''b''], t_event = ''go'', t_kind = Normal\<rparr>]
      in case validate (\<lambda>s. s) graph of
           Inr u \<Rightarrow> False
         | Inl errors \<Rightarrow> list_ex (\<lambda>e. case e of NoFinalState \<Rightarrow> True | _ \<Rightarrow> False) errors)"

lemma transition_tests: "test_basic_graph" "test_shortest_path" "test_unreachable_state" "test_no_final_state"
  by code_simp+

subsection \<open>state.rs\<close>

definition test_bounded_history_collapses_repeats :: bool where
  "test_bounded_history_collapses_repeats =
     (let history = BoundedHistory_new 10;
          history = BoundedHistory_push history ''idle'';
          history = BoundedHistory_push history ''idle'';
          history = BoundedHistory_push history ''idle''
      in BoundedHistory_len history = 1 \<and>
         (case BoundedHistory_last history of None \<Rightarrow> False | Some e \<Rightarrow> he_count e = 3))"

definition test_bounded_history_distinct_entries :: bool where
  "test_bounded_history_distinct_entries =
     (let history = BoundedHistory_new 10;
          history = BoundedHistory_push history ''idle'';
          history = BoundedHistory_push history ''running'';
          history = BoundedHistory_push history ''idle''
      in BoundedHistory_len history = 3)"

definition test_bounded_history_eviction :: bool where
  "test_bounded_history_eviction =
     (let history = BoundedHistory_new 3;
          history = BoundedHistory_push history ''a'';
          history = BoundedHistory_push history ''b'';
          history = BoundedHistory_push history ''c'';
          history = BoundedHistory_push history ''d''
      in BoundedHistory_len history = 3 \<and> at (entries history) 0 (\<lambda>e. he_state e = ''b''))"

definition test_fsm_state_new :: bool where
  "test_fsm_state_new =
     (let state = FsmState_new ''test'' ''idle'' (0 :: 32 word)
      in current state = ''idle'' \<and> payload state = 0 \<and> lifecycle state = Created \<and> last_error state = None)"

lemma state_tests:
  "test_bounded_history_collapses_repeats" "test_bounded_history_distinct_entries"
  "test_bounded_history_eviction" "test_fsm_state_new"
  by code_simp+

subsection \<open>engine.rs\<close>

definition test_basic_transition :: bool where
  "test_basic_transition =
     (let state = FsmState_new ''test'' StIdle 0;
          ctx = \<lparr>tc_persistency = None, tc_listener = None, tc_auto_terminate = False\<rparr>
      in case transit TestFsm () test_graph state EvStart 0 ctx () of (result, fsm, state, w) \<Rightarrow>
           is_ok result \<and> current state = StRunning \<and> payload state = 1)"

definition test_invalid_event :: bool where
  "test_invalid_event =
     (let state = FsmState_new ''test'' StIdle 0;
          ctx = \<lparr>tc_persistency = None, tc_listener = None, tc_auto_terminate = False\<rparr>
      in case transit TestFsm () test_graph state EvFinish 0 ctx () of (result, fsm, state, w) \<Rightarrow>
           \<not> is_ok result \<and> current state = StIdle)"

definition test_auto_terminate :: bool where
  "test_auto_terminate =
     (let state = FsmState_new ''test'' StRunning 0;
          ctx = \<lparr>tc_persistency = None, tc_listener = None, tc_auto_terminate = True\<rparr>
      in case transit TestFsm () test_graph state EvFinish 0 ctx () of (result, fsm, state, w) \<Rightarrow>
           result = Inr AutoTerminate \<and> lifecycle state = Terminated)"

lemma engine_tests: "test_basic_transition" "test_invalid_event" "test_auto_terminate"
  by (simp_all add: test_basic_transition_def test_invalid_event_def test_auto_terminate_def is_ok_def
      transit_def transit_target_def transit_commit_def run_hook_def Let_def clear_error_def transition_to_def
      is_final_def FsmState_new_def test_graph_transitions)

subsection \<open>persistency/memory.rs\<close>

datatype memory_S = MemA | MemB
datatype memory_E = MemGo

type_synonym memory_P = "32 word"

definition memory_TestFsm :: "(unit, 'w, memory_S, memory_E, memory_P) Finitomata" where
  "memory_TestFsm = default_callbacks (\<lambda>frm ev ep x. (Ok MemB, x))
     (\<lambda>s. case s of MemA \<Rightarrow> ''A'' | MemB \<Rightarrow> ''B'') (\<lambda>e. ''Go'')"

definition test_store_and_load :: "('m, string, (memory_S, memory_P) persisted) DashMap \<Rightarrow> bool" where
  "test_store_and_load D =
     (case store (InMemoryPersistency D) ''fsm1'' MemA 42 (InMemoryPersistency_new D) of (stored, persist) \<Rightarrow>
        is_ok stored \<and>
        (case load (InMemoryPersistency D) ''fsm1'' persist of
           (Inr (Some (lc, s, p)), persist) \<Rightarrow> s = MemA \<and> p = 42
         | (_, persist) \<Rightarrow> False))"

definition test_load_missing :: "('m, string, (memory_S, memory_P) persisted) DashMap \<Rightarrow> bool" where
  "test_load_missing D =
     (case load (InMemoryPersistency D) ''missing'' (InMemoryPersistency_new D) of
        (loaded, persist) \<Rightarrow> unwrapped loaded (\<lambda>l. l = None))"

lemma memory_tests:
  assumes "dash_map D"
  shows "test_store_and_load D" "test_load_missing D"
  using dash_map.get_new [OF assms] dash_map.get_insert [OF assms]
  by (simp_all add: test_store_and_load_def test_load_missing_def is_ok_def unwrapped_def
      InMemoryPersistency_def InMemoryPersistency_new_def)

subsection \<open>The parsers\<close>

text \<open>A raw string literal of a test: its lines, indented by twelve blanks.\<close>

definition raw_lines :: "string list \<Rightarrow> string" where
  "raw_lines ls = concat (map (\<lambda>l. newline # replicate 12 (CHR '' '') @ l) ls) @ newline # replicate 8 (CHR '' '')"

definition quoted :: "string \<Rightarrow> string" where
  "quoted s = CHR 0x22 # s @ [CHR 0x22]"

definition test_flowchart_basic :: bool where
  "test_flowchart_basic =
     unwrapped (MermaidParser_parse (raw_lines
       [''[*] --> idle'', ''idle --> |start| running'', ''running --> |stop| idle'', ''idle --> |shutdown| [*]'']))
     (\<lambda>fsm. pf_initial fsm = ''idle'' \<and> pf_finals fsm = [''idle''] \<and> length (pf_transitions fsm) = 3 \<and>
        at (pf_transitions fsm) 0 (\<lambda>t. pt_event t = ''start''))"

definition test_hard_and_soft_events :: bool where
  "test_hard_and_soft_events =
     unwrapped (MermaidParser_parse (raw_lines
       [''[*] --> s1'', ''s1 --> |go!| s2'', ''s2 --> |try?| s3'', ''s3 --> |end| [*]'']))
     (\<lambda>fsm. at (pf_transitions fsm) 0 (\<lambda>t. pt_kind t = Hard) \<and> at (pf_transitions fsm) 0 (\<lambda>t. pt_event t = ''go'') \<and>
        at (pf_transitions fsm) 1 (\<lambda>t. pt_kind t = Soft) \<and> at (pf_transitions fsm) 1 (\<lambda>t. pt_event t = ''try'') \<and>
        at (pf_transitions fsm) 2 (\<lambda>t. pt_kind t = Normal))"

definition test_state_diagram_syntax :: bool where
  "test_state_diagram_syntax =
     unwrapped (MermaidParser_parse (raw_lines
       [''[*] --> idle'', ''idle --> running : start'', ''running --> idle : stop'', ''idle --> [*] : shutdown'']))
     (\<lambda>fsm. pf_initial fsm = ''idle'' \<and> length (pf_transitions fsm) = 3 \<and>
        at (pf_transitions fsm) 0 (\<lambda>t. pt_from t = ''idle'') \<and> at (pf_transitions fsm) 0 (\<lambda>t. pt_to t = ''running'') \<and>
        at (pf_transitions fsm) 0 (\<lambda>t. pt_event t = ''start''))"

definition test_no_initial_state :: bool where
  "test_no_initial_state \<longleftrightarrow>
     MermaidParser_parse (raw_lines [''idle --> |start| running'']) = Inl ParseNoInitialState"

definition test_plantuml_basic :: bool where
  "test_plantuml_basic =
     unwrapped (PlantUmlParser_parse (raw_lines
       [''@startuml'', ''[*] --> idle'', ''idle --> running : start'', ''running --> idle : stop'',
        ''running --> [*] : shutdown'', ''@enduml'']))
     (\<lambda>fsm. pf_initial fsm = ''idle'' \<and> pf_finals fsm = [''running''] \<and> length (pf_transitions fsm) = 3)"

definition test_plantuml_hard_events :: bool where
  "test_plantuml_hard_events =
     unwrapped (PlantUmlParser_parse (raw_lines [''[*] --> s1'', ''s1 --> s2 : go!'', ''s2 --> [*] : end'']))
     (\<lambda>fsm. at (pf_transitions fsm) 0 (\<lambda>t. pt_event t = ''go'') \<and> at (pf_transitions fsm) 0 (\<lambda>t. pt_kind t = Hard))"

definition test_plantuml_with_state_declarations :: bool where
  "test_plantuml_with_state_declarations =
     unwrapped (PlantUmlParser_parse (raw_lines
       [''@startuml'', ''state '' @ quoted ''Idle'' @ '' as idle'', ''state '' @ quoted ''Running'' @ '' as running'', ''[*] --> idle'',
        ''idle --> running : start'', ''running --> [*] : done'', ''@enduml'']))
     (\<lambda>fsm. pf_initial fsm = ''idle'')"

definition test_classify_event :: bool where
  "test_classify_event \<longleftrightarrow>
     classify_event ''start'' = (''start'', Normal) \<and> classify_event ''go!'' = (''go'', Hard) \<and>
     classify_event ''try?'' = (''try'', Soft)"

lemma parser_tests:
  "test_flowchart_basic" "test_hard_and_soft_events" "test_state_diagram_syntax" "test_no_initial_state"
  "test_plantuml_basic" "test_plantuml_hard_events" "test_plantuml_with_state_declarations" "test_classify_event"
  by code_simp+

subsection \<open>timer.rs\<close>

text \<open>
  A run on time: each tick of an interval of 50 milliseconds completes when it is due, and every
  other await at once. The laws of \<open>tokio\<close> allow it.
\<close>

definition timer_test_run :: "(nat \<times> timer_event) list \<Rightarrow> bool" where
  "timer_test_run tr \<longleftrightarrow>
     timer_run FsmTimer_start tr \<noteq> None \<and> tokio_interval 0 50 tr \<and> tokio_send 10 tr \<and> tokio_cancel tr \<and>
     tokio_join FsmTimer_start tr"

definition test_timer_fires :: bool where
  "test_timer_fires =
     (let tr = [(0, TaskWoke Ticked), (50, TaskWoke Ticked), (50, TaskWoke (TickSent (Inr ()))), (50, TickReceived)]
      in timer_test_run tr \<and> list_ex (\<lambda>(now, e). e = TickReceived \<and> now \<le> 200) tr)"

definition test_timer_stop :: bool where
  "test_timer_stop =
     (let tr = [(0, StopCalled), (0, StopWoke (StopSent (Inr ()))), (0, TaskWoke Ticked),
          (0, TaskWoke (CancelReceived (Some ()))), (0, StopWoke (Joined (Inr ())))]
      in timer_test_run tr \<and> map_option tm_stop (timer_run FsmTimer_start tr) = Some (Some StopReturned) \<and>
         ticks_sent tr = 0)"

lemma timer_tests: "test_timer_fires" "test_timer_stop"
  by code_simp+

end
