(* ===== verification/Ex_Integration.thy ===== *)
theory Ex_Integration
  imports Fsm_Network Fsm_Tests Ex_Turnstile
begin

section \<open>The integration tests (finitomata/tests/integration_test.rs), on the model\<close>

text \<open>
  The machines of the integration tests from their attributes to their callbacks, and each test as a
  definition that computes whether its assertions hold when the supervisor, its actors and their
  mailboxes run as \<open>Fsm_Network\<close> models them, over the concrete actor system \<open>test_joerl\<close>. A test
  waits by \<open>sleep\<close>: the actors take as many rounds as it is given, enough to handle what was sent.
\<close>

declare do_transition.simps [code]

subsection \<open>WorkflowFsm\<close>

datatype WorkflowFsmState = Wf_Idle | Wf_Off | Wf_Paused | Wf_Running
datatype WorkflowFsmEvent = We_Confirm | We_Pause | We_Resume | We_Shutdown | We_Start | We_Stop

fun WorkflowFsmState_variant :: "WorkflowFsmState \<Rightarrow> string" where
  "WorkflowFsmState_variant Wf_Idle = ''Idle''"
| "WorkflowFsmState_variant Wf_Off = ''Off''"
| "WorkflowFsmState_variant Wf_Paused = ''Paused''"
| "WorkflowFsmState_variant Wf_Running = ''Running''"

fun WorkflowFsmEvent_variant :: "WorkflowFsmEvent \<Rightarrow> string" where
  "WorkflowFsmEvent_variant We_Confirm = ''Confirm''"
| "WorkflowFsmEvent_variant We_Pause = ''Pause''"
| "WorkflowFsmEvent_variant We_Resume = ''Resume''"
| "WorkflowFsmEvent_variant We_Shutdown = ''Shutdown''"
| "WorkflowFsmEvent_variant We_Start = ''Start''"
| "WorkflowFsmEvent_variant We_Stop = ''Stop''"

text \<open>The generated enums derive \<open>Ord\<close>: the order of the variants, which is that of their names.\<close>

fun WorkflowFsmState_rank :: "WorkflowFsmState \<Rightarrow> nat" where
  "WorkflowFsmState_rank Wf_Idle = 0"
| "WorkflowFsmState_rank Wf_Off = 1"
| "WorkflowFsmState_rank Wf_Paused = 2"
| "WorkflowFsmState_rank Wf_Running = 3"

instantiation WorkflowFsmState :: linorder
begin

definition less_eq_WorkflowFsmState :: "WorkflowFsmState \<Rightarrow> WorkflowFsmState \<Rightarrow> bool" where
  "less_eq_WorkflowFsmState a b \<longleftrightarrow> WorkflowFsmState_rank a \<le> WorkflowFsmState_rank b"

definition less_WorkflowFsmState :: "WorkflowFsmState \<Rightarrow> WorkflowFsmState \<Rightarrow> bool" where
  "less_WorkflowFsmState a b \<longleftrightarrow> WorkflowFsmState_rank a < WorkflowFsmState_rank b"

instance
proof
  fix a b :: WorkflowFsmState
  show "a \<le> b \<Longrightarrow> b \<le> a \<Longrightarrow> a = b"
    by (cases a; cases b) (simp_all add: less_eq_WorkflowFsmState_def)
qed (auto simp: less_eq_WorkflowFsmState_def less_WorkflowFsmState_def)

end

definition workflow_text :: string where
  "workflow_text = raw_fsm
     [''[*] --> idle'', ''idle --> |start| running'', ''running --> |pause| paused'', ''running --> |stop| idle'',
      ''paused --> |resume| running'', ''paused --> |stop| idle'', ''idle --> |shutdown| off'', ''off --> |confirm| [*]'']"

definition workflow_graph :: "(WorkflowFsmState, WorkflowFsmEvent) TransitionGraph" where
  "workflow_graph = TransitionGraph_new Wf_Idle {|Wf_Off|}
     [\<lparr>t_from = Wf_Idle, t_to = [Wf_Running], t_event = We_Start, t_kind = Normal\<rparr>,
      \<lparr>t_from = Wf_Running, t_to = [Wf_Paused], t_event = We_Pause, t_kind = Normal\<rparr>,
      \<lparr>t_from = Wf_Running, t_to = [Wf_Idle], t_event = We_Stop, t_kind = Normal\<rparr>,
      \<lparr>t_from = Wf_Paused, t_to = [Wf_Running], t_event = We_Resume, t_kind = Normal\<rparr>,
      \<lparr>t_from = Wf_Paused, t_to = [Wf_Idle], t_event = We_Stop, t_kind = Normal\<rparr>,
      \<lparr>t_from = Wf_Idle, t_to = [Wf_Off], t_event = We_Shutdown, t_kind = Normal\<rparr>,
      \<lparr>t_from = Wf_Off, t_to = [Wf_Off], t_event = We_Confirm, t_kind = Normal\<rparr>]"

text \<open>What the macro makes of a text: the parsed machine is valid and its graph is the given one.\<close>

definition expands_to :: "string \<Rightarrow> ('s \<Rightarrow> string) \<Rightarrow> ('e \<Rightarrow> string) \<Rightarrow> ('s, 'e) TransitionGraph \<Rightarrow> bool" where
  "expands_to fsm f h g =
     unwrapped (parse_mermaid fsm) (\<lambda>p. is_ok (macro_validate p) \<and> build_graph p = rename_graph f h g)"

lemma workflow_expands: "expands_to workflow_text WorkflowFsmState_variant WorkflowFsmEvent_variant workflow_graph"
  by code_simp

record WorkflowPayload =
  wp_started :: bool
  wp_stopped :: bool
  wp_transitions :: "string list"

definition WorkflowPayload_default :: WorkflowPayload where
  "WorkflowPayload_default = \<lparr>wp_started = False, wp_stopped = False, wp_transitions = []\<rparr>"

fun WorkflowFsm_target :: "WorkflowFsmEvent \<Rightarrow> WorkflowFsmState" where
  "WorkflowFsm_target We_Start = Wf_Running"
| "WorkflowFsm_target We_Pause = Wf_Paused"
| "WorkflowFsm_target We_Resume = Wf_Running"
| "WorkflowFsm_target We_Stop = Wf_Idle"
| "WorkflowFsm_target We_Shutdown = Wf_Off"
| "WorkflowFsm_target We_Confirm = Wf_Off"

definition WorkflowFsm_on_transition :: "WorkflowFsmState \<Rightarrow> WorkflowFsmEvent \<Rightarrow> WorkflowPayload \<Rightarrow>
    unit \<times> WorkflowPayload \<times> 'w \<Rightarrow> (WorkflowFsmState, WorkflowPayload) TransitionResult \<times> unit \<times> WorkflowPayload \<times> 'w" where
  "WorkflowFsm_on_transition frm event event_payload = (\<lambda>(fsm, p, w).
     (let p = p\<lparr>wp_transitions := wp_transitions p @ [WorkflowFsmEvent_variant event]\<rparr>
      in (Ok (WorkflowFsm_target event), fsm, p, w)))"

definition WorkflowFsm :: "(unit, 'w, WorkflowFsmState, WorkflowFsmEvent, WorkflowPayload) Finitomata" where
  "WorkflowFsm =
     (default_callbacks WorkflowFsm_on_transition WorkflowFsmState_variant WorkflowFsmEvent_variant)
       \<lparr>on_start := (\<lambda>(fsm, p, w). (fsm, p\<lparr>wp_started := True\<rparr>, w)),
        on_terminate := (\<lambda>(fsm, p, w). (fsm, p\<lparr>wp_stopped := True\<rparr>, w))\<rparr>"

subsection \<open>HardEventFsm, SoftEventFsm, TimerFsm\<close>

datatype HardEventFsmState = Hf_Active | Hf_Finished | Hf_Init | Hf_Ready
datatype HardEventFsmEvent = He_Boot | He_Cleanup | He_Done | He_Go

fun HardEventFsmState_variant :: "HardEventFsmState \<Rightarrow> string" where
  "HardEventFsmState_variant Hf_Active = ''Active''"
| "HardEventFsmState_variant Hf_Finished = ''Finished''"
| "HardEventFsmState_variant Hf_Init = ''Init''"
| "HardEventFsmState_variant Hf_Ready = ''Ready''"

fun HardEventFsmEvent_variant :: "HardEventFsmEvent \<Rightarrow> string" where
  "HardEventFsmEvent_variant He_Boot = ''Boot''"
| "HardEventFsmEvent_variant He_Cleanup = ''Cleanup''"
| "HardEventFsmEvent_variant He_Done = ''Done''"
| "HardEventFsmEvent_variant He_Go = ''Go''"

definition hard_text :: string where
  "hard_text = raw_fsm
     [''[*] --> init'', ''init --> |boot!| ready'', ''ready --> |go| active'', ''active --> |done| finished'',
      ''finished --> |cleanup| [*]'']"

definition hard_graph :: "(HardEventFsmState, HardEventFsmEvent) TransitionGraph" where
  "hard_graph = TransitionGraph_new Hf_Init {|Hf_Finished|}
     [\<lparr>t_from = Hf_Init, t_to = [Hf_Ready], t_event = He_Boot, t_kind = Hard\<rparr>,
      \<lparr>t_from = Hf_Ready, t_to = [Hf_Active], t_event = He_Go, t_kind = Normal\<rparr>,
      \<lparr>t_from = Hf_Active, t_to = [Hf_Finished], t_event = He_Done, t_kind = Normal\<rparr>,
      \<lparr>t_from = Hf_Finished, t_to = [Hf_Finished], t_event = He_Cleanup, t_kind = Normal\<rparr>]"

lemma hard_expands: "expands_to hard_text HardEventFsmState_variant HardEventFsmEvent_variant hard_graph"
  by code_simp

text \<open>The payloads of these machines are one \<open>u32\<close> each: \<open>boot_count\<close>, \<open>tick_count\<close> and \<open>ticks\<close>.\<close>

type_synonym HardPayload = "32 word"
type_synonym SoftPayload = "32 word"
type_synonym TimerPayload = "32 word"

fun HardEventFsm_on_transition :: "HardEventFsmState \<Rightarrow> HardEventFsmEvent \<Rightarrow> HardPayload \<Rightarrow>
    unit \<times> HardPayload \<times> 'w \<Rightarrow> (HardEventFsmState, HardPayload) TransitionResult \<times> unit \<times> HardPayload \<times> 'w" where
  "HardEventFsm_on_transition frm He_Boot ep (f, p, w) = (Ok Hf_Ready, f, p + 1, w)"
| "HardEventFsm_on_transition frm He_Go ep (f, p, w) = (Ok Hf_Active, f, p, w)"
| "HardEventFsm_on_transition frm He_Done ep (f, p, w) = (Ok Hf_Finished, f, p, w)"
| "HardEventFsm_on_transition frm He_Cleanup ep (f, p, w) = (Ok Hf_Finished, f, p, w)"

definition HardEventFsm :: "(unit, 'w, HardEventFsmState, HardEventFsmEvent, HardPayload) Finitomata" where
  "HardEventFsm = default_callbacks HardEventFsm_on_transition HardEventFsmState_variant HardEventFsmEvent_variant"

datatype SoftEventFsmState = Sf_Done | Sf_Idle | Sf_Running
datatype SoftEventFsmEvent = Se_Confirm | Se_Off | Se_Start | Se_Stop | Se_Tick

fun SoftEventFsmState_variant :: "SoftEventFsmState \<Rightarrow> string" where
  "SoftEventFsmState_variant Sf_Done = ''Done''"
| "SoftEventFsmState_variant Sf_Idle = ''Idle''"
| "SoftEventFsmState_variant Sf_Running = ''Running''"

fun SoftEventFsmEvent_variant :: "SoftEventFsmEvent \<Rightarrow> string" where
  "SoftEventFsmEvent_variant Se_Confirm = ''Confirm''"
| "SoftEventFsmEvent_variant Se_Off = ''Off''"
| "SoftEventFsmEvent_variant Se_Start = ''Start''"
| "SoftEventFsmEvent_variant Se_Stop = ''Stop''"
| "SoftEventFsmEvent_variant Se_Tick = ''Tick''"

definition soft_text :: string where
  "soft_text = raw_fsm
     [''[*] --> idle'', ''idle --> |start| running'', ''running --> |tick?| running'', ''running --> |stop| idle'',
      ''idle --> |off| done'', ''done --> |confirm| [*]'']"

definition soft_graph :: "(SoftEventFsmState, SoftEventFsmEvent) TransitionGraph" where
  "soft_graph = TransitionGraph_new Sf_Idle {|Sf_Done|}
     [\<lparr>t_from = Sf_Idle, t_to = [Sf_Running], t_event = Se_Start, t_kind = Normal\<rparr>,
      \<lparr>t_from = Sf_Running, t_to = [Sf_Running], t_event = Se_Tick, t_kind = Soft\<rparr>,
      \<lparr>t_from = Sf_Running, t_to = [Sf_Idle], t_event = Se_Stop, t_kind = Normal\<rparr>,
      \<lparr>t_from = Sf_Idle, t_to = [Sf_Done], t_event = Se_Off, t_kind = Normal\<rparr>,
      \<lparr>t_from = Sf_Done, t_to = [Sf_Done], t_event = Se_Confirm, t_kind = Normal\<rparr>]"

lemma soft_expands: "expands_to soft_text SoftEventFsmState_variant SoftEventFsmEvent_variant soft_graph"
  by code_simp

fun SoftEventFsm_on_transition :: "SoftEventFsmState \<Rightarrow> SoftEventFsmEvent \<Rightarrow> SoftPayload \<Rightarrow>
    unit \<times> SoftPayload \<times> 'w \<Rightarrow> (SoftEventFsmState, SoftPayload) TransitionResult \<times> unit \<times> SoftPayload \<times> 'w" where
  "SoftEventFsm_on_transition frm Se_Start ep (f, p, w) = (Ok Sf_Running, f, p, w)"
| "SoftEventFsm_on_transition frm Se_Tick ep (f, p, w) = (Ok Sf_Running, f, p + 1, w)"
| "SoftEventFsm_on_transition frm Se_Stop ep (f, p, w) = (Ok Sf_Idle, f, p, w)"
| "SoftEventFsm_on_transition frm Se_Off ep (f, p, w) = (Ok Sf_Done, f, p, w)"
| "SoftEventFsm_on_transition frm Se_Confirm ep (f, p, w) = (Ok Sf_Done, f, p, w)"

definition SoftEventFsm :: "(unit, 'w, SoftEventFsmState, SoftEventFsmEvent, SoftPayload) Finitomata" where
  "SoftEventFsm = default_callbacks SoftEventFsm_on_transition SoftEventFsmState_variant SoftEventFsmEvent_variant"

datatype TimerFsmState = Tf_Counting | Tf_Finished | Tf_Waiting
datatype TimerFsmEvent = Tm_Done | Tm_End | Tm_Tick

fun TimerFsmState_variant :: "TimerFsmState \<Rightarrow> string" where
  "TimerFsmState_variant Tf_Counting = ''Counting''"
| "TimerFsmState_variant Tf_Finished = ''Finished''"
| "TimerFsmState_variant Tf_Waiting = ''Waiting''"

fun TimerFsmEvent_variant :: "TimerFsmEvent \<Rightarrow> string" where
  "TimerFsmEvent_variant Tm_Done = ''Done''"
| "TimerFsmEvent_variant Tm_End = ''End''"
| "TimerFsmEvent_variant Tm_Tick = ''Tick''"

definition timer_text :: string where
  "timer_text = raw_fsm
     [''[*] --> waiting'', ''waiting --> |tick| counting'', ''counting --> |tick| counting'',
      ''counting --> |done| finished'', ''finished --> |end| [*]'']"

definition timer_graph :: "(TimerFsmState, TimerFsmEvent) TransitionGraph" where
  "timer_graph = TransitionGraph_new Tf_Waiting {|Tf_Finished|}
     [\<lparr>t_from = Tf_Waiting, t_to = [Tf_Counting], t_event = Tm_Tick, t_kind = Normal\<rparr>,
      \<lparr>t_from = Tf_Counting, t_to = [Tf_Counting], t_event = Tm_Tick, t_kind = Normal\<rparr>,
      \<lparr>t_from = Tf_Counting, t_to = [Tf_Finished], t_event = Tm_Done, t_kind = Normal\<rparr>,
      \<lparr>t_from = Tf_Finished, t_to = [Tf_Finished], t_event = Tm_End, t_kind = Normal\<rparr>]"

lemma timer_expands: "expands_to timer_text TimerFsmState_variant TimerFsmEvent_variant timer_graph"
  by code_simp

fun TimerFsm_on_transition :: "TimerFsmState \<Rightarrow> TimerFsmEvent \<Rightarrow> TimerPayload \<Rightarrow>
    unit \<times> TimerPayload \<times> 'w \<Rightarrow> (TimerFsmState, TimerPayload) TransitionResult \<times> unit \<times> TimerPayload \<times> 'w" where
  "TimerFsm_on_transition frm Tm_Tick ep (f, p, w) = (Ok Tf_Counting, f, p + 1, w)"
| "TimerFsm_on_transition frm Tm_Done ep (f, p, w) = (Ok Tf_Finished, f, p, w)"
| "TimerFsm_on_transition frm Tm_End ep (f, p, w) = (Ok Tf_Finished, f, p, w)"

fun TimerFsm_on_timer :: "TimerFsmState \<Rightarrow> unit \<times> TimerPayload \<times> 'w \<Rightarrow>
    (TimerFsmEvent \<times> TimerPayload) option \<times> unit \<times> TimerPayload \<times> 'w" where
  "TimerFsm_on_timer s (f, p, w) =
     ((if s \<in> {Tf_Waiting, Tf_Counting} \<and> p < 3 then Some (Tm_Tick, 0)
       else if s = Tf_Counting \<and> 3 \<le> p then Some (Tm_Done, 0)
       else None), f, p, w)"

definition TimerFsm :: "(unit, 'w, TimerFsmState, TimerFsmEvent, TimerPayload) Finitomata" where
  "TimerFsm = (default_callbacks TimerFsm_on_transition TimerFsmState_variant TimerFsmEvent_variant)
     \<lparr>on_timer := TimerFsm_on_timer\<rparr>"

subsection \<open>What the tests share\<close>

text \<open>The network of a fresh supervisor, the operations on it, and what an assertion is about.\<close>

type_synonym ('w, 's, 'e, 'p) test_net =
  "(unit, (string, ('s, 'p) FsmState) fmap, 'w, 's, 'e, 'p, ('e, 'p) Message test_system) network"

type_synonym ('w, 's, 'e, 'p) test_actor = "(unit, 'w, 's, 'e, 'p) FsmActor"

definition unit_joerl :: "(('e, 'p) Message test_system, ('w, 's, 'e, 'p) test_actor, ('e, 'p) Message,
    (unit, unit, ('w, 's, 'e, 'p) test_actor) ChildTree) Joerl" where
  "unit_joerl = test_joerl"

definition fresh :: "'w \<Rightarrow> ('w, 's, 'e, 'p) test_net" where
  "fresh w = network_new fmap_dash_map w (Map.empty, 1, [], [])"

definition start :: "(unit, 'w, 's, 'e, 'p) Finitomata \<Rightarrow> ('w, 's, 'e, 'p) FinitomataSupervisor \<Rightarrow> string \<Rightarrow> 'p \<Rightarrow>
    ('w, 's, 'e, 'p) test_net \<Rightarrow> ('w, 's, 'e, 'p) test_net" where
  "start F sv nm p n = net_start unit_joerl fmap_dash_map F sv nm () p n"

text \<open>\<open>spawn_supervised\<close>, and the supervisor of \<open>joerl\<close> that starts its child.\<close>

definition spawn :: "('w, 's, 'e, 'p) FinitomataSupervisor \<Rightarrow> string \<Rightarrow> 'p \<Rightarrow> ('w, 's, 'e, 'p) test_net \<Rightarrow>
    (('w, 's, 'e, 'p) test_net \<Rightarrow> bool) \<Rightarrow> bool" where
  "spawn sv nm p n P =
     (case spawn_supervised (unit_joerl :: (('e, 'p) Message test_system, ('w, 's, 'e, 'p) test_actor, ('e, 'p) Message,
          (unit, unit, ('w, 's, 'e, 'p) test_actor) ChildTree) Joerl) () () sv nm () p () (nt_env n) of
        (r, env) \<Rightarrow> is_ok r \<and>
          P (net_child (unit_joerl :: (('e, 'p) Message test_system, ('w, 's, 'e, 'p) test_actor, ('e, 'p) Message,
               (unit, unit, ('w, 's, 'e, 'p) test_actor) ChildTree) Joerl) sv nm () p (with_sys ((nt_sys n)\<lparr>sy_env := env\<rparr>) n)))"

definition sleep :: "(unit, 'w, 's, 'e, 'p) Finitomata \<Rightarrow> Pid list \<Rightarrow> ('w, 's, 'e, 'p) test_net \<Rightarrow>
    (('w, 's, 'e, 'p) test_net \<Rightarrow> bool) \<Rightarrow> bool" where
  "sleep F pids n P = (case actor_rounds unit_joerl fmap_dash_map F pids n of None \<Rightarrow> False | Some n' \<Rightarrow> P n')"

definition sends :: "('w, 's, 'e, 'p) FinitomataSupervisor \<Rightarrow> string \<Rightarrow> 'e \<Rightarrow> 'p \<Rightarrow> ('w, 's, 'e, 'p) test_net \<Rightarrow>
    (FinitomataError + unit) \<times> ('w, 's, 'e, 'p) test_net" where
  "sends sv nm ev ep n =
     net_transition (unit_joerl :: (('e, 'p) Message test_system, ('w, 's, 'e, 'p) test_actor, ('e, 'p) Message,
       (unit, unit, ('w, 's, 'e, 'p) test_actor) ChildTree) Joerl) sv nm ev ep n"

definition shuts :: "('w, 's, 'e, 'p) FinitomataSupervisor \<Rightarrow> string \<Rightarrow> ('w, 's, 'e, 'p) test_net \<Rightarrow>
    (FinitomataError + unit) \<times> ('w, 's, 'e, 'p) test_net" where
  "shuts sv nm n =
     net_shutdown (unit_joerl :: (('e, 'p) Message test_system, ('w, 's, 'e, 'p) test_actor, ('e, 'p) Message,
       (unit, unit, ('w, 's, 'e, 'p) test_actor) ChildTree) Joerl) sv nm n"

text \<open>\<open>unwrap\<close> of a call, and an assertion about the state the supervisor shows for a name.\<close>

definition unwrap_call :: "(FinitomataError + unit) \<times> 'n \<Rightarrow> ('n \<Rightarrow> bool) \<Rightarrow> bool" where
  "unwrap_call r P = (case r of (res, n) \<Rightarrow> is_ok res \<and> P n)"

definition shown :: "string \<Rightarrow> ('w, 's, 'e, 'p) test_net \<Rightarrow> (('s, 'p) FsmState \<Rightarrow> bool) \<Rightarrow> bool" where
  "shown nm n P = (case sup_state fmap_dash_map nm (nt_env n) of None \<Rightarrow> False | Some st \<Rightarrow> P st)"

abbreviation is_alive :: "string \<Rightarrow> ('w, 's, 'e, 'p) test_net \<Rightarrow> bool" where
  "is_alive nm n \<equiv> alive fmap_dash_map nm (nt_env n)"

abbreviation state_now :: "string \<Rightarrow> ('w, 's, 'e, 'p) test_net \<Rightarrow> 's option" where
  "state_now nm n \<equiv> current_state fmap_dash_map nm (nt_env n)"

definition workflow_sup :: "('w, WorkflowFsmState, WorkflowFsmEvent, WorkflowPayload) FinitomataSupervisor" where
  "workflow_sup = FinitomataSupervisor_new 0 ''test'' workflow_graph"

abbreviation ep0 :: WorkflowPayload where
  "ep0 \<equiv> WorkflowPayload_default"

definition fsm1 :: "(unit, WorkflowFsmState, WorkflowFsmEvent, WorkflowPayload) test_net" where
  "fsm1 = start WorkflowFsm workflow_sup ''fsm1'' WorkflowPayload_default (fresh ())"

subsection \<open>FinitomataSupervisor\<close>

definition test_start_fsm_basic :: bool where
  "test_start_fsm_basic \<longleftrightarrow>
     is_alive ''fsm1'' fsm1 \<and>
     shown ''fsm1'' fsm1 (\<lambda>state. current state = Wf_Idle \<and> wp_started (payload state) \<and> lifecycle state = Running)"

definition test_transition_basic :: bool where
  "test_transition_basic \<longleftrightarrow>
     sleep WorkflowFsm [1] fsm1 (\<lambda>n.
     unwrap_call (sends workflow_sup ''fsm1'' We_Start ep0 n) (\<lambda>n.
     sleep WorkflowFsm [1] n (\<lambda>n.
     shown ''fsm1'' n (\<lambda>state. current state = Wf_Running \<and> ''Start'' \<in> set (wp_transitions (payload state))))))"

definition test_transition_sequence :: bool where
  "test_transition_sequence \<longleftrightarrow>
     sleep WorkflowFsm [1] fsm1 (\<lambda>n.
     unwrap_call (sends workflow_sup ''fsm1'' We_Start ep0 n) (\<lambda>n. sleep WorkflowFsm [1] n (\<lambda>n.
     unwrap_call (sends workflow_sup ''fsm1'' We_Pause ep0 n) (\<lambda>n. sleep WorkflowFsm [1] n (\<lambda>n.
     unwrap_call (sends workflow_sup ''fsm1'' We_Resume ep0 n) (\<lambda>n. sleep WorkflowFsm [1] n (\<lambda>n.
     unwrap_call (sends workflow_sup ''fsm1'' We_Stop ep0 n) (\<lambda>n. sleep WorkflowFsm [1] n (\<lambda>n.
     shown ''fsm1'' n (\<lambda>state. current state = Wf_Idle \<and> length (wp_transitions (payload state)) = 4))))))))))"

definition test_transition_to_nonexistent_fsm :: bool where
  "test_transition_to_nonexistent_fsm \<longleftrightarrow>
     \<not> is_ok (fst (sends workflow_sup ''nonexistent'' We_Start ep0 (fresh ())))"

definition test_current_state :: bool where
  "test_current_state \<longleftrightarrow> state_now ''fsm1'' fsm1 = Some Wf_Idle \<and> state_now ''missing'' fsm1 = None"

definition test_alive :: bool where
  "test_alive \<longleftrightarrow>
     \<not> is_alive ''fsm1'' (fresh () :: (unit, WorkflowFsmState, WorkflowFsmEvent, WorkflowPayload) test_net) \<and>
     is_alive ''fsm1'' fsm1 \<and> \<not> is_alive ''fsm2'' fsm1"

definition test_all :: bool where
  "test_all \<longleftrightarrow>
     (let n = start WorkflowFsm workflow_sup ''fsm2'' WorkflowPayload_default fsm1
      in length (sup_all fmap_dash_map (nt_env n)) = 2)"

definition test_shutdown :: bool where
  "test_shutdown \<longleftrightarrow>
     sleep WorkflowFsm [1] fsm1 (\<lambda>n.
     unwrap_call (shuts workflow_sup ''fsm1'' n) (\<lambda>n. sleep WorkflowFsm [1, 1] n (\<lambda>n.
     shown ''fsm1'' n (\<lambda>state. lifecycle state = Terminated \<and> wp_stopped (payload state)))))"

definition test_shutdown_nonexistent :: bool where
  "test_shutdown_nonexistent \<longleftrightarrow>
     \<not> is_ok (fst (shuts workflow_sup ''nonexistent''
       (fresh () :: (unit, WorkflowFsmState, WorkflowFsmEvent, WorkflowPayload) test_net)))"

definition test_auto_terminate_on_final_state :: bool where
  "test_auto_terminate_on_final_state \<longleftrightarrow>
     (let supervisor = with_auto_terminate True workflow_sup
      in sleep WorkflowFsm [1] (start WorkflowFsm supervisor ''fsm1'' WorkflowPayload_default (fresh ())) (\<lambda>n.
         unwrap_call (sends supervisor ''fsm1'' We_Shutdown ep0 n) (\<lambda>n. sleep WorkflowFsm [1, 1] n (\<lambda>n.
         shown ''fsm1'' n (\<lambda>state. current state = Wf_Off \<and> lifecycle state = Terminated)))))"

definition test_id_and_system :: bool where
  "test_id_and_system \<longleftrightarrow>
     supervisor_id (FinitomataSupervisor_new 0 ''my_sup'' workflow_graph ::
       (unit, WorkflowFsmState, WorkflowFsmEvent, WorkflowPayload) FinitomataSupervisor) = ''my_sup''"

lemma supervisor_tests:
  "test_start_fsm_basic" "test_transition_basic" "test_transition_sequence" "test_transition_to_nonexistent_fsm"
  "test_current_state" "test_alive" "test_shutdown" "test_shutdown_nonexistent"
  "test_auto_terminate_on_final_state" "test_id_and_system"
  by code_simp+

lemma all_test: "test_all"
  by code_simp

subsection \<open>Hard events, soft events, timers\<close>

definition test_hard_event_auto_fires_on_start :: bool where
  "test_hard_event_auto_fires_on_start \<longleftrightarrow>
     (let supervisor = FinitomataSupervisor_new 0 ''test'' hard_graph
      in sleep HardEventFsm [1, 1] (start HardEventFsm supervisor ''fsm1'' 0 (fresh ())) (\<lambda>n.
         shown ''fsm1'' n (\<lambda>state. current state = Hf_Ready \<and> payload state = 1)))"

definition test_soft_event_silently_skipped_in_wrong_state :: bool where
  "test_soft_event_silently_skipped_in_wrong_state \<longleftrightarrow>
     (let supervisor = FinitomataSupervisor_new 0 ''test'' soft_graph
      in sleep SoftEventFsm [1] (start SoftEventFsm supervisor ''fsm1'' 0 (fresh ())) (\<lambda>n.
         unwrap_call (sends supervisor ''fsm1'' Se_Tick 0 n) (\<lambda>n. sleep SoftEventFsm [1] n (\<lambda>n.
         shown ''fsm1'' n (\<lambda>state. current state = Sf_Idle \<and> payload state = 0)))))"

definition test_soft_event_works_in_correct_state :: bool where
  "test_soft_event_works_in_correct_state \<longleftrightarrow>
     (let supervisor = FinitomataSupervisor_new 0 ''test'' soft_graph
      in sleep SoftEventFsm [1] (start SoftEventFsm supervisor ''fsm1'' 0 (fresh ())) (\<lambda>n.
         unwrap_call (sends supervisor ''fsm1'' Se_Start 0 n) (\<lambda>n. sleep SoftEventFsm [1] n (\<lambda>n.
         unwrap_call (sends supervisor ''fsm1'' Se_Tick 0 n) (\<lambda>n. sleep SoftEventFsm [1] n (\<lambda>n.
         shown ''fsm1'' n (\<lambda>state. current state = Sf_Running \<and> payload state = 1)))))))"

text \<open>The actor comes up, and then there is time for eight ticks of 50 milliseconds.\<close>

definition test_timer_triggers_on_timer :: bool where
  "test_timer_triggers_on_timer \<longleftrightarrow>
     (let supervisor = with_timer 50 (FinitomataSupervisor_new 0 ''test'' timer_graph)
      in sleep TimerFsm (replicate 17 1) (start TimerFsm supervisor ''fsm1'' 0 (fresh ())) (\<lambda>n.
         shown ''fsm1'' n (\<lambda>state. 3 \<le> payload state \<and> current state = Tf_Finished)))"

lemma event_tests:
  "test_hard_event_auto_fires_on_start" "test_soft_event_silently_skipped_in_wrong_state"
  "test_soft_event_works_in_correct_state" "test_timer_triggers_on_timer"
  by code_simp+

subsection \<open>Persistence and listeners\<close>

text \<open>The wrapper delegates each method to the backend behind the \<open>Arc\<close>.\<close>

definition PersistencyWrapper :: "('w, 's, 'p) Persistency \<Rightarrow> ('w, 's, 'p) Persistency" where
  "PersistencyWrapper P =
     \<lparr>load = (\<lambda>i w. load P i w), store = (\<lambda>i s p w. store P i s p w), store_error = (\<lambda>i e w. store_error P i e w)\<rparr>"

type_synonym workflow_store = "(string, (WorkflowFsmState, WorkflowPayload) persisted) fmap"

abbreviation memory :: "(workflow_store, WorkflowFsmState, WorkflowPayload) Persistency" where
  "memory \<equiv> InMemoryPersistency fmap_dash_map"

definition test_persistence_stores_on_transition :: bool where
  "test_persistence_stores_on_transition \<longleftrightarrow>
     (let supervisor = with_persistency (PersistencyWrapper memory) workflow_sup
      in sleep WorkflowFsm [1] (start WorkflowFsm supervisor ''fsm1'' WorkflowPayload_default
           (fresh (InMemoryPersistency_new fmap_dash_map))) (\<lambda>n.
         unwrap_call (sends supervisor ''fsm1'' We_Start ep0 n) (\<lambda>n. sleep WorkflowFsm [1] n (\<lambda>n.
         unwrapped (fst (load memory ''fsm1'' (se_world (nt_env n))))
           (\<lambda>l. case l of None \<Rightarrow> False | Some (lc, s, p) \<Rightarrow> s = Wf_Running)))))"

definition test_persistence_recovery_on_start :: bool where
  "test_persistence_recovery_on_start \<longleftrightarrow>
     (case store memory ''fsm1'' Wf_Paused
         \<lparr>wp_started = False, wp_stopped = False, wp_transitions = [''Start'', ''Pause'']\<rparr>
         (InMemoryPersistency_new fmap_dash_map) of
        (stored, w) \<Rightarrow> is_ok stored \<and>
          (let supervisor = with_persistency memory workflow_sup
           in shown ''fsm1'' (start WorkflowFsm supervisor ''fsm1'' WorkflowPayload_default (fresh w))
                (\<lambda>state. current state = Wf_Paused \<and> length (wp_transitions (payload state)) = 2)))"

text \<open>The world of the recording listener is the list of events it shares with the test.\<close>

definition RecordingListener :: "(string list, WorkflowFsmState, WorkflowFsmEvent) Listener" where
  "RecordingListener nm frm to event events =
     events @ [nm @ '': '' @ WorkflowFsmState_variant frm @ '' -> '' @ WorkflowFsmState_variant to @ '' via ''
       @ WorkflowFsmEvent_variant event]"

definition test_listener_receives_transitions :: bool where
  "test_listener_receives_transitions \<longleftrightarrow>
     (let supervisor = with_listener RecordingListener workflow_sup
      in sleep WorkflowFsm [1] (start WorkflowFsm supervisor ''fsm1'' WorkflowPayload_default (fresh [])) (\<lambda>n.
         unwrap_call (sends supervisor ''fsm1'' We_Start ep0 n) (\<lambda>n. sleep WorkflowFsm [1] n (\<lambda>n.
         se_world (nt_env n) \<noteq> [] \<and> at (se_world (nt_env n)) 0 (\<lambda>e. e = ''fsm1: Idle -> Running via Start'')))))"

lemma persistence_tests:
  "test_persistence_stores_on_transition" "test_persistence_recovery_on_start" "test_listener_receives_transitions"
  by code_simp+

subsection \<open>spawn_supervised\<close>

text \<open>
  \<open>test_joerl\<close> gives the supervisor of the tree pid 1, \<open>spawn_supervised\<close> then takes pid 2 for its
  table, and the child is 3.
\<close>

definition test_spawn_supervised_basic :: bool where
  "test_spawn_supervised_basic \<longleftrightarrow>
     (let supervisor = with_persistency memory workflow_sup
      in spawn supervisor ''fsm1'' WorkflowPayload_default (fresh (InMemoryPersistency_new fmap_dash_map)) (\<lambda>n.
         sleep WorkflowFsm [3] n (\<lambda>n.
         is_alive ''fsm1'' n \<and> shown ''fsm1'' n (\<lambda>state. current state = Wf_Idle))))"

definition test_spawn_supervised_transition :: bool where
  "test_spawn_supervised_transition \<longleftrightarrow>
     (let supervisor = with_persistency memory workflow_sup
      in spawn supervisor ''fsm1'' WorkflowPayload_default (fresh (InMemoryPersistency_new fmap_dash_map)) (\<lambda>n.
         sleep WorkflowFsm [3] n (\<lambda>n.
         unwrap_call (sends supervisor ''fsm1'' We_Start ep0 n) (\<lambda>n. sleep WorkflowFsm [3] n (\<lambda>n.
         shown ''fsm1'' n (\<lambda>state. current state = Wf_Running))))))"

lemma spawn_tests: "test_spawn_supervised_basic" "test_spawn_supervised_transition"
  by code_simp+

subsection \<open>Independent machines\<close>

definition test_multiple_fsms_independent :: bool where
  "test_multiple_fsms_independent \<longleftrightarrow>
     (let n = start WorkflowFsm workflow_sup ''a'' WorkflowPayload_default (fresh ());
          n = start WorkflowFsm workflow_sup ''b'' WorkflowPayload_default n
      in sleep WorkflowFsm [1, 2] n (\<lambda>n.
         unwrap_call (sends workflow_sup ''a'' We_Start ep0 n) (\<lambda>n. sleep WorkflowFsm [1, 2] n (\<lambda>n.
         state_now ''a'' n = Some Wf_Running \<and> state_now ''b'' n = Some Wf_Idle))))"

lemma independence_test: "test_multiple_fsms_independent"
  by code_simp

subsection \<open>The graph that the macro builds\<close>

definition test_build_graph_initial_state :: bool where
  "test_build_graph_initial_state \<longleftrightarrow> initial workflow_graph = Wf_Idle"

definition test_build_graph_final_states :: bool where
  "test_build_graph_final_states \<longleftrightarrow> is_final workflow_graph Wf_Off \<and> \<not> is_final workflow_graph Wf_Running"

definition test_build_graph_responds :: bool where
  "test_build_graph_responds \<longleftrightarrow>
     responds workflow_graph Wf_Idle We_Start \<and> responds workflow_graph Wf_Running We_Pause \<and>
     \<not> responds workflow_graph Wf_Idle We_Pause"

definition test_build_graph_allowed :: bool where
  "test_build_graph_allowed =
     (case allowed workflow_graph Wf_Idle We_Start of
        None \<Rightarrow> False
      | Some (targets, kind) \<Rightarrow> Wf_Running \<in> set targets \<and> kind = Normal)"

definition test_build_graph_events_for :: bool where
  "test_build_graph_events_for =
     (let event_names = map (\<lambda>(e, k). WorkflowFsmEvent_variant e) (events_for workflow_graph Wf_Running)
      in ''Pause'' \<in> set event_names \<and> ''Stop'' \<in> set event_names)"

definition test_build_graph_all_states :: bool where
  "test_build_graph_all_states =
     (let states = all_states workflow_graph
      in Wf_Idle |\<in>| states \<and> Wf_Running |\<in>| states \<and> Wf_Paused |\<in>| states \<and> Wf_Off |\<in>| states)"

definition test_build_graph_all_events :: bool where
  "test_build_graph_all_events =
     (let events = all_events workflow_graph in We_Start |\<in>| events \<and> We_Stop |\<in>| events)"

definition test_build_graph_shortest_path :: bool where
  "test_build_graph_shortest_path =
     (case shortest_path workflow_graph Wf_Idle Wf_Paused of None \<Rightarrow> False | Some path \<Rightarrow> length path = 2)"

definition test_build_graph_validate :: bool where
  "test_build_graph_validate \<longleftrightarrow> is_ok (validate WorkflowFsmState_variant workflow_graph)"

lemma graph_tests:
  "test_build_graph_initial_state" "test_build_graph_final_states" "test_build_graph_responds"
  "test_build_graph_allowed" "test_build_graph_events_for" "test_build_graph_all_states"
  "test_build_graph_all_events" "test_build_graph_shortest_path" "test_build_graph_validate"
  by code_simp+

subsection \<open>Errors, cache, state, parsers, backend\<close>

definition test_error_not_responds :: bool where
  "test_error_not_responds =
     (let err = err_not_responds ''idle'' ''finish''
      in stage err = NotResponds \<and> str_contains ''idle'' (reason err) \<and> str_contains ''finish'' (reason err) \<and>
         err_state err = Some ''idle'' \<and> err_event err = Some ''finish'')"

definition test_error_not_allowed :: bool where
  "test_error_not_allowed =
     (let err = err_not_allowed ''idle'' ''done'' ''jump''
      in stage err = NotAllowed \<and> str_contains ''idle'' (reason err) \<and> str_contains ''done'' (reason err))"

definition test_error_display :: bool where
  "test_error_display =
     (let display = FinitomataError_display (err_validation ''something went wrong'')
      in str_contains ''validation'' display \<and> str_contains ''something went wrong'' display)"

lemma error_tests: "test_error_not_responds" "test_error_not_allowed" "test_error_display"
  by code_simp+

definition test_cache_operations :: "('m, string, 32 word) cache_map \<Rightarrow> bool" where
  "test_cache_operations D =
     (let cache = StateCache_new D
      in StateCache_is_empty D cache \<and> StateCache_len D cache = 0 \<and>
         (let cache = StateCache_update D (FsmState_new ''test1'' ''idle'' 42) cache
          in \<not> StateCache_is_empty D cache \<and> StateCache_len D cache = 1 \<and>
             StateCache_contains D cache ''test1'' \<and> \<not> StateCache_contains D cache ''test2'' \<and>
             StateCache_get_state D cache ''test1'' = Some ''idle'' \<and> StateCache_get_payload D cache ''test1'' = Some 42 \<and>
             (case StateCache_get D cache ''test1'' of
                None \<Rightarrow> False | Some full \<Rightarrow> current full = ''idle'' \<and> payload full = 42) \<and>
             (let cache = StateCache_remove D ''test1'' cache
              in StateCache_is_empty D cache \<and> StateCache_get D cache ''test1'' = None)))"

definition test_cache_all :: "('m, string, 32 word) cache_map \<Rightarrow> bool" where
  "test_cache_all D =
     (let cache = StateCache_update D (FsmState_new ''a'' ''idle'' 1) (StateCache_new D);
          cache = StateCache_update D (FsmState_new ''b'' ''running'' 2) cache
      in length (StateCache_all D cache) = 2)"

lemma cache_tests:
  assumes "dash_map D"
  shows "test_cache_operations D" "test_cache_all D"
proof -
  note laws = dash_map.get_new [OF assms] dash_map.get_insert [OF assms] dash_map.get_remove [OF assms]
    dash_map.contains_key [OF assms] dash_map.len_dom [OF assms] dash_map.is_empty_iff [OF assms]
  have dom: "dom (dm_get D (dm_insert D k v m)) = insert k (dom (dm_get D m))" for k v m
    by (rule set_eqI) (cases v, simp add: domIff dash_map.get_insert [OF assms])
  have none: "dom (dm_get D (dm_new D)) = {}" by (rule set_eqI) (simp add: domIff dash_map.get_new [OF assms])
  show "test_cache_operations D"
    by (auto simp: test_cache_operations_def Let_def StateCache_new_def StateCache_update_def StateCache_get_def
        StateCache_get_state_def StateCache_get_payload_def StateCache_remove_def StateCache_contains_def
        StateCache_len_def StateCache_is_empty_def FsmState_new_def laws dom none)
  show "test_cache_all D"
    by (simp add: test_cache_all_def Let_def StateCache_new_def StateCache_update_def StateCache_all_def
        FsmState_new_def dash_map.len_iter [OF assms, symmetric] laws dom none)
qed

definition test_fsm_state_transition_to :: bool where
  "test_fsm_state_transition_to =
     (let state = transition_to (FsmState_new ''test'' ''idle'' (0 :: 32 word)) ''running''
      in current state = ''running'' \<and> BoundedHistory_len (history state) = 2)"

definition test_fsm_state_set_payload :: bool where
  "test_fsm_state_set_payload =
     (let state = set_payload (FsmState_new ''test'' ''idle'' (0 :: 32 word)) 99 in payload state = 99)"

definition test_fsm_state_error_lifecycle :: bool where
  "test_fsm_state_error_lifecycle =
     (let state = FsmState_new ''test'' ''idle'' (0 :: 32 word)
      in last_error state = None \<and>
         (let state = set_error state (err_validation ''test error'')
          in last_error state \<noteq> None \<and> last_error (clear_error state) = None))"

definition test_lifecycle_variants :: bool where
  "test_lifecycle_variants \<longleftrightarrow> Created \<noteq> Running \<and> Running \<noteq> Terminated \<and> Created = Created"

lemma state_api_tests:
  "test_fsm_state_transition_to" "test_fsm_state_set_payload" "test_fsm_state_error_lifecycle" "test_lifecycle_variants"
  by code_simp+

definition test_mermaid_parser_runtime :: bool where
  "test_mermaid_parser_runtime =
     unwrapped (MermaidParser_parse (raw_fsm
       [''[*] --> idle'', ''idle --> |work| busy'', ''busy --> |rest| idle'', ''idle --> |quit| [*]'']))
     (\<lambda>fsm. pf_initial fsm = ''idle'' \<and> ''idle'' \<in> set (pf_finals fsm) \<and> length (pf_transitions fsm) = 3)"

definition test_plantuml_parser_runtime :: bool where
  "test_plantuml_parser_runtime =
     unwrapped (PlantUmlParser_parse (raw_fsm
       [''[*] --> idle'', ''idle --> busy : work'', ''busy --> idle : rest'', ''idle --> [*] : quit'']))
     (\<lambda>fsm. pf_initial fsm = ''idle'' \<and> ''idle'' \<in> set (pf_finals fsm) \<and> length (pf_transitions fsm) = 3)"

lemma runtime_parser_tests: "test_mermaid_parser_runtime" "test_plantuml_parser_runtime"
  by code_simp+

definition test_in_memory_persistency_operations ::
    "('m, string, (WorkflowFsmState, WorkflowPayload) persisted) DashMap \<Rightarrow> bool" where
  "test_in_memory_persistency_operations D =
     (let persist = InMemoryPersistency_new D
      in InMemoryPersistency_is_empty D persist \<and> InMemoryPersistency_len D persist = 0 \<and>
         (case store (InMemoryPersistency D) ''test1'' Wf_Running WorkflowPayload_default persist of
            (stored, persist) \<Rightarrow> is_ok stored \<and>
              \<not> InMemoryPersistency_is_empty D persist \<and> InMemoryPersistency_len D persist = 1 \<and>
              InMemoryPersistency_contains D persist ''test1'' \<and>
              (case load (InMemoryPersistency D) ''test1'' persist of
                 (loaded, persist) \<Rightarrow>
                   unwrapped loaded (\<lambda>l. case l of None \<Rightarrow> False | Some (lc, s, p) \<Rightarrow> lc = Running \<and> s = Wf_Running) \<and>
                   (case InMemoryPersistency_remove D ''test1'' persist of
                      (removed, persist) \<Rightarrow>
                        (case removed of None \<Rightarrow> False | Some (lc, s, p) \<Rightarrow> s = Wf_Running) \<and>
                        InMemoryPersistency_is_empty D persist))))"

lemma memory_operations_test:
  assumes "dash_map D"
  shows "test_in_memory_persistency_operations D"
proof -
  note laws = dash_map.get_new [OF assms] dash_map.get_insert [OF assms] dash_map.get_remove [OF assms]
    dash_map.remove_result [OF assms] dash_map.contains_key [OF assms] dash_map.len_dom [OF assms]
    dash_map.is_empty_iff [OF assms]
  have dom: "dom (dm_get D (dm_insert D k v m)) = insert k (dom (dm_get D m))" for k v m
    by (rule set_eqI) (cases v, simp add: domIff dash_map.get_insert [OF assms])
  have none: "dom (dm_get D (dm_new D)) = {}" by (rule set_eqI) (simp add: domIff dash_map.get_new [OF assms])
  let ?m = "dm_insert D ''test1'' (Running, Wf_Running, WorkflowPayload_default) (dm_new D)"
  obtain r m' where rem: "dm_remove D ''test1'' ?m = (r, m')" by fastforce
  then have r: "r = Some (''test1'', Running, Wf_Running, WorkflowPayload_default)" "dm_get D m' k = None" for k
    using dash_map.remove_result [OF assms, of "''test1''" ?m] dash_map.get_remove [OF assms, of "''test1''" ?m k]
    by (simp_all add: laws split: if_splits)
  show ?thesis
    by (simp add: test_in_memory_persistency_operations_def Let_def InMemoryPersistency_new_def InMemoryPersistency_def
        InMemoryPersistency_is_empty_def InMemoryPersistency_len_def InMemoryPersistency_contains_def
        InMemoryPersistency_remove_def is_ok_def unwrapped_def laws dom none rem r exI [of _ "''test1''"])
qed

end
