(* ===== verification/Spec2Isabelle.thy ===== *)
theory Spec2Isabelle
  imports Props_Engine Props_Actor Props_System Props_Restart Props_Network Props_Supervisor Props_Data
    Props_Parser Props_Macro Props_Timer Props_Examples Fsm_Tests Ex_Integration
begin

text \<open>
  A verification development of \<open>finitomata\<close>, a library of finite state machines for Rust, as it
  stands in this repository: the runtime crate \<open>finitomata/src\<close> with its examples and the attribute
  macro \<open>finitomata_macro/src\<close>.

  \<^bold>\<open>The program.\<close> A machine is a transition graph (\<open>transition.rs\<close>) and an implementation of the
  trait \<open>Finitomata\<close> (\<open>callbacks.rs\<close>) that picks the target of each transition. The engine
  (\<open>engine.rs\<close>) runs one transition: it asks the graph, calls the callbacks in order, stores the
  new state with a backend (\<open>persistency\<close>), updates the state and its history (\<open>state.rs\<close>) and
  tells a listener (\<open>listener.rs\<close>). An actor (\<open>FsmActor\<close> in \<open>supervisor.rs\<close>) owns one machine: it
  turns messages and timer ticks into transitions, follows chains of hard events, keeps the shared
  cache (\<open>cache.rs\<close>) up to date and ends with the machine. \<open>FinitomataSupervisor\<close> spawns actors,
  addresses them by name and reads the cache. Graphs are written as text and parsed at run time
  (\<open>parser\<close>) or, by the macro, at compile time, where they are validated and turned into code. A
  stand-alone timer (\<open>timer.rs\<close>) sends ticks to machines that run without a supervisor.

  \<^bold>\<open>The theories,\<close> in the order they build on each other:
  \<^item> \<open>Fsm_Prelude\<close>: how Rust types and iterators are read, the theorem collections.
  \<^item> \<open>Fsm_Errors\<close>: \<open>error.rs\<close>.
  \<^item> \<open>Fsm_Graph\<close>, \<open>Fsm_Search\<close>: \<open>transition.rs\<close>; the graph with its index and the queries, then
    \<open>reachable_from\<close>, \<open>validate\<close> and \<open>shortest_path\<close> with their breadth-first invariants. The queue
    loops are total functions with lexicographic measures (the indexed states not yet visited, then
    the length of the queue), so no fuel is needed.
  \<^item> \<open>Fsm_State\<close>: \<open>state.rs\<close>; the bounded history is related to the run-length encoding of all the
    states ever pushed. The counters are 64-bit words and wrap.
  \<^item> \<open>Fsm_Callbacks\<close>: \<open>callbacks.rs\<close> and \<open>listener.rs\<close>; an implementation is a record of functions
    on the user's struct, the payload and the outside world, and the properties hold of all.
  \<^item> \<open>Fsm_Persistency\<close>, \<open>Fsm_Cache\<close>: \<open>persistency/mod.rs\<close>, \<open>persistency/memory.rs\<close>, \<open>cache.rs\<close>.
    \<open>DashMap\<close> is a parameter with the locale \<open>dash_map\<close> of its laws; the contract of a backend is
    the locale \<open>persistency\<close>, which the in-memory backend keeps over every lawful map.
  \<^item> \<open>Fsm_Engine\<close>, \<open>Fsm_Trace\<close>, \<open>Fsm_Durable\<close>: \<open>transit\<close> of \<open>engine.rs\<close>; the abstract step
    relation \<open>fsm_step\<close> it refines and its runs \<open>fsm_run\<close>; the sequence of calls it makes, read off
    callbacks that log; what it leaves in a backend that keeps its contract.
  \<^item> \<open>Fsm_Example\<close>: the machine of the tests of \<open>engine.rs\<close>, on which the witnesses run.
  \<^item> \<open>Fsm_Actor\<close>, \<open>Fsm_Life\<close>: \<open>FsmActor\<close>; \<open>do_transition\<close> may follow hard events for ever, so it is a
    partial function whose value \<open>None\<close> is that it does not return. A life is any sequence of
    handler calls: started, messages until a stop is requested, stopped.
  \<^item> \<open>Fsm_Supervisor\<close>: \<open>FinitomataSupervisor\<close>; the calls on the actor system are the parameter
    \<open>Joerl\<close>, the laws of its name registry the locale \<open>actor_registry\<close>.
  \<^item> \<open>Fsm_System\<close>: a supervisor with the actors it spawned over one cache and one world, as a step
    relation that interleaves their handlers, crashes and anything that leaves the cache alone; its
    invariant relates the cache to the live actors. Any name may be started at any time; a name that
    is started while a live actor has it is noted in \<open>sy_shared\<close>, and the invariant says nothing of
    it from then on.
  \<^item> \<open>Fsm_Restart\<close>: the same system over a backend that answers every load and whose failed stores
    store nothing (locale \<open>durable\<close>), where children are started again after a crash or a stop; its
    invariant relates the backend to the states of the actors. A crash leaves the backend
    as the handler it interrupts has left it by then: \<open>crash_leaves\<close> follows the handler to the
    \<open>transit\<close> that panics, before or after its target is stored.
  \<^item> \<open>Fsm_Network\<close>: the same system with the mailboxes of the actors and the requests of the handlers
    carried out: registrations when \<open>started\<close> returns, ticks when the timer is due. It refines
    \<open>Fsm_System\<close>; its invariants are about pids, names and ticks. The locale \<open>pid_supply\<close> is what
    \<open>joerl\<close> promises of pids. A scheduler runs it for a number of rounds.
  \<^item> \<open>Fsm_Mailbox\<close>, \<open>Fsm_Rejoin\<close>: how the handlers of one actor work off its mailbox, one after the
    other; how a supervised child comes up and takes over its name.
  \<^item> \<open>Fsm_Strings\<close>, \<open>Fsm_Parser\<close>, \<open>Fsm_Render\<close>: \<open>parser/mod.rs\<close>, \<open>mermaid.rs\<close>, \<open>plantuml.rs\<close> and the
    printers of the round trip; the locale \<open>line_syntax\<close> is what a syntax owes the round trip, and
    is interpreted for the three runtime syntaxes and the three of the macro.
  \<^item> \<open>Fsm_Macro\<close>, \<open>Fsm_Names\<close>, \<open>Fsm_Entry\<close>: \<open>parser.rs\<close>, \<open>validation.rs\<close>, \<open>codegen.rs\<close> and the driver
    of \<open>lib.rs\<close> in \<open>finitomata_macro\<close>; the names in the generated code and which of them are
    identifiers of Rust; the arguments of the attribute,
    with the syntax trees of \<open>syn\<close> as a parameter.
  \<^item> \<open>Fsm_Dialects\<close>: the runtime parsers against the macro's copies of them; the locale \<open>dialects\<close> has
    two readers of lines and the lines they read alike.
  \<^item> \<open>Fsm_Timer\<close>: \<open>timer.rs\<close>; the task and \<open>stop\<close> as functions from one \<open>await\<close> to the next, a run as a
    list of timed events, and what \<open>tokio\<close> documents as predicates on runs.
  \<^item> \<open>Fsm_Data\<close>: what a machine keeps true of its data; the locale \<open>data_invariant\<close> asks it of one
    \<open>transit\<close>, one \<open>on_timer\<close> and \<open>on_terminate\<close> and gives it for whole lives.
  \<^item> \<open>Ex_Turnstile\<close>, \<open>Ex_Order\<close>, \<open>Ex_Document\<close>, \<open>Ex_Worker\<close>: the four programs of
    \<open>finitomata/examples\<close>, from the attribute through the generated graph and the callbacks to the run
    of \<open>main\<close>; each interprets \<open>data_invariant\<close> or runs on \<open>Fsm_Supervisor\<close>. \<open>main\<close> is read as the
    messages it sends, each handled before the next.
  \<^item> \<open>Fsm_Tests\<close>, \<open>Ex_Integration\<close>: the unit tests of the crate, and the integration tests of
    \<open>finitomata/tests\<close> with their four machines, as computations on the model, and that they hold. A
    \<open>sleep\<close> of a test is a number of rounds of the actors it waits for: two for an actor that comes
    up and takes a message, more where hard events or ticks follow.
  \<^item> \<open>Props_Engine\<close>, \<open>Props_Actor\<close>, \<open>Props_System\<close>, \<open>Props_Restart\<close>, \<open>Props_Network\<close>,
    \<open>Props_Supervisor\<close>, \<open>Props_Data\<close>, \<open>Props_Parser\<close>, \<open>Props_Macro\<close>, \<open>Props_Timer\<close>,
    \<open>Props_Examples\<close>: the properties C1 to C40, each with a witness on concrete inputs where it has
    hypotheses.

  \<^bold>\<open>What the properties show.\<close> C1 to C5: one transition moves only along the graph, its exact
  result, calls and stored entry, and that a failed one leaves the state alone. C6 and C7: a whole
  life of an actor follows a path of the graph and calls \<open>on_terminate\<close> at most once. C8 and C9:
  chains of hard events end on graphs without hard cycles and do not on a hard loop. C10: the
  stop requests of the handlers. C11 and C12: the cache of a supervisor mirrors its actors and
  \<open>alive\<close> tells which run, of the names that were not started while a live actor had them. C13 and
  C14: of the same names, over a backend that is up, no crash or restart takes an FSM off its graph or
  loses a transition. C15 to C18: messages reach an FSM of the name they were sent to, an accepted event takes effect, a
  child comes back under its name, ticks do not pile up. C19 and C20: starting and spawning.
  C21 to C23: the graph and its searches. C24 and C25: history and backend. C26 to C29: the parsers, their
  round trips and the equivalence of the two copies. C30 to C33: the macro, from the attribute to
  the types of the generated code. C34 to C36: the timer. C37 to C40: the examples.

  \<^bold>\<open>Bounds and readings.\<close> Characters are the first 256 code points. \<open>usize\<close> values that index or
  count elements of a collection are natural numbers. Asynchronous functions are run to completion
  in the order the code awaits them; an actor handles one message at a time, so its handlers are
  steps. The requests a handler makes of \<open>joerl\<close> (stop, send later, register) are recorded in
  order; \<open>Fsm_Network\<close> acts on them.

  \<^bold>\<open>Not modelled:\<close> the token streams of the macro (\<open>syn\<close> and \<open>quote\<close>; what they are read into and
  what the emitted code declares are modelled); log messages; the module declarations of \<open>lib.rs\<close>;
  the restart strategies of \<open>joerl\<close>, which decide when a crashed child is started again (the models
  start it at any time); the wall clock, which the models replace by the order of the steps and, in
  \<open>Fsm_Timer\<close>, by the times of the events of a run.
\<close>

end
